(* ===== verification/Prelude.thy ===== *)
theory Prelude imports Main begin

text \<open>
  Shared vocabulary of the development: the collections the component proofs draw on, the
  types that stand for Go's basic types, results with errors, and the lemmas on lists, options
  and maps that more than one component uses.

  Go strings and byte slices are \<^typ>\<open>char list\<close>, one \<^typ>\<open>char\<close> per byte; text that the code walks
  rune by rune (the slate texts) is a list of code points. A \<open>time.Time\<close> is a number of
  nanoseconds, with 0 for Go's zero time, and a \<open>time.Duration\<close> is a number of nanoseconds too.
\<close>

section \<open>Collections\<close>

named_theorems go_simps \<open>equations of the Go library functions\<close>
named_theorems db_simps \<open>projections and updates of the database tables\<close>
named_theorems inv_intros \<open>operations preserve the component invariants\<close>

section \<open>Types\<close>

type_synonym bytes = string
type_synonym rune = int
type_synonym time = int
type_synonym duration = int

text \<open>An operation that can fail returns \<open>Inl\<close> of its error or \<open>Inr\<close> of its value.\<close>

type_synonym ('e, 'a) result = "'e + 'a"

abbreviation second :: duration where
  "second \<equiv> 1000000000"

abbreviation minute :: duration where
  "minute \<equiv> 60000000000"

abbreviation zero_time :: time where
  "zero_time \<equiv> 0"

text \<open>The least and the greatest \<open>int64\<close>.\<close>

abbreviation min_int64 :: int where
  "min_int64 \<equiv> - (2 ^ 63)"

abbreviation max_int64 :: int where
  "max_int64 \<equiv> 2 ^ 63 - 1"

text \<open>\<open>t.Sub(u)\<close> and \<open>time.Since(u)\<close>: the difference saturates at the bounds of an \<open>int64\<close>.\<close>

definition time_sub :: "time \<Rightarrow> time \<Rightarrow> duration" where
  "time_sub t u = max min_int64 (min max_int64 (t - u))"

lemma time_sub_le_iff:
  "d < max_int64 \<Longrightarrow> min_int64 \<le> d \<Longrightarrow> time_sub t u \<le> d \<longleftrightarrow> t - u \<le> d"
  by (auto simp: time_sub_def)

lemma time_sub_less_iff:
  "d \<le> max_int64 \<Longrightarrow> min_int64 < d \<Longrightarrow> time_sub t u < d \<longleftrightarrow> t - u < d"
  by (auto simp: time_sub_def)

section \<open>Results\<close>

definition is_ok :: "('e, 'a) result \<Rightarrow> bool" where
  "is_ok r = (case r of Inl _ \<Rightarrow> False | Inr _ \<Rightarrow> True)"

lemma is_ok_simps [simp]: "is_ok (Inl e) = False" "is_ok (Inr x) = True"
  by (simp_all add: is_ok_def)

lemma is_okE: "is_ok r \<Longrightarrow> (\<And>x. r = Inr x \<Longrightarrow> P) \<Longrightarrow> P"
  by (cases r) auto

definition or_else :: "('e, 'a) result \<Rightarrow> 'a \<Rightarrow> 'a" where
  "or_else r d = (case r of Inl _ \<Rightarrow> d | Inr x \<Rightarrow> x)"

section \<open>Lists\<close>

text \<open>The first row a predicate accepts: what \<open>QueryRow\<close> scans.\<close>

lemma find_None_iff_filter: "List.find P xs = None \<longleftrightarrow> filter P xs = []"
  by (auto simp: find_None_iff filter_empty_conv)

lemma find_Some_in: "List.find P xs = Some x \<Longrightarrow> x \<in> set xs \<and> P x"
  by (auto simp: find_Some_iff)

lemma find_SomeI_unique:
  "x \<in> set xs \<Longrightarrow> P x \<Longrightarrow> \<forall>y \<in> set xs. P y \<longrightarrow> y = x \<Longrightarrow> List.find P xs = Some x"
  by (metis find_None_iff find_Some_in not_None_eq)

lemma find_None_key: "k \<notin> f ` set xs \<Longrightarrow> List.find (\<lambda>r. f r = k) xs = None"
  by (induction xs) auto

lemma find_map_upd:
  "(\<And>x. x \<in> set xs \<Longrightarrow> P (f x) = P x) \<Longrightarrow> List.find P (map f xs) = map_option f (List.find P xs)"
  by (induction xs) auto

lemma find_append: "List.find P (xs @ ys) = (case List.find P xs of None \<Rightarrow> List.find P ys | Some x \<Rightarrow> Some x)"
  by (induction xs) auto

lemma takeWhile_all_append:
  "\<forall>x \<in> set xs. P x \<Longrightarrow> \<not> P y \<Longrightarrow> takeWhile P (xs @ y # ys) = xs"
  by (induction xs) auto

lemma dropWhile_all_append:
  "\<forall>x \<in> set xs. P x \<Longrightarrow> \<not> P y \<Longrightarrow> dropWhile P (xs @ y # ys) = y # ys"
  by (induction xs) auto

lemma separator_inj:
  "c \<notin> set xs \<Longrightarrow> c \<notin> set xs' \<Longrightarrow> xs @ c # ys = xs' @ c # ys' \<longleftrightarrow> xs = xs' \<and> ys = ys'"
proof (induction xs arbitrary: xs')
  case Nil
  then show ?case by (cases xs') auto
next
  case (Cons x xs)
  then show ?case by (cases xs') auto
qed

section \<open>Maps\<close>

definition restrict_keys :: "'k list \<Rightarrow> ('k \<rightharpoonup> 'v) \<Rightarrow> ('k \<rightharpoonup> 'v)" where
  "restrict_keys ks m = (\<lambda>k. if k \<in> set ks then m k else None)"

lemma dom_restrict_keys [simp]: "dom (restrict_keys ks m) = dom m \<inter> set ks"
  by (auto simp: restrict_keys_def dom_def)

lemma restrict_keys_in [simp]: "k \<in> set ks \<Longrightarrow> restrict_keys ks m k = m k"
  by (simp add: restrict_keys_def)

end
