(* ===== verification/GoStrings.thy ===== *)
theory GoStrings imports Prelude begin

text \<open>
  The functions of Go's \<open>strings\<close> package that the gateway uses, over byte strings, and the
  laws the components need of them. The argument order is Go's.
\<close>

section \<open>Prefixes and suffixes\<close>

definition has_prefix :: "string \<Rightarrow> string \<Rightarrow> bool" where
  "has_prefix s p = (take (length p) s = p)"

definition has_suffix :: "string \<Rightarrow> string \<Rightarrow> bool" where
  "has_suffix s p = (length p \<le> length s \<and> drop (length s - length p) s = p)"

definition trim_prefix :: "string \<Rightarrow> string \<Rightarrow> string" where
  "trim_prefix s p = (if has_prefix s p then drop (length p) s else s)"

definition trim_suffix :: "string \<Rightarrow> string \<Rightarrow> string" where
  "trim_suffix s p = (if has_suffix s p then take (length s - length p) s else s)"

lemma has_prefix_iff: "has_prefix s p \<longleftrightarrow> (\<exists>t. s = p @ t)"
  by (metis append_eq_conv_conj append_take_drop_id has_prefix_def)

lemma has_suffix_iff: "has_suffix s p \<longleftrightarrow> (\<exists>t. s = t @ p)"
proof
  assume "has_suffix s p"
  then show "\<exists>t. s = t @ p"
    unfolding has_suffix_def by (metis append_take_drop_id)
next
  assume "\<exists>t. s = t @ p"
  then show "has_suffix s p" by (auto simp: has_suffix_def)
qed

lemma has_prefix_append [simp]: "has_prefix (p @ s) p"
  by (simp add: has_prefix_def)

lemma has_prefix_Nil [simp]: "has_prefix s []"
  by (simp add: has_prefix_def)

lemma has_prefix_of_Nil [simp]: "has_prefix [] p \<longleftrightarrow> p = []"
  by (auto simp: has_prefix_def)

lemma has_prefix_Cons [simp]:
  "has_prefix (c # s) (d # p) \<longleftrightarrow> c = d \<and> has_prefix s p"
  by (auto simp: has_prefix_def)

lemma has_suffix_append [simp]: "has_suffix (s @ p) p"
  by (simp add: has_suffix_def)

lemma trim_prefix_append [simp]: "trim_prefix (p @ s) p = s"
  by (simp add: trim_prefix_def)

lemma trim_suffix_append [simp]: "trim_suffix (s @ p) p = s"
  by (simp add: trim_suffix_def)

section \<open>Searching\<close>

text \<open>\<open>strings.Index\<close>: \<open>None\<close> stands for Go's -1.\<close>

fun str_index :: "string \<Rightarrow> string \<Rightarrow> nat option" where
  "str_index [] p = (if p = [] then Some 0 else None)"
| "str_index (c # s) p =
     (if has_prefix (c # s) p then Some 0 else map_option Suc (str_index s p))"

definition str_contains :: "string \<Rightarrow> string \<Rightarrow> bool" where
  "str_contains s p = (str_index s p \<noteq> None)"

fun index_byte :: "string \<Rightarrow> char \<Rightarrow> nat option" where
  "index_byte [] c = None"
| "index_byte (d # s) c = (if d = c then Some 0 else map_option Suc (index_byte s c))"

fun last_index_byte :: "string \<Rightarrow> char \<Rightarrow> nat option" where
  "last_index_byte [] c = None"
| "last_index_byte (d # s) c =
     (case last_index_byte s c of
        Some i \<Rightarrow> Some (Suc i)
      | None \<Rightarrow> (if d = c then Some 0 else None))"

lemma str_index_Some:
  "str_index s p = Some i \<Longrightarrow> i \<le> length s \<and> s = take i s @ p @ drop (i + length p) s"
proof (induction s arbitrary: i)
  case Nil
  then show ?case by (auto split: if_splits)
next
  case (Cons c s)
  show ?case
  proof (cases "has_prefix (c # s) p")
    case True
    with Cons.prems have "i = 0" by simp
    with True show ?thesis
      by (metis append_take_drop_id append_Nil has_prefix_def le0 plus_nat.add_0 take0)
  next
    case False
    with Cons.prems obtain j where "str_index s p = Some j" and "i = Suc j" by auto
    with Cons.IH show ?thesis by auto
  qed
qed

lemma str_index_None: "str_index s p = None \<longleftrightarrow> (\<nexists>a b. s = a @ p @ b)"
proof (induction s)
  case Nil
  then show ?case by auto
next
  case (Cons c s)
  have "(\<exists>a b. c # s = a @ p @ b) \<longleftrightarrow> has_prefix (c # s) p \<or> (\<exists>a b. s = a @ p @ b)"
  proof
    assume "\<exists>a b. c # s = a @ p @ b"
    then obtain a b where ab: "c # s = a @ p @ b" by blast
    show "has_prefix (c # s) p \<or> (\<exists>a b. s = a @ p @ b)"
      using ab by (cases a) (auto simp: has_prefix_iff)
  next
    assume "has_prefix (c # s) p \<or> (\<exists>a b. s = a @ p @ b)"
    then show "\<exists>a b. c # s = a @ p @ b"
      by (metis append_Cons append_Nil has_prefix_iff)
  qed
  with Cons.IH show ?case by auto
qed

lemma str_contains_iff: "str_contains s p \<longleftrightarrow> (\<exists>a b. s = a @ p @ b)"
  by (simp add: str_contains_def str_index_None)

lemma index_byte_None [simp]: "index_byte s c = None \<longleftrightarrow> c \<notin> set s"
  by (induction s) auto

lemma index_byte_Some:
  "index_byte s c = Some i \<Longrightarrow> i < length s \<and> s = take i s @ c # drop (Suc i) s \<and> c \<notin> set (take i s)"
  by (induction s arbitrary: i) (auto split: if_splits)

lemma index_byte_append: "c \<notin> set a \<Longrightarrow> index_byte (a @ c # b) c = Some (length a)"
  by (induction a) auto

lemma last_index_byte_None [simp]: "last_index_byte s c = None \<longleftrightarrow> c \<notin> set s"
  by (induction s) (auto split: option.splits)

lemma last_index_byte_Some:
  "last_index_byte s c = Some i \<Longrightarrow>
   i < length s \<and> s = take i s @ c # drop (Suc i) s \<and> c \<notin> set (drop (Suc i) s)"
proof (induction s arbitrary: i)
  case Nil
  then show ?case by simp
next
  case (Cons d s)
  show ?case
  proof (cases "last_index_byte s c")
    case None
    with Cons.prems show ?thesis by (auto split: if_splits)
  next
    case (Some j)
    with Cons show ?thesis by auto
  qed
qed

lemma last_index_byte_append: "c \<notin> set b \<Longrightarrow> last_index_byte (a @ c # b) c = Some (length a)"
proof (induction a)
  case Nil
  show ?case
    unfolding append_Nil last_index_byte.simps(2) last_index_byte_None [THEN iffD2, OF Nil] by simp
next
  case (Cons x a)
  then show ?case by simp
qed

section \<open>Splitting and joining\<close>

text \<open>\<open>strings.Split\<close> with a separator of one byte; the result is never empty.\<close>

fun split_on :: "char \<Rightarrow> string \<Rightarrow> string list" where
  "split_on c [] = [[]]"
| "split_on c (d # s) =
     (if d = c then [] # split_on c s
      else (case split_on c s of [] \<Rightarrow> [[d]] | w # ws \<Rightarrow> (d # w) # ws))"

fun join_with :: "char \<Rightarrow> string list \<Rightarrow> string" where
  "join_with c [] = []"
| "join_with c [w] = w"
| "join_with c (w # ws) = w @ c # join_with c ws"

text \<open>\<open>strings.Cut\<close> and \<open>strings.SplitN(s, c, 2)\<close>: the text before the separator and, when
  there is one, the text after it.\<close>

definition cut_at :: "char \<Rightarrow> string \<Rightarrow> string \<times> string option" where
  "cut_at c s =
     (case index_byte s c of
        None \<Rightarrow> (s, None)
      | Some i \<Rightarrow> (take i s, Some (drop (Suc i) s)))"

lemma split_on_nonempty [simp]: "split_on c s \<noteq> []"
  by (induction s) (auto split: list.splits)

lemma join_split [simp]: "join_with c (split_on c s) = s"
proof (induction s)
  case Nil
  then show ?case by simp
next
  case (Cons d s)
  then show ?case
    by (cases "split_on c s"; cases "tl (split_on c s)") (auto split: list.splits)
qed

lemma split_on_no_sep: "w \<in> set (split_on c s) \<Longrightarrow> c \<notin> set w"
  by (induction s arbitrary: w) (fastforce split: list.splits if_splits)+

lemma split_on_single: "c \<notin> set w \<Longrightarrow> split_on c w = [w]"
  by (induction w) auto

lemma split_on_append: "c \<notin> set w \<Longrightarrow> split_on c (w @ c # s) = w # split_on c s"
  by (induction w) auto

lemma split_join:
  "ws \<noteq> [] \<Longrightarrow> \<forall>w \<in> set ws. c \<notin> set w \<Longrightarrow> split_on c (join_with c ws) = ws"
proof (induction c ws rule: join_with.induct)
  case (1 c)
  then show ?case by simp
next
  case (2 c w)
  then show ?case by (simp add: split_on_single)
next
  case (3 c w v vs)
  then show ?case by (simp add: split_on_append)
qed

section \<open>Trimming\<close>

text \<open>\<open>strings.TrimRight(s, cutset)\<close> for an ASCII cutset.\<close>

definition trim_right :: "string \<Rightarrow> string \<Rightarrow> string" where
  "trim_right s cs = rev (dropWhile (\<lambda>c. c \<in> set cs) (rev s))"

lemma trim_right_id: "s = [] \<or> last s \<notin> set cs \<Longrightarrow> trim_right s cs = s"
  by (cases s rule: rev_cases) (auto simp: trim_right_def)

lemma trim_right_Nil [simp]: "trim_right [] cs = []"
  by (simp add: trim_right_def)

lemma set_trim_right: "set (trim_right s cs) \<subseteq> set s"
  by (auto simp: trim_right_def dest: set_dropWhileD)

lemma trim_right_last: "trim_right s cs \<noteq> [] \<Longrightarrow> last (trim_right s cs) \<notin> set cs"
proof -
  assume "trim_right s cs \<noteq> []"
  then have "dropWhile (\<lambda>c. c \<in> set cs) (rev s) \<noteq> []" by (simp add: trim_right_def)
  from hd_dropWhile [OF this] show ?thesis by (simp add: trim_right_def last_rev)
qed

text \<open>
  \<open>strings.TrimSpace\<close> trims the runes of \<open>unicode.IsSpace\<close>. Six of them are ASCII; the others
  are two or three bytes of UTF-8, and a lead byte is never a continuation byte, so looking at
  the bytes from either end finds exactly the runes Go decodes there.
\<close>

definition ascii_space :: "char \<Rightarrow> bool" where
  "ascii_space c \<longleftrightarrow> c \<in> {CHR '' '', CHR 0x09, CHR 0x0A, CHR 0x0B, CHR 0x0C, CHR 0x0D}"

definition space2 :: "char \<Rightarrow> char \<Rightarrow> bool" where
  "space2 a b \<longleftrightarrow> a = CHR 0xC2 \<and> b \<in> {CHR 0x85, CHR 0xA0}"

definition space3 :: "char \<Rightarrow> char \<Rightarrow> char \<Rightarrow> bool" where
  "space3 a b c \<longleftrightarrow>
     (a = CHR 0xE1 \<and> b = CHR 0x9A \<and> c = CHR 0x80) \<or>
     (a = CHR 0xE2 \<and> b = CHR 0x80 \<and>
       (of_char c \<in> {0x80..0x8A :: nat} \<or> c \<in> {CHR 0xA8, CHR 0xA9, CHR 0xAF})) \<or>
     (a = CHR 0xE2 \<and> b = CHR 0x81 \<and> c = CHR 0x9F) \<or>
     (a = CHR 0xE3 \<and> b = CHR 0x80 \<and> c = CHR 0x80)"

fun trim_left_space :: "string \<Rightarrow> string" where
  "trim_left_space (a # b # c # s) =
     (if ascii_space a then trim_left_space (b # c # s)
      else if space2 a b then trim_left_space (c # s)
      else if space3 a b c then trim_left_space s
      else a # b # c # s)"
| "trim_left_space [a, b] =
     (if ascii_space a then trim_left_space [b] else if space2 a b then [] else [a, b])"
| "trim_left_space [a] = (if ascii_space a then [] else [a])"
| "trim_left_space [] = []"

text \<open>The same on the reversed string, for the right end.\<close>

fun trim_rev_space :: "string \<Rightarrow> string" where
  "trim_rev_space (a # b # c # s) =
     (if ascii_space a then trim_rev_space (b # c # s)
      else if space2 b a then trim_rev_space (c # s)
      else if space3 c b a then trim_rev_space s
      else a # b # c # s)"
| "trim_rev_space [a, b] =
     (if ascii_space a then trim_rev_space [b] else if space2 b a then [] else [a, b])"
| "trim_rev_space [a] = (if ascii_space a then [] else [a])"
| "trim_rev_space [] = []"

definition trim_space :: "string \<Rightarrow> string" where
  "trim_space s = rev (trim_rev_space (rev (trim_left_space s)))"

definition plain_char :: "char \<Rightarrow> bool" where
  "plain_char c \<longleftrightarrow> of_char c < (128 :: nat) \<and> \<not> ascii_space c"

lemma plain_char_not_space [simp]:
  "plain_char c \<Longrightarrow> \<not> ascii_space c"
  "plain_char a \<Longrightarrow> \<not> space2 a b"
  "plain_char b \<Longrightarrow> \<not> space2 a b"
  "plain_char a \<Longrightarrow> \<not> space3 a b c"
  "plain_char c \<Longrightarrow> \<not> space3 a b c"
  by (auto simp: plain_char_def space2_def space3_def)

lemma trim_left_space_plain: "plain_char a \<Longrightarrow> trim_left_space (a # s) = a # s"
  by (cases "a # s" rule: trim_left_space.cases) auto

lemma trim_rev_space_plain: "plain_char a \<Longrightarrow> trim_rev_space (a # s) = a # s"
  by (cases "a # s" rule: trim_rev_space.cases) auto

lemma trim_rev_space_ascii: "ascii_space a \<Longrightarrow> trim_rev_space (a # s) = trim_rev_space s"
  by (cases "a # s" rule: trim_rev_space.cases) auto

lemma trim_space_plain:
  assumes "s \<noteq> []" and "\<forall>c \<in> set s. plain_char c"
  shows "trim_space s = s" and "ascii_space w \<Longrightarrow> trim_space (s @ [w]) = s"
proof -
  obtain a t where s: "s = a # t" using assms(1) by (cases s) auto
  obtain u z where r: "s = u @ [z]" using assms(1) by (cases s rule: rev_cases) auto
  have "a \<in> set s" "z \<in> set s" by (simp add: s, simp add: r)
  with assms(2) have az: "plain_char a" "plain_char z" by auto
  show "trim_space s = s"
    using az by (metis r rev_rev_ident rev.simps(2) rev_append s trim_left_space_plain
        trim_rev_space_plain trim_space_def append.simps append_Nil rev_singleton_conv)
  assume w: "ascii_space w"
  have "trim_left_space (s @ [w]) = s @ [w]" using s az by (simp add: trim_left_space_plain)
  moreover have "trim_rev_space (rev (s @ [w])) = rev s"
    using w r az by (simp add: trim_rev_space_ascii trim_rev_space_plain)
  ultimately show "trim_space (s @ [w]) = s" by (simp add: trim_space_def)
qed

lemma set_trim_left_space: "set (trim_left_space s) \<subseteq> set s"
  by (induction s rule: trim_left_space.induct) auto

lemma set_trim_rev_space: "set (trim_rev_space s) \<subseteq> set s"
  by (induction s rule: trim_rev_space.induct) auto

lemma set_trim_space: "set (trim_space s) \<subseteq> set s"
  using set_trim_left_space set_trim_rev_space by (fastforce simp: trim_space_def)

section \<open>Case\<close>

text \<open>\<open>strings.ToLower\<close> on the ASCII letters; other bytes stay as they are.\<close>

definition lower_char :: "char \<Rightarrow> char" where
  "lower_char c =
     (if of_char c \<ge> (65 :: nat) \<and> of_char c \<le> (90 :: nat) then char_of (of_char c + 32 :: nat) else c)"

definition to_lower :: "string \<Rightarrow> string" where
  "to_lower s = map lower_char s"

lemma length_to_lower [simp]: "length (to_lower s) = length s"
  by (simp add: to_lower_def)

end
