(* ===== verification/Encoding.thy ===== *)
theory Encoding imports GoStrings begin

text \<open>
  The encodings of Go's standard library that the gateway's formats are built from: decimal
  integers (\<open>strconv.ParseInt\<close>, \<open>strconv.Atoi\<close>, \<open>%d\<close>), lower-case hexadecimal
  (\<open>encoding/hex\<close>) and base64 in its padded and its raw URL-safe form (\<open>encoding/base64\<close>),
  with their round trips. The locale \<open>byte_codec\<close> is the contract the sealed formats rely on.
\<close>

section \<open>The contract of an encoder and its decoder\<close>

locale byte_codec =
  fixes enc :: "'a \<Rightarrow> string"
    and dec :: "string \<Rightarrow> 'a option"
  assumes dec_enc: "dec (enc x) = Some x"
begin

lemma enc_eq_iff: "enc x = enc y \<longleftrightarrow> x = y"
  by (metis dec_enc option.inject)

lemma dec_unique: "dec (enc x) = Some y \<longleftrightarrow> x = y"
  by (simp add: dec_enc)

end

section \<open>Decimal integers\<close>

definition is_digit :: "char \<Rightarrow> bool" where
  "is_digit c \<longleftrightarrow> 48 \<le> (of_char c :: nat) \<and> (of_char c :: nat) \<le> 57"

definition digit_val :: "char \<Rightarrow> nat" where
  "digit_val c = of_char c - 48"

definition digit_char :: "nat \<Rightarrow> char" where
  "digit_char d = char_of (48 + d)"

lemma digit_char_simps [simp]:
  "d < 10 \<Longrightarrow> is_digit (digit_char d)"
  "d < 10 \<Longrightarrow> digit_val (digit_char d) = d"
  by (simp_all add: is_digit_def digit_val_def digit_char_def)

lemma digit_char_val: "is_digit c \<Longrightarrow> digit_char (digit_val c) = c"
  by (simp add: is_digit_def digit_val_def digit_char_def)

lemma digit_val_less: "is_digit c \<Longrightarrow> digit_val c < 10"
  by (auto simp: is_digit_def digit_val_def)

datatype parse_status = ParseOk | ParseSyntax | ParseRange

text \<open>
  The loop of \<open>strconv.ParseUint\<close> in base 10 and 64 bits. It reads from the left and stops at
  the first byte that is no digit or at the first overflow, whichever comes first.
\<close>

fun scan_uint64 :: "nat \<Rightarrow> string \<Rightarrow> nat \<times> parse_status" where
  "scan_uint64 n [] = (n, ParseOk)"
| "scan_uint64 n (c # s) =
     (if \<not> is_digit c then (0, ParseSyntax)
      else if 10 * n + digit_val c \<ge> 2 ^ 64 then (2 ^ 64 - 1, ParseRange)
      else scan_uint64 (10 * n + digit_val c) s)"

definition parse_uint64 :: "string \<Rightarrow> nat \<times> parse_status" where
  "parse_uint64 s = (if s = [] then (0, ParseSyntax) else scan_uint64 0 s)"

text \<open>\<open>strconv.ParseInt(s, 10, 64)\<close>: on a range error the value is the nearest bound.\<close>

definition parse_int64 :: "string \<Rightarrow> int \<times> parse_status" where
  "parse_int64 s =
     (let neg = (s \<noteq> [] \<and> hd s = CHR ''-'');
          digits = (if s \<noteq> [] \<and> hd s \<in> {CHR ''-'', CHR ''+''} then tl s else s);
          (n, st) = parse_uint64 digits
      in if st = ParseSyntax then (0, ParseSyntax)
         else if \<not> neg \<and> n \<ge> 2 ^ 63 then (max_int64, ParseRange)
         else if neg \<and> n > 2 ^ 63 then (min_int64, ParseRange)
         else (if neg then - int n else int n, ParseOk))"

text \<open>The decimal digits of a number, as \<open>%d\<close> prints them.\<close>

fun dec_digits :: "nat \<Rightarrow> string" where
  "dec_digits n = (if n < 10 then [] else dec_digits (n div 10)) @ [digit_char (n mod 10)]"

declare dec_digits.simps [simp del]

definition format_int :: "int \<Rightarrow> string" where
  "format_int i = (if i < 0 then CHR ''-'' # dec_digits (nat (- i)) else dec_digits (nat i))"

lemma dec_digits_nonempty [simp]: "dec_digits n \<noteq> []"
  by (simp add: dec_digits.simps [of n])

lemma dec_digits_all: "c \<in> set (dec_digits n) \<Longrightarrow> is_digit c"
proof (induction n rule: dec_digits.induct)
  case (1 n)
  then show ?case by (auto simp: dec_digits.simps [of n] split: if_splits)
qed

lemma scan_uint64_snoc:
  assumes "is_digit c"
  shows "scan_uint64 n (s @ [c]) =
    (case scan_uint64 n s of
       (m, ParseOk) \<Rightarrow> (if 10 * m + digit_val c \<ge> 2 ^ 64 then (2 ^ 64 - 1, ParseRange)
                         else (10 * m + digit_val c, ParseOk))
     | r \<Rightarrow> r)"
  using assms by (induction s arbitrary: n) auto

lemma scan_dec_digits: "n < 2 ^ 64 \<Longrightarrow> scan_uint64 0 (dec_digits n) = (n, ParseOk)"
proof (induction n rule: dec_digits.induct)
  case (1 n)
  show ?case
  proof (cases "n < 10")
    case True
    then show ?thesis by (simp add: dec_digits.simps [of n])
  next
    case False
    have "n div 10 < 2 ^ 64" using "1.prems" by (rule le_less_trans [OF div_le_dividend])
    with "1.IH" False have "scan_uint64 0 (dec_digits (n div 10)) = (n div 10, ParseOk)" by blast
    moreover have "10 * (n div 10) + n mod 10 = n" by simp
    ultimately show ?thesis
      using False "1.prems" by (simp add: dec_digits.simps [of n] scan_uint64_snoc)
  qed
qed

lemma parse_uint64_dec_digits: "n < 2 ^ 64 \<Longrightarrow> parse_uint64 (dec_digits n) = (n, ParseOk)"
  by (simp add: parse_uint64_def scan_dec_digits)

lemma hd_dec_digits: "hd (dec_digits n) \<notin> {CHR ''-'', CHR ''+''}"
proof -
  have "is_digit (hd (dec_digits n))" by (intro dec_digits_all [of _ n] hd_in_set) simp
  then show ?thesis by (auto simp: is_digit_def)
qed

lemma parse_format_int:
  assumes "min_int64 \<le> i" and "i \<le> max_int64"
  shows "parse_int64 (format_int i) = (i, ParseOk)"
proof (cases "i < 0")
  case True
  with assms have "nat (- i) < 2 ^ 64" "nat (- i) \<le> 2 ^ 63" by simp_all
  then show ?thesis
    using True by (simp add: parse_int64_def format_int_def parse_uint64_dec_digits del: nat_code)
next
  case False
  with assms have "nat i < 2 ^ 64" "nat i < 2 ^ 63" by simp_all
  then show ?thesis
    using False hd_dec_digits [of "nat i"]
    by (simp add: parse_int64_def format_int_def parse_uint64_dec_digits)
qed

lemma dec_digits_inj: "dec_digits m = dec_digits n \<longleftrightarrow> m = n"
proof
  show "dec_digits m = dec_digits n \<Longrightarrow> m = n"
  proof (induction m arbitrary: n rule: dec_digits.induct)
    case (1 m)
    from "1.prems" have app: "(if m < 10 then [] else dec_digits (m div 10)) =
        (if n < 10 then [] else dec_digits (n div 10))"
      and last: "digit_char (m mod 10) = digit_char (n mod 10)"
      by (simp_all add: dec_digits.simps [of m] dec_digits.simps [of n])
    have mods: "m mod 10 = n mod 10"
      using arg_cong [OF last, of digit_val] by simp
    show ?case
    proof (cases "m < 10")
      case True
      with app have "n < 10" by (metis dec_digits_nonempty)
      with True mods show ?thesis by simp
    next
      case False
      with app have n: "\<not> n < 10" by (metis dec_digits_nonempty)
      with app False have "dec_digits (m div 10) = dec_digits (n div 10)" by simp
      with "1.IH" False have "m div 10 = n div 10" by blast
      with mods show ?thesis by (metis mult_div_mod_eq)
    qed
  qed
qed simp

lemma format_int_inj: "format_int i = format_int j \<longleftrightarrow> i = j"
proof
  assume eq: "format_int i = format_int j"
  have minus: "hd (dec_digits n) \<noteq> CHR ''-''" for n using hd_dec_digits [of n] by simp
  show "i = j"
  proof (cases "i < 0"; cases "j < 0")
    assume "\<not> i < 0" "\<not> j < 0"
    with eq show ?thesis by (simp add: format_int_def dec_digits_inj)
  next
    assume "i < 0" "j < 0"
    with eq show ?thesis by (simp add: format_int_def dec_digits_inj)
  next
    assume "i < 0" "\<not> j < 0"
    with eq minus [of "nat j"] show ?thesis by (metis format_int_def list.sel(1))
  next
    assume "\<not> i < 0" "j < 0"
    with eq minus [of "nat i"] show ?thesis by (metis format_int_def list.sel(1))
  qed
qed simp

lemma format_int_chars: "c \<in> set (format_int i) \<Longrightarrow> is_digit c \<or> c = CHR ''-''"
  by (auto simp: format_int_def dest: dec_digits_all split: if_splits)

section \<open>Hexadecimal\<close>

definition hex_char :: "nat \<Rightarrow> char" where
  "hex_char n = (if n < 10 then char_of (48 + n) else char_of (87 + n))"

definition is_hex_char :: "char \<Rightarrow> bool" where
  "is_hex_char c \<longleftrightarrow> is_digit c \<or> (97 \<le> (of_char c :: nat) \<and> (of_char c :: nat) \<le> 102)"

definition hex_encode :: "bytes \<Rightarrow> string" where
  "hex_encode s = concat (map (\<lambda>c. [hex_char (of_char c div 16), hex_char (of_char c mod 16)]) s)"

lemma is_hex_char_hex_char: "n < 16 \<Longrightarrow> is_hex_char (hex_char n)"
  by (auto simp: is_hex_char_def hex_char_def is_digit_def)

lemma length_hex_encode [simp]: "length (hex_encode s) = 2 * length s"
  by (induction s) (auto simp: hex_encode_def)

lemma of_char_div16: "(of_char (c :: char) :: nat) div 16 < 16"
  by (rule less_mult_imp_div_less) simp

lemma hex_encode_chars: "c \<in> set (hex_encode s) \<Longrightarrow> is_hex_char c"
  by (auto simp: hex_encode_def intro!: is_hex_char_hex_char of_char_div16)

section \<open>Base64\<close>

definition std_alphabet :: string where
  "std_alphabet = ''ABCDEFGHIJKLMNOPQRSTUVWXYZabcdefghijklmnopqrstuvwxyz0123456789+/''"

definition url_alphabet :: string where
  "url_alphabet = ''ABCDEFGHIJKLMNOPQRSTUVWXYZabcdefghijklmnopqrstuvwxyz0123456789-_''"

definition b64_val :: "string \<Rightarrow> char \<Rightarrow> nat option" where
  "b64_val alpha c = index_byte alpha c"

text \<open>
  \<open>EncodeToString\<close>: three bytes become four characters; one or two bytes left over become two
  or three characters, followed by padding when the encoding pads.
\<close>

fun b64_encode :: "string \<Rightarrow> bool \<Rightarrow> bytes \<Rightarrow> string" where
  "b64_encode alpha pad [] = []"
| "b64_encode alpha pad [x] =
     (let a = (of_char x :: nat)
      in [alpha ! (a div 4), alpha ! (a mod 4 * 16)] @ (if pad then ''=='' else []))"
| "b64_encode alpha pad [x, y] =
     (let a = (of_char x :: nat); b = of_char y
      in [alpha ! (a div 4), alpha ! (a mod 4 * 16 + b div 16), alpha ! (b mod 16 * 4)] @
         (if pad then ''='' else []))"
| "b64_encode alpha pad (x # y # z # s) =
     (let a = (of_char x :: nat); b = of_char y; c = of_char z
      in [alpha ! (a div 4), alpha ! (a mod 4 * 16 + b div 16),
          alpha ! (b mod 16 * 4 + c div 64), alpha ! (c mod 64)] @ b64_encode alpha pad s)"

text \<open>
  \<open>DecodeString\<close> skips carriage returns and line feeds wherever they stand, checks the
  padding, and (the encodings are not \<open>Strict\<close>) ignores the unused low bits of the last
  character.
\<close>

definition byte1 :: "nat \<Rightarrow> nat \<Rightarrow> char" where
  "byte1 v w = char_of ((v * 4 + w div 16) mod 256)"

definition byte2 :: "nat \<Rightarrow> nat \<Rightarrow> char" where
  "byte2 v w = char_of ((v * 16 + w div 4) mod 256)"

definition byte3 :: "nat \<Rightarrow> nat \<Rightarrow> char" where
  "byte3 v w = char_of ((v * 64 + w) mod 256)"

fun b64_quads :: "string \<Rightarrow> bool \<Rightarrow> string \<Rightarrow> bytes option" where
  "b64_quads alpha pad [] = Some []"
| "b64_quads alpha pad [p] = None"
| "b64_quads alpha pad [p, q] =
     (if pad then None
      else (case (b64_val alpha p, b64_val alpha q) of
              (Some a, Some b) \<Rightarrow> Some [byte1 a b] | _ \<Rightarrow> None))"
| "b64_quads alpha pad [p, q, r] =
     (if pad then None
      else (case (b64_val alpha p, b64_val alpha q, b64_val alpha r) of
              (Some a, Some b, Some c) \<Rightarrow> Some [byte1 a b, byte2 b c] | _ \<Rightarrow> None))"
| "b64_quads alpha pad (p # q # r # t # s) =
     (if pad \<and> t = CHR ''=''
      then (if s \<noteq> [] then None
            else if r = CHR ''=''
            then (case (b64_val alpha p, b64_val alpha q) of
                    (Some a, Some b) \<Rightarrow> Some [byte1 a b] | _ \<Rightarrow> None)
            else (case (b64_val alpha p, b64_val alpha q, b64_val alpha r) of
                    (Some a, Some b, Some c) \<Rightarrow> Some [byte1 a b, byte2 b c] | _ \<Rightarrow> None))
      else (case (b64_val alpha p, b64_val alpha q, b64_val alpha r, b64_val alpha t) of
              (Some a, Some b, Some c, Some d) \<Rightarrow>
                map_option (\<lambda>bs. byte1 a b # byte2 b c # byte3 c d # bs) (b64_quads alpha pad s)
            | _ \<Rightarrow> None))"

definition b64_decode :: "string \<Rightarrow> bool \<Rightarrow> string \<Rightarrow> bytes option" where
  "b64_decode alpha pad s = b64_quads alpha pad (filter (\<lambda>c. c \<noteq> CHR 0x0A \<and> c \<noteq> CHR 0x0D) s)"

definition std_encode :: "bytes \<Rightarrow> string" where "std_encode = b64_encode std_alphabet True"
definition std_decode :: "string \<Rightarrow> bytes option" where "std_decode = b64_decode std_alphabet True"
definition rawurl_encode :: "bytes \<Rightarrow> string" where "rawurl_encode = b64_encode url_alphabet False"
definition rawurl_decode :: "string \<Rightarrow> bytes option" where "rawurl_decode = b64_decode url_alphabet False"

definition good_alphabet :: "string \<Rightarrow> bool" where
  "good_alphabet alpha \<longleftrightarrow> length alpha = 64 \<and>
     list_all (\<lambda>i. b64_val alpha (alpha ! i) = Some i \<and>
        alpha ! i \<noteq> CHR ''='' \<and> alpha ! i \<noteq> CHR 0x0A \<and> alpha ! i \<noteq> CHR 0x0D) [0..<64]"

lemma good_alphabets: "good_alphabet std_alphabet" "good_alphabet url_alphabet"
  by code_simp+

lemma length_alphabets [simp]: "length std_alphabet = 64" "length url_alphabet = 64"
  using good_alphabets by (simp_all add: good_alphabet_def)

lemma length_b64_encode_pad: "length (b64_encode alpha True s) = 4 * ((length s + 2) div 3)"
proof (induction alpha True s rule: b64_encode.induct)
  case (4 alpha x y z s)
  then have "length (b64_encode alpha True s) = 4 * ((length s + 2) div 3)" by blast
  moreover have "(5 + length s) div 3 = Suc ((length s + 2) div 3)" by presburger
  ultimately show ?case by (simp add: Let_def)
qed (simp_all add: Let_def)

lemma good_alphabetD:
  assumes "good_alphabet alpha" and "i < 64"
  shows "b64_val alpha (alpha ! i) = Some i" and "alpha ! i \<noteq> CHR ''=''"
    and "alpha ! i \<noteq> CHR 0x0A" and "alpha ! i \<noteq> CHR 0x0D"
  using assms by (auto simp: good_alphabet_def list_all_iff)

lemma sextet_bounds:
  fixes x y :: char
  shows "(of_char x :: nat) div 4 < 64" "(of_char x :: nat) mod 4 * 16 < 64"
    "(of_char x :: nat) mod 4 * 16 + (of_char y :: nat) div 16 < 64"
    "(of_char x :: nat) mod 16 * 4 < 64"
    "(of_char x :: nat) mod 16 * 4 + (of_char y :: nat) div 64 < 64"
    "(of_char x :: nat) mod 64 < 64"
proof -
  have b: "(of_char c :: nat) < 256" for c :: char by simp
  show "(of_char x :: nat) div 4 < 64" using b [of x] by linarith
  show "(of_char x :: nat) mod 4 * 16 < 64" by linarith
  show "(of_char x :: nat) mod 4 * 16 + (of_char y :: nat) div 16 < 64" using b [of y] by linarith
  show "(of_char x :: nat) mod 16 * 4 < 64" by linarith
  show "(of_char x :: nat) mod 16 * 4 + (of_char y :: nat) div 64 < 64" using b [of y] by linarith
  show "(of_char x :: nat) mod 64 < 64" by simp
qed

lemma sextets_arith:
  fixes a b c :: nat
  assumes "a < 256" "b < 256" "c < 256"
  shows "(a div 4 * 4 + (a mod 4 * 16 + b div 16) div 16) mod 256 = a"
    and "((a mod 4 * 16 + b div 16) * 16 + (b mod 16 * 4 + c div 64) div 4) mod 256 = b"
    and "((b mod 16 * 4 + c div 64) * 64 + c mod 64) mod 256 = c"
    and "(a div 4 * 4 + a mod 4 * 16 div 16) mod 256 = a"
    and "((a mod 4 * 16 + b div 16) * 16 + b mod 16 * 4 div 4) mod 256 = b"
proof -
  have d: "b div 16 < 16" "c div 64 < 4" using assms by linarith+
  then show "(a div 4 * 4 + (a mod 4 * 16 + b div 16) div 16) mod 256 = a"
    using assms by simp
  have "((a mod 4 * 16 + b div 16) * 16 + (b mod 16 * 4 + c div 64) div 4) = a mod 4 * 256 + b"
    using d by (simp add: algebra_simps)
  then show "((a mod 4 * 16 + b div 16) * 16 + (b mod 16 * 4 + c div 64) div 4) mod 256 = b"
    using assms by simp
  have "((b mod 16 * 4 + c div 64) * 64 + c mod 64) = b mod 16 * 256 + c"
    by (simp add: algebra_simps)
  then show "((b mod 16 * 4 + c div 64) * 64 + c mod 64) mod 256 = c"
    using assms by simp
  show "(a div 4 * 4 + a mod 4 * 16 div 16) mod 256 = a" using assms by simp
  have "((a mod 4 * 16 + b div 16) * 16 + b mod 16 * 4 div 4) = a mod 4 * 256 + b"
    by (simp add: algebra_simps)
  then show "((a mod 4 * 16 + b div 16) * 16 + b mod 16 * 4 div 4) mod 256 = b"
    using assms by simp
qed

lemma bytes_of_sextets:
  "byte1 (of_char x div 4) (of_char x mod 4 * 16) = x"
  "byte1 (of_char x div 4) (of_char x mod 4 * 16 + of_char y div 16) = x"
  "byte2 (of_char x mod 4 * 16 + of_char y div 16) (of_char y mod 16 * 4) = y"
  "byte2 (of_char x mod 4 * 16 + of_char y div 16) (of_char y mod 16 * 4 + of_char z div 64) = y"
  "byte3 (of_char y mod 16 * 4 + of_char z div 64) (of_char z mod 64) = z"
proof -
  have b: "(of_char c :: nat) < 256" for c :: char by simp
  show "byte1 (of_char x div 4) (of_char x mod 4 * 16) = x"
    "byte1 (of_char x div 4) (of_char x mod 4 * 16 + of_char y div 16) = x"
    "byte2 (of_char x mod 4 * 16 + of_char y div 16) (of_char y mod 16 * 4) = y"
    "byte2 (of_char x mod 4 * 16 + of_char y div 16) (of_char y mod 16 * 4 + of_char z div 64) = y"
    "byte3 (of_char y mod 16 * 4 + of_char z div 64) (of_char z mod 64) = z"
    by (simp_all only: byte1_def byte2_def byte3_def sextets_arith [OF b b b] char_of_char)
qed

lemma b64_quads_encode:
  assumes "good_alphabet alpha"
  shows "b64_quads alpha pad (b64_encode alpha pad bs) = Some bs"
  using assms
  by (induction alpha pad bs rule: b64_encode.induct)
    (simp_all add: Let_def good_alphabetD sextet_bounds bytes_of_sextets)

lemma b64_encode_chars:
  assumes "good_alphabet alpha"
  shows "c \<in> set (b64_encode alpha pad bs) \<Longrightarrow>
    (\<exists>i < 64. c = alpha ! i) \<or> (pad \<and> c = CHR ''='')"
  using assms
  by (induction alpha pad bs rule: b64_encode.induct)
    (auto simp: Let_def intro: sextet_bounds split: if_splits)

lemma b64_decode_encode:
  assumes "good_alphabet alpha"
  shows "b64_decode alpha pad (b64_encode alpha pad bs) = Some bs"
proof -
  have "filter (\<lambda>c. c \<noteq> CHR 0x0A \<and> c \<noteq> CHR 0x0D) (b64_encode alpha pad bs) = b64_encode alpha pad bs"
  proof (intro filter_True ballI)
    fix c assume "c \<in> set (b64_encode alpha pad bs)"
    from b64_encode_chars [OF assms this] show "c \<noteq> CHR 0x0A \<and> c \<noteq> CHR 0x0D"
      using good_alphabetD [OF assms] by auto
  qed
  then show ?thesis by (simp add: b64_decode_def b64_quads_encode assms)
qed

interpretation std64: byte_codec std_encode std_decode
  by unfold_locales (simp add: std_encode_def std_decode_def b64_decode_encode good_alphabets)

interpretation rawurl64: byte_codec rawurl_encode rawurl_decode
  by unfold_locales (simp add: rawurl_encode_def rawurl_decode_def b64_decode_encode good_alphabets)


end
