(* ===== verification/SealedBox.thy ===== *)
theory SealedBox imports Encoding begin

text \<open>
  The two authenticated envelopes of the gateway: \<open>internal/secretbox\<close> (source passwords and
  tokens at rest, and re-encrypted for relay nodes) and \<open>internal/blobcodec\<close> (the source URL
  inside a \<open>/r/<blob>\<close> link). AES-256-GCM itself is the standard library's; it is the parameter
  \<open>aead\<close>, and what the code relies on is stated as the predicates \<open>aead_ok\<close> and \<open>aead_binding\<close>.
  Random bytes are arguments: \<open>None\<close> is a failed \<open>rand.Read\<close>.

  The locale \<open>sealed_box\<close> is the contract both envelopes give their callers.
\<close>

section \<open>The cipher\<close>

record aead =
  aead_seal :: "bytes \<Rightarrow> bytes \<Rightarrow> bytes \<Rightarrow> bytes \<Rightarrow> bytes"
    \<comment> \<open>key, nonce, plaintext, associated data\<close>
  aead_open :: "bytes \<Rightarrow> bytes \<Rightarrow> bytes \<Rightarrow> bytes \<Rightarrow> bytes option"
    \<comment> \<open>key, nonce, ciphertext with tag, associated data\<close>

abbreviation nonce_size :: nat where
  "nonce_size \<equiv> 12"

definition key_size :: nat where
  "key_size = 32"

text \<open>Opening what was sealed with the same key, nonce and associated data gives the plaintext.\<close>

definition aead_ok :: "aead \<Rightarrow> bool" where
  "aead_ok A \<longleftrightarrow> (\<forall>k n p a. length k = key_size \<and> length n = nonce_size \<longrightarrow>
     aead_open A k n (aead_seal A k n p a) a = Some p)"

text \<open>
  Authenticity: only what was sealed under these associated data opens under them, and a
  ciphertext sealed under other associated data is a different ciphertext.
\<close>

definition aead_binding :: "aead \<Rightarrow> bool" where
  "aead_binding A \<longleftrightarrow>
     (\<forall>k n c a p. aead_open A k n c a = Some p \<longrightarrow> c = aead_seal A k n p a) \<and>
     (\<forall>k n p a p' a'. aead_seal A k n p a = aead_seal A k n p' a' \<longrightarrow> a = a')"

lemma aead_okD:
  "aead_ok A \<Longrightarrow> length k = key_size \<Longrightarrow> length n = nonce_size \<Longrightarrow>
   aead_open A k n (aead_seal A k n p a) a = Some p"
  by (simp add: aead_ok_def)

lemma aead_binding_other:
  "aead_binding A \<Longrightarrow> a \<noteq> a' \<Longrightarrow> aead_open A k n (aead_seal A k n p a) a' = None"
  unfolding aead_binding_def by (metis not_None_eq)

datatype box_error =
    BadKeySize
  | RandFailed
  | BadBase64
  | TooShort
  | AuthFailed
  | KeyFileUnreadable
  | KeyFileMalformed

section \<open>The contract of a sealed envelope\<close>

locale sealed_box =
  fixes seal :: "'k \<Rightarrow> bytes \<Rightarrow> bytes \<Rightarrow> 'c \<Rightarrow> (box_error, string) result"
    and unseal :: "'k \<Rightarrow> string \<Rightarrow> 'c \<Rightarrow> (box_error, bytes) result"
    and ready :: "'k \<Rightarrow> bytes \<Rightarrow> bool"
  assumes seal_total: "ready k n \<Longrightarrow> \<exists>s. seal k n p c = Inr s"
    and unseal_seal: "ready k n \<Longrightarrow> seal k n p c = Inr s \<Longrightarrow> unseal k s c = Inr p"
begin

lemma sealed_plaintext_unique:
  "ready k n \<Longrightarrow> ready k m \<Longrightarrow> seal k n p c = Inr s \<Longrightarrow> seal k m q c = Inr s \<Longrightarrow> p = q"
  by (metis unseal_seal Inr_inject)

text \<open>Moving a secret to another key, as the control plane does for a relay node.\<close>

lemma reseal:
  assumes "unseal k s c = Inr p" and "ready k' n"
  shows "\<exists>s'. seal k' n p c = Inr s' \<and> unseal k' s' c = unseal k s c"
  using assms seal_total unseal_seal by metis

end

section \<open>secretbox\<close>

definition load_key :: "bytes option \<Rightarrow> (box_error, bytes) result" where
  "load_key file =
     (case file of
        None \<Rightarrow> Inl KeyFileUnreadable
      | Some raw \<Rightarrow>
          (let trimmed = trim_space raw
           in if length raw = key_size then Inr raw
              else (case std_decode trimmed of
                      None \<Rightarrow> Inl KeyFileMalformed
                    | Some decoded \<Rightarrow>
                        (if length decoded \<noteq> key_size then Inl KeyFileMalformed else Inr decoded))))"

definition generate_key :: "bytes option \<Rightarrow> (box_error, string) result" where
  "generate_key rnd =
     (case rnd of None \<Rightarrow> Inl RandFailed | Some key \<Rightarrow> Inr (std_encode key))"

definition sb_encrypt :: "aead \<Rightarrow> bytes option \<Rightarrow> bytes \<Rightarrow> bytes \<Rightarrow> (box_error, string) result" where
  "sb_encrypt A rnd key plaintext =
     (if length key \<noteq> key_size then Inl BadKeySize
      else (case rnd of
              None \<Rightarrow> Inl RandFailed
            | Some nonce \<Rightarrow> Inr (std_encode (nonce @ aead_seal A key nonce plaintext []))))"

definition sb_decrypt :: "aead \<Rightarrow> bytes \<Rightarrow> string \<Rightarrow> (box_error, bytes) result" where
  "sb_decrypt A key encoded =
     (if length key \<noteq> key_size then Inl BadKeySize
      else (case std_decode encoded of
              None \<Rightarrow> Inl BadBase64
            | Some raw \<Rightarrow>
                (if length raw < nonce_size then Inl TooShort
                 else (case aead_open A key (take nonce_size raw) (drop nonce_size raw) [] of
                         None \<Rightarrow> Inl AuthFailed
                       | Some plain \<Rightarrow> Inr plain))))"

definition sb_ready :: "aead \<times> bytes \<Rightarrow> bytes \<Rightarrow> bool" where
  "sb_ready k n \<longleftrightarrow> aead_ok (fst k) \<and> length (snd k) = key_size \<and> length n = nonce_size"

interpretation secretbox: sealed_box
  "\<lambda>k n p (c :: unit). sb_encrypt (fst k) (Some n) (snd k) p"
  "\<lambda>k s (c :: unit). sb_decrypt (fst k) (snd k) s"
  sb_ready
  by unfold_locales
    (auto simp: sb_ready_def sb_encrypt_def sb_decrypt_def std64.dec_enc aead_okD)

section \<open>blobcodec\<close>

record codec =
  codec_aead :: aead
  codec_key :: bytes

definition bc_new :: "aead \<Rightarrow> bytes option \<Rightarrow> (box_error, codec) result" where
  "bc_new A rnd =
     (case rnd of
        None \<Rightarrow> Inl RandFailed
      | Some key \<Rightarrow> Inr \<lparr>codec_aead = A, codec_key = key\<rparr>)"

definition bc_encode :: "codec \<Rightarrow> bytes option \<Rightarrow> string \<Rightarrow> string \<Rightarrow> (box_error, string) result" where
  "bc_encode c rnd plaintext access_point =
     (case rnd of
        None \<Rightarrow> Inl RandFailed
      | Some nonce \<Rightarrow>
          Inr (rawurl_encode
            (nonce @ aead_seal (codec_aead c) (codec_key c) nonce plaintext access_point)))"

definition bc_decode :: "codec \<Rightarrow> string \<Rightarrow> string \<Rightarrow> (box_error, string) result" where
  "bc_decode c blob access_point =
     (case rawurl_decode blob of
        None \<Rightarrow> Inl BadBase64
      | Some raw \<Rightarrow>
          (if length raw < nonce_size then Inl TooShort
           else (case aead_open (codec_aead c) (codec_key c)
                        (take nonce_size raw) (drop nonce_size raw) access_point of
                   None \<Rightarrow> Inl AuthFailed
                 | Some plain \<Rightarrow> Inr plain)))"

definition bc_ready :: "codec \<Rightarrow> bytes \<Rightarrow> bool" where
  "bc_ready c n \<longleftrightarrow>
     aead_ok (codec_aead c) \<and> length (codec_key c) = key_size \<and> length n = nonce_size"

interpretation blobcodec: sealed_box "\<lambda>c n p a. bc_encode c (Some n) p a" bc_decode bc_ready
  by unfold_locales
    (auto simp: bc_ready_def bc_encode_def bc_decode_def rawurl64.dec_enc aead_okD)

text \<open>A blob is made of the URL-safe alphabet, so it holds no dot and no slash.\<close>

lemma bc_encode_chars:
  assumes "bc_encode c rnd p a = Inr blob"
  shows "set blob \<subseteq> set url_alphabet"
proof
  fix x assume "x \<in> set blob"
  with assms obtain bs where "x \<in> set (rawurl_encode bs)"
    by (auto simp: bc_encode_def split: option.splits)
  with b64_encode_chars [OF good_alphabets(2)] obtain i where "i < 64" "x = url_alphabet ! i"
    unfolding rawurl_encode_def by blast
  then show "x \<in> set url_alphabet" by simp
qed

lemma url_alphabet_safe:
  "CHR ''.'' \<notin> set url_alphabet" "CHR ''/'' \<notin> set url_alphabet" "CHR 0x22 \<notin> set url_alphabet"
  "CHR 0x0A \<notin> set url_alphabet" "CHR 0x0D \<notin> set url_alphabet"
  by (simp_all add: url_alphabet_def)

lemma bc_encode_safe:
  assumes "bc_encode c rnd p a = Inr blob" and "x \<in> set blob"
  shows "x \<notin> {CHR ''.'', CHR ''/'', CHR 0x22, CHR 0x0A, CHR 0x0D}"
  using bc_encode_chars [OF assms(1)] assms(2) url_alphabet_safe by blast

section \<open>Properties\<close>

text \<open>A cipher that keeps its inputs in the clear, to evaluate the envelopes on examples.\<close>

definition clear_aead :: aead where
  "clear_aead =
     \<lparr>aead_seal = (\<lambda>k n p a. dec_digits (length a) @ CHR '':'' # a @ p),
      aead_open = (\<lambda>k n c a.
        if has_prefix c (dec_digits (length a) @ CHR '':'' # a)
        then Some (drop (length (dec_digits (length a) @ CHR '':'' # a)) c) else None)\<rparr>"

lemma clear_aead_ok: "aead_ok clear_aead"
proof -
  have "has_prefix (dec_digits (length a) @ CHR '':'' # a @ p) (dec_digits (length a) @ CHR '':'' # a)"
    for a p using has_prefix_append [of "dec_digits (length a) @ CHR '':'' # a" p] by simp
  then show ?thesis by (simp add: aead_ok_def clear_aead_def)
qed

lemma colon_not_digit: "CHR '':'' \<notin> set (dec_digits n)"
  using dec_digits_all [of "CHR '':''" n] by (auto simp: is_digit_def)

lemma clear_aead_binding: "aead_binding clear_aead"
proof -
  have "c = dec_digits (length a) @ CHR '':'' # a @ p"
    if "aead_open clear_aead k n c a = Some p" for k n c a p
    using that by (auto simp: clear_aead_def has_prefix_iff split: if_splits)
  moreover have "a = a'"
    if "dec_digits (length a) @ CHR '':'' # a @ p = dec_digits (length a') @ CHR '':'' # a' @ p'"
    for a a' p p' :: string
  proof -
    from that have "length a = length a'" "a @ p = a' @ p'"
      by (auto simp: separator_inj [OF colon_not_digit colon_not_digit] dec_digits_inj)
    then show ?thesis by simp
  qed
  moreover have "aead_seal clear_aead k n p a = dec_digits (length a) @ CHR '':'' # a @ p" for k n p a
    by (simp add: clear_aead_def)
  ultimately show ?thesis unfolding aead_binding_def by metis
qed

text \<open>C1: a source password encrypted by \<open>secretbox.Encrypt\<close> is what \<open>secretbox.Decrypt\<close> returns
  under the same key, for every 32-byte key and every nonce.\<close>

theorem secretbox_roundtrip:
  assumes "aead_ok A" and "length key = key_size" and "length nonce = nonce_size"
    and "sb_encrypt A (Some nonce) key plaintext = Inr encoded"
  shows "sb_decrypt A key encoded = Inr plaintext"
  using secretbox.unseal_seal [of "(A, key)" nonce plaintext encoded] assms
  by (simp add: sb_ready_def)

theorem secretbox_roundtrip_witness:
  "\<exists>encoded. sb_encrypt clear_aead (Some (replicate 12 CHR ''n'')) (replicate 32 CHR ''k'') ''secret'' = Inr encoded
     \<and> sb_decrypt clear_aead (replicate 32 CHR ''k'') encoded = Inr ''secret''"
proof -
  let ?k = "replicate 32 CHR ''k''" and ?n = "replicate 12 CHR ''n''"
  obtain e where e: "sb_encrypt clear_aead (Some ?n) ?k ''secret'' = Inr e"
    by (simp add: sb_encrypt_def key_size_def)
  have "length ?k = key_size" "length ?n = nonce_size" by (simp_all add: key_size_def)
  from secretbox_roundtrip [OF clear_aead_ok this e] e show ?thesis by blast
qed

text \<open>C2: the key file that \<open>GenerateKey\<close> fills is loaded back to the same 32 bytes by \<open>LoadKey\<close>,
  with or without the newline an editor leaves at its end.\<close>

theorem load_generated_key:
  assumes "length key = key_size" and "generate_key (Some key) = Inr contents"
  shows "load_key (Some contents) = Inr key \<and> load_key (Some (contents @ [CHR 0x0A])) = Inr key"
proof -
  have contents: "contents = std_encode key" using assms(2) by (simp add: generate_key_def)
  have len: "length contents = 44"
    using contents assms(1) by (simp add: std_encode_def key_size_def length_b64_encode_pad)
  have "plain_char x" if "x \<in> set contents" for x
  proof -
    from that contents b64_encode_chars [OF good_alphabets(1)]
    obtain i where "(i < 64 \<and> x = std_alphabet ! i) \<or> x = CHR ''=''"
      unfolding std_encode_def by blast
    moreover have "list_all plain_char std_alphabet" by code_simp
    moreover have "plain_char CHR ''=''" by code_simp
    ultimately show ?thesis by (auto simp: list_all_iff)
  qed
  then have "trim_space contents = contents" "trim_space (contents @ [CHR 0x0A]) = contents"
    using len by (auto intro!: trim_space_plain simp: ascii_space_def)
  then show ?thesis
    using len assms(1) by (simp add: load_key_def key_size_def contents std64.dec_enc)
qed

theorem load_generated_key_witness:
  "\<exists>contents. generate_key (Some (replicate 32 CHR ''k'')) = Inr contents \<and>
     load_key (Some (contents @ [CHR 0x0A])) = Inr (replicate 32 CHR ''k'')"
proof -
  obtain t where t: "generate_key (Some (replicate 32 CHR ''k'')) = Inr t"
    by (simp add: generate_key_def)
  have "length (replicate 32 CHR ''k'') = key_size" by (simp add: key_size_def)
  from load_generated_key [OF this t] t show ?thesis by blast
qed

text \<open>C26: a resource link decodes to the URL it was minted for under its own access point, and
  under every other access point it is refused, however the two streams are related.\<close>

theorem blob_bound_to_access_point:
  assumes "aead_ok (codec_aead c)" and "aead_binding (codec_aead c)"
    and "length (codec_key c) = key_size" and "length nonce = nonce_size"
    and "bc_encode c (Some nonce) url ap = Inr blob"
  shows "bc_decode c blob ap' = (if ap' = ap then Inr url else Inl AuthFailed)"
proof (cases "ap' = ap")
  case True
  then show ?thesis
    using blobcodec.unseal_seal [of c nonce url ap blob] assms by (simp add: bc_ready_def)
next
  case False
  then show ?thesis
    using assms by (auto simp: bc_encode_def bc_decode_def rawurl64.dec_enc aead_binding_other)
qed

theorem blob_bound_to_access_point_witness:
  "\<exists>blob. bc_encode \<lparr>codec_aead = clear_aead, codec_key = replicate 32 CHR ''k''\<rparr>
       (Some (replicate 12 CHR ''n'')) ''http://cdn/seg1.ts'' ''7'' = Inr blob \<and>
     bc_decode \<lparr>codec_aead = clear_aead, codec_key = replicate 32 CHR ''k''\<rparr> blob ''7''
       = Inr ''http://cdn/seg1.ts'' \<and>
     bc_decode \<lparr>codec_aead = clear_aead, codec_key = replicate 32 CHR ''k''\<rparr> blob ''8''
       = Inl AuthFailed"
proof -
  let ?c = "\<lparr>codec_aead = clear_aead, codec_key = replicate 32 CHR ''k''\<rparr>"
  let ?n = "replicate 12 CHR ''n''"
  obtain b where b: "bc_encode ?c (Some ?n) ''http://cdn/seg1.ts'' ''7'' = Inr b"
    by (simp add: bc_encode_def)
  have h: "aead_ok (codec_aead ?c)" "aead_binding (codec_aead ?c)"
    "length (codec_key ?c) = key_size" "length ?n = nonce_size"
    by (simp_all add: clear_aead_ok clear_aead_binding key_size_def)
  from blob_bound_to_access_point [OF h b, of "''7''"] blob_bound_to_access_point [OF h b, of "''8''"] b
  show ?thesis by auto
qed

end
