(* ===== verification/NodeProto.thy ===== *)
theory NodeProto imports Complex_Main Encoding begin

text \<open>
  \<open>internal/nodeproto\<close>: the contract between the control plane and its relay nodes. The token
  format, the keys derived from a node's secret, the signature of a viewer URL, and the JSON
  documents of \<open>/_sv/node/*\<close> as records. SHA-256 and HMAC-SHA-256 are the parameter \<open>hashes\<close>.
\<close>

section \<open>Hash functions\<close>

record hashes =
  sha256 :: "bytes \<Rightarrow> bytes"
  hmac256 :: "bytes \<Rightarrow> bytes \<Rightarrow> bytes"  \<comment> \<open>key, message\<close>

definition hashes_ok :: "hashes \<Rightarrow> bool" where
  "hashes_ok H \<longleftrightarrow> (\<forall>m. length (sha256 H m) = 32)"

section \<open>Node tokens\<close>

definition token_prefix :: string where
  "token_prefix = ''svn_''"

definition hex64 :: "string \<Rightarrow> bool" where
  "hex64 s \<longleftrightarrow> length s = 64 \<and> list_all is_hex_char s"

text \<open>
  The anchored pattern \<open>svn_([1-9][0-9]{0,17})_([0-9a-f]{64})\<close>. An underscore is neither a digit
  nor a hexadecimal digit, so the greedy run of digits is the only way to match.
\<close>

definition parse_token :: "string \<Rightarrow> (int \<times> string) option" where
  "parse_token token =
     (if \<not> has_prefix token token_prefix then None
      else
        (let rest = drop (length token_prefix) token;
             digits = takeWhile is_digit rest;
             after = dropWhile is_digit rest
         in if digits = [] \<or> hd digits = CHR ''0'' \<or> length digits > 18 then None
            else (case after of
                    [] \<Rightarrow> None
                  | c # secret \<Rightarrow>
                      (if c = CHR ''_'' \<and> hex64 secret
                       then (case parse_int64 digits of
                               (nid, ParseOk) \<Rightarrow> Some (nid, secret)
                             | _ \<Rightarrow> None)
                       else None))))"

definition format_token :: "int \<Rightarrow> string \<Rightarrow> string" where
  "format_token nid secret = token_prefix @ format_int nid @ CHR ''_'' # secret"

definition secret_hash :: "hashes \<Rightarrow> string \<Rightarrow> string" where
  "secret_hash H secret = hex_encode (sha256 H secret)"

definition hash_matches :: "hashes \<Rightarrow> string \<Rightarrow> string \<Rightarrow> bool" where
  "hash_matches H secret stored = (secret_hash H secret = stored)"

definition derive :: "hashes \<Rightarrow> string \<Rightarrow> string \<Rightarrow> bytes" where
  "derive H purpose secret = sha256 H (''streamvault-node/'' @ purpose @ CHR 0x00 # secret)"

definition config_key :: "hashes \<Rightarrow> string \<Rightarrow> bytes" where
  "config_key H secret = derive H ''config'' secret"

section \<open>The hash of the executable\<close>

text \<open>\<open>ExecutableSHA256\<close> with its \<open>sync.Once\<close>: the first call decides. \<open>file\<close> is what reading the executable gives at
  the time of the call, \<open>None\<close> if finding, opening or reading it fails.\<close>

record exe_hash =
  eh_done :: bool
  eh_hash :: string
  eh_failed :: bool

definition no_exe_hash :: exe_hash where
  "no_exe_hash = \<lparr>eh_done = False, eh_hash = [], eh_failed = False\<rparr>"

definition executable_sha256 :: "hashes \<Rightarrow> bytes option \<Rightarrow> exe_hash \<Rightarrow> (string \<times> bool) \<times> exe_hash" where
  "executable_sha256 H file s =
     (let s' = (if eh_done s then s
                else (case file of
                        None \<Rightarrow> s\<lparr>eh_done := True, eh_failed := True\<rparr>
                      | Some b \<Rightarrow> s\<lparr>eh_done := True, eh_hash := hex_encode (sha256 H b)\<rparr>))
      in ((eh_hash s', eh_failed s'), s'))"

lemma executable_hashed_once:
  "executable_sha256 H later (snd (executable_sha256 H file s)) =
     (fst (executable_sha256 H file s), snd (executable_sha256 H file s))"
  by (simp add: executable_sha256_def Let_def split: option.split)

section \<open>Viewer grants\<close>

definition sign_message :: "int \<Rightarrow> int \<Rightarrow> int \<Rightarrow> int \<Rightarrow> bytes" where
  "sign_message stream_id access_point_id token_id expiry =
     ''v1'' @ CHR ''|'' # format_int stream_id @ CHR ''|'' # format_int access_point_id @
     CHR ''|'' # format_int token_id @ CHR ''|'' # format_int expiry"

definition sign :: "hashes \<Rightarrow> string \<Rightarrow> int \<Rightarrow> int \<Rightarrow> int \<Rightarrow> int \<Rightarrow> string" where
  "sign H secret stream_id access_point_id token_id expiry =
     hex_encode (hmac256 H (derive H ''sign'' secret)
       (sign_message stream_id access_point_id token_id expiry))"

definition verify :: "hashes \<Rightarrow> string \<Rightarrow> int \<Rightarrow> int \<Rightarrow> int \<Rightarrow> int \<Rightarrow> string \<Rightarrow> bool" where
  "verify H secret stream_id access_point_id token_id expiry sig =
     (let want = sign H secret stream_id access_point_id token_id expiry in want = sig)"

definition viewer_header :: string where
  "viewer_header = ''X-SV-Viewer''"

definition viewer_id :: "hashes \<Rightarrow> string \<Rightarrow> string" where
  "viewer_id H ip = hex_encode (take 8 (sha256 H (''streamvault-viewer'' @ CHR 0x00 # ip)))"

section \<open>Documents\<close>

record stream_config =
  sc_id :: int
  sc_source_type :: string
  sc_source_url :: string
  sc_source_username :: string
  sc_source_password_enc :: string
  sc_trust_private_source :: bool

record node_config =
  nc_node_id :: int
  nc_server_time :: int
  nc_poll_seconds :: int
  nc_streams :: "stream_config list"
  nc_revoked_access_points :: "int list"
  nc_revoked_tokens :: "int list"

record stream_status =
  ss_id :: int
  ss_state :: string
  ss_detail :: string
  ss_viewers :: int

record node_status =
  ns_version :: string
  ns_binary_sha256 :: string
  ns_uptime_seconds :: int
  ns_load1 :: real
  ns_cpus :: int
  ns_mem_total_kb :: int
  ns_mem_available_kb :: int
  ns_net_rx_bytes :: int
  ns_net_tx_bytes :: int
  ns_streams :: "stream_status list"

section \<open>Lemmas\<close>

lemma length_secret_hash: "hashes_ok H \<Longrightarrow> length (secret_hash H secret) = 64"
  by (simp add: secret_hash_def hashes_ok_def)

lemma length_config_key: "hashes_ok H \<Longrightarrow> length (config_key H secret) = 32"
  by (simp add: config_key_def derive_def hashes_ok_def)

lemma length_viewer_id: "hashes_ok H \<Longrightarrow> length (viewer_id H ip) = 16"
  by (simp add: viewer_id_def hashes_ok_def)

lemma viewer_id_hex: "list_all is_hex_char (viewer_id H ip)"
  by (auto simp: viewer_id_def list_all_iff dest: hex_encode_chars)

lemma verify_sign: "verify H secret s a t e (sign H secret s a t e)"
  by (simp add: verify_def)

lemma hex_char_inj:
  assumes "m < 16" and "n < 16" and "hex_char m = hex_char n"
  shows "m = n"
proof -
  have "(of_char (hex_char k) :: nat) = (if k < 10 then 48 + k else 87 + k)" if "k < 16" for k
    using that by (auto simp: hex_char_def)
  from this [OF assms(1)] this [OF assms(2)] assms(3)
  have "(if m < 10 then 48 + m else 87 + m) = (if n < 10 then 48 + n else 87 + n)" by simp
  then show ?thesis by (auto split: if_splits)
qed

lemma hex_encode_inj: "hex_encode s = hex_encode t \<longleftrightarrow> s = t"
proof
  show "hex_encode s = hex_encode t \<Longrightarrow> s = t"
  proof (induction s arbitrary: t)
    case Nil
    then show ?case by (cases t) (auto simp: hex_encode_def)
  next
    case (Cons x s)
    then obtain y u where t: "t = y # u" by (cases t) (auto simp: hex_encode_def)
    with Cons.prems have
      d: "hex_char (of_char x div 16) = hex_char (of_char y div 16)" and
      m: "hex_char (of_char x mod 16) = hex_char (of_char y mod 16)" and
      r: "hex_encode s = hex_encode u"
      by (auto simp: hex_encode_def)
    have "(of_char x :: nat) div 16 = of_char y div 16" "(of_char x :: nat) mod 16 = of_char y mod 16"
      using hex_char_inj [OF of_char_div16 of_char_div16 d] hex_char_inj [OF _ _ m] by auto
    then have "(of_char x :: nat) = of_char y" by (metis mult_div_mod_eq)
    then have "x = y" by simp
    with Cons.IH [OF r] t show ?case by simp
  qed
qed simp

lemma bar_not_in_format_int: "CHR ''|'' \<notin> set (format_int i)"
  using format_int_chars [of "CHR ''|''" i] by (auto simp: is_digit_def)

lemma sign_message_inj:
  "sign_message s a t e = sign_message s' a' t' e' \<longleftrightarrow> s = s' \<and> a = a' \<and> t = t' \<and> e = e'"
  by (auto simp: sign_message_def separator_inj bar_not_in_format_int format_int_inj)

lemma digit_char_0: "digit_char 0 = CHR ''0''"
  by code_simp

lemma scan_uint64_bound:
  assumes "list_all is_digit ds" and "(n + 1) * 10 ^ length ds \<le> 2 ^ 64"
  shows "\<exists>m. scan_uint64 n ds = (m, ParseOk) \<and> n * 10 ^ length ds \<le> m \<and> m < (n + 1) * 10 ^ length ds"
  using assms
proof (induction ds arbitrary: n)
  case Nil
  then show ?case by simp
next
  case (Cons d ds)
  let ?n = "10 * n + digit_val d"
  have d: "is_digit d" "digit_val d < 10" using Cons.prems by (auto intro: digit_val_less)
  have up: "(?n + 1) * 10 ^ length ds \<le> (n + 1) * 10 ^ length (d # ds)"
  proof -
    have "(n + 1) * 10 ^ length (d # ds) = (10 * n + 10) * 10 ^ length ds"
      by (simp add: algebra_simps)
    moreover have "?n + 1 \<le> 10 * n + 10" using d by simp
    ultimately show ?thesis by (metis mult_le_mono1)
  qed
  with Cons.prems have le: "(?n + 1) * 10 ^ length ds \<le> 2 ^ 64" by linarith
  have "?n + 1 \<le> (?n + 1) * 10 ^ length ds" using mult_le_mono2 [of 1 "10 ^ length ds" "?n + 1"] by simp
  with le have lt: "\<not> ?n \<ge> 2 ^ 64" by linarith
  from Cons.IH [OF _ le] Cons.prems obtain m where m: "scan_uint64 ?n ds = (m, ParseOk)"
    "?n * 10 ^ length ds \<le> m" "m < (?n + 1) * 10 ^ length ds" by auto
  have lo: "n * 10 ^ length (d # ds) \<le> ?n * 10 ^ length ds" by (simp add: algebra_simps)
  have "scan_uint64 n (d # ds) = (m, ParseOk)" using m(1) lt d by simp
  with le_trans [OF lo m(2)] less_le_trans [OF m(3) up] show ?case by blast
qed

lemma dec_digits_of_scan:
  assumes "list_all is_digit ds" and "ds \<noteq> []" and "hd ds \<noteq> CHR ''0''"
    and "scan_uint64 0 ds = (m, ParseOk)"
  shows "dec_digits m = ds \<and> 0 < m"
  using assms
proof (induction ds arbitrary: m rule: rev_induct)
  case Nil
  then show ?case by simp
next
  case (snoc d ds)
  have d: "is_digit d" "digit_val d < 10" using snoc.prems by (auto intro: digit_val_less)
  have zero: "c = CHR ''0''" if "is_digit c" "digit_val c = 0" for c
    using digit_char_val [OF that(1)] that(2) digit_char_0 by simp
  show ?case
  proof (cases "ds = []")
    case True
    with snoc.prems d have m: "m = digit_val d" by (auto split: if_splits)
    with snoc.prems d True zero have "0 < m" by (cases m) auto
    with m d True show ?thesis by (simp add: dec_digits.simps [of "digit_val d"] digit_char_val)
  next
    case False
    from snoc.prems(4) d obtain k where k: "scan_uint64 0 ds = (k, ParseOk)" "m = 10 * k + digit_val d"
      by (auto simp: scan_uint64_snoc split: prod.splits parse_status.splits if_splits)
    with snoc False have "dec_digits k = ds \<and> 0 < k" by auto
    with k d show ?thesis
      by (simp add: dec_digits.simps [of "10 * k + digit_val d"] digit_char_val)
  qed
qed

section \<open>Properties\<close>

text \<open>C4: \<open>ParseToken\<close> accepts exactly the strings \<open>svn_<id>_<secret>\<close> with an id from 1 to
  10^18 - 1 in plain decimal and a secret of 64 lower-case hexadecimal digits, and returns the id
  and the secret written there; so the \<open>strconv\<close> error branch after the match is never taken.\<close>

theorem parse_token_exact:
  "parse_token token = Some (nid, secret) \<longleftrightarrow>
     token = format_token nid secret \<and> 1 \<le> nid \<and> nid < 10 ^ 18 \<and> hex64 secret"
proof
  assume "parse_token token = Some (nid, secret)"
  then obtain rest where rest: "token = token_prefix @ rest"
    and ds: "takeWhile is_digit rest \<noteq> []" "hd (takeWhile is_digit rest) \<noteq> CHR ''0''"
      "length (takeWhile is_digit rest) \<le> 18"
    and after: "dropWhile is_digit rest = CHR ''_'' # secret" "hex64 secret"
    and val: "parse_int64 (takeWhile is_digit rest) = (nid, ParseOk)"
    by (auto simp: parse_token_def has_prefix_iff Let_def
        split: if_splits list.splits prod.splits parse_status.splits)
  let ?ds = "takeWhile is_digit rest"
  have all: "list_all is_digit ?ds" by (auto simp: list_all_iff dest: set_takeWhileD)
  have "(10::nat) ^ length ?ds \<le> 10 ^ 18" by (intro power_increasing ds(3)) simp
  then have "(0 + 1) * (10::nat) ^ length ?ds \<le> 2 ^ 64" by simp
  from scan_uint64_bound [OF all this] obtain m where
    m: "scan_uint64 0 ?ds = (m, ParseOk)" "m < 10 ^ length ?ds" by auto
  with \<open>10 ^ length ?ds \<le> 10 ^ 18\<close> have m18: "m < 10 ^ 18" by linarith
  have hd: "hd ?ds \<notin> {CHR ''-'', CHR ''+''}"
    using all ds(1) by (cases ?ds) (auto simp: is_digit_def)
  have "nid = int m"
    using val m(1) m18 hd ds(1) by (auto simp: parse_int64_def parse_uint64_def split: if_splits)
  moreover have "dec_digits m = ?ds" "0 < m"
    using dec_digits_of_scan [OF all ds(1,2) m(1)] by auto
  ultimately show "token = format_token nid secret \<and> 1 \<le> nid \<and> nid < 10 ^ 18 \<and> hex64 secret"
    using rest after m18 takeWhile_dropWhile_id [of is_digit rest]
    by (simp add: format_token_def format_int_def)
next
  assume r: "token = format_token nid secret \<and> 1 \<le> nid \<and> nid < 10 ^ 18 \<and> hex64 secret"
  let ?m = "nat nid"
  have m: "0 < ?m" "?m < 10 ^ 18" "nid = int ?m" using r by auto
  then have f: "format_int nid = dec_digits ?m" by (simp add: format_int_def)
  have all: "\<forall>c \<in> set (dec_digits ?m). is_digit c" by (blast intro: dec_digits_all)
  have us: "\<not> is_digit CHR ''_''" by (simp add: is_digit_def)
  have len: "length (dec_digits k) \<le> n" if "k < 10 ^ n" "0 < n" for k n
    using that
  proof (induction k arbitrary: n rule: dec_digits.induct)
    case (1 k)
    then show ?case
      by (cases n; cases "n - 1") (auto simp: dec_digits.simps [of k] less_mult_imp_div_less mult.commute)
  qed
  have hd0: "hd (dec_digits k) \<noteq> CHR ''0''" if "0 < k" for k
    using that
  proof (induction k rule: dec_digits.induct)
    case (1 k)
    have "digit_char k \<noteq> CHR ''0''" if "0 < k" "k < 10"
      using that digit_char_simps(2) [of k] by (auto simp: digit_val_def)
    with 1 show ?case by (auto simp: dec_digits.simps [of k] hd_append)
  qed
  have "?m < 2 ^ 64" using m(2) by simp
  moreover have "int ?m \<le> max_int64" using m by simp
  ultimately have "parse_int64 (dec_digits ?m) = (nid, ParseOk)"
    using parse_format_int [of nid] f r by simp
  with r f all us len [of ?m 18] hd0 [of ?m] m show "parse_token token = Some (nid, secret)"
    by (simp add: parse_token_def format_token_def takeWhile_all_append dropWhile_all_append)
qed

text \<open>C27: a viewer URL signed for one stream, access point, token and expiry is accepted for
  another only if HMAC-SHA-256 collides on two different messages: the message writes the four
  numbers so that no two grants share it.\<close>

theorem viewer_grant_not_transferable:
  assumes "verify H secret s' a' t' e' (sign H secret s a t e)"
  shows "(s', a', t', e') = (s, a, t, e) \<or>
    (\<exists>key m m'. m \<noteq> m' \<and> hmac256 H key m = hmac256 H key m')"
proof (cases "(s', a', t', e') = (s, a, t, e)")
  case False
  then have "sign_message s' a' t' e' \<noteq> sign_message s a t e" by (auto simp: sign_message_inj)
  moreover have "hmac256 H (derive H ''sign'' secret) (sign_message s' a' t' e') =
      hmac256 H (derive H ''sign'' secret) (sign_message s a t e)"
    using assms by (simp add: verify_def sign_def hex_encode_inj)
  ultimately show ?thesis by blast
qed simp

theorem viewer_grant_not_transferable_witness:
  "verify \<lparr>sha256 = (\<lambda>m. replicate 32 CHR ''h''), hmac256 = (\<lambda>k m. m)\<rparr> ''sec'' 1 2 3 99
     (sign \<lparr>sha256 = (\<lambda>m. replicate 32 CHR ''h''), hmac256 = (\<lambda>k m. m)\<rparr> ''sec'' 1 2 3 99) \<and>
   \<not> verify \<lparr>sha256 = (\<lambda>m. replicate 32 CHR ''h''), hmac256 = (\<lambda>k m. m)\<rparr> ''sec'' 1 2 4 99
     (sign \<lparr>sha256 = (\<lambda>m. replicate 32 CHR ''h''), hmac256 = (\<lambda>k m. m)\<rparr> ''sec'' 1 2 3 99)"
  using viewer_grant_not_transferable
    [of "\<lparr>sha256 = (\<lambda>m. replicate 32 CHR ''h''), hmac256 = (\<lambda>k m. m)\<rparr>" "''sec''" 1 2 4 99 1 2 3 99]
  by (auto simp: verify_sign)

end
