(* ===== verification/Hls.thy ===== *)
theory Hls imports GoStrings begin

text \<open>
  \<open>internal/hls\<close>: sniffing and rewriting of HLS playlists. \<open>net/url\<close> is the parameter
  \<open>url_ops\<close>; the \<open>EncodeFunc\<close> callback threads a state (its source of nonces) and may fail.

  \<open>pieces\<close> reads a tag line as the regular expression \<open>URI="([^"]*)"\<close> does, into plain
  characters and attribute values; it is the specification \<open>rewrite_tag_attrs\<close> refines.
  The locale \<open>encode_func\<close> is the contract the callback owes the rewriter.
\<close>

section \<open>URLs and the callback\<close>

record 'u url_ops =
  url_parse :: "string \<Rightarrow> 'u option"
  url_resolve :: "'u \<Rightarrow> 'u \<Rightarrow> 'u"  \<comment> \<open>base, reference\<close>

type_synonym ('u, 's) encoder = "'u \<Rightarrow> 's \<Rightarrow> (string \<times> 's) option"

abbreviation quote :: char where "quote \<equiv> CHR 0x22"
abbreviation newline :: char where "newline \<equiv> CHR 0x0A"
abbreviation carriage_return :: char where "carriage_return \<equiv> CHR 0x0D"

section \<open>Sniffing\<close>

definition trim_bom :: "bytes \<Rightarrow> bytes" where
  "trim_bom b =
     (if length b \<ge> 3 \<and> b ! 0 = CHR 0xEF \<and> b ! 1 = CHR 0xBB \<and> b ! 2 = CHR 0xBF then drop 3 b else b)"

definition is_playlist :: "bytes \<Rightarrow> bool" where
  "is_playlist body = has_prefix (trim_space (trim_bom body)) ''#EXTM3U''"

section \<open>Rewriting\<close>

definition resolve_uri :: "'u url_ops \<Rightarrow> string \<Rightarrow> 'u \<Rightarrow> 'u option" where
  "resolve_uri U raw base =
     (case url_parse U raw of None \<Rightarrow> None | Some ref \<Rightarrow> Some (url_resolve U base ref))"

definition uri_open :: string where
  "uri_open = ''URI='' @ [quote]"

text \<open>A match of the attribute pattern at the head of the text: its value and what follows.\<close>

definition match_uri :: "string \<Rightarrow> (string \<times> string) option" where
  "match_uri s =
     (if has_prefix s uri_open
      then (case cut_at quote (drop (length uri_open) s) of
              (v, Some rest) \<Rightarrow> Some (v, rest)
            | (v, None) \<Rightarrow> None)
      else None)"

lemma match_uri_Some:
  "match_uri s = Some (v, rest) \<longleftrightarrow> s = uri_open @ v @ quote # rest \<and> quote \<notin> set v"
proof
  assume "match_uri s = Some (v, rest)"
  then show "s = uri_open @ v @ quote # rest \<and> quote \<notin> set v"
    by (auto simp: match_uri_def has_prefix_iff cut_at_def dest: index_byte_Some
        split: if_splits option.splits)
next
  assume "s = uri_open @ v @ quote # rest \<and> quote \<notin> set v"
  then show "match_uri s = Some (v, rest)"
    by (simp add: match_uri_def cut_at_def index_byte_append)
qed

lemma match_uri_None:
  "match_uri s = None \<longleftrightarrow>
     \<not> has_prefix s uri_open \<or> quote \<notin> set (drop (length uri_open) s)"
  by (auto simp: match_uri_def cut_at_def split: option.splits)
    (metis index_byte_None option.distinct(1))

lemma match_uri_shorter: "match_uri s = Some (v, rest) \<Longrightarrow> length rest < length s"
  by (simp add: match_uri_Some uri_open_def)

text \<open>
  \<open>rewriteTagAttrs\<close>: every match is replaced from left to right. A failing callback makes the
  whole line fail.
\<close>

function (sequential) rewrite_tag_attrs ::
  "'u url_ops \<Rightarrow> 'u \<Rightarrow> ('u, 's) encoder \<Rightarrow> string \<Rightarrow> 's \<Rightarrow> (string \<times> 's) option" where
  "rewrite_tag_attrs U base encode [] st = Some ([], st)"
| "rewrite_tag_attrs U base encode (c # s) st =
     (case match_uri (c # s) of
        Some (v, rest) \<Rightarrow>
          (case resolve_uri U v base of
             None \<Rightarrow> None
           | Some target \<Rightarrow>
               (case encode target st of
                  None \<Rightarrow> None
                | Some (proxied, st') \<Rightarrow>
                    (case rewrite_tag_attrs U base encode rest st' of
                       None \<Rightarrow> None
                     | Some (out, st'') \<Rightarrow> Some (uri_open @ proxied @ quote # out, st''))))
      | None \<Rightarrow>
          (case rewrite_tag_attrs U base encode s st of
             None \<Rightarrow> None
           | Some (out, st') \<Rightarrow> Some (c # out, st')))"
  by pat_completeness auto
termination
  by (relation "measure (\<lambda>(U, base, encode, s, st). length s)")
    (auto dest: match_uri_shorter)

definition rewrite_line ::
  "'u url_ops \<Rightarrow> 'u \<Rightarrow> ('u, 's) encoder \<Rightarrow> string \<Rightarrow> 's \<Rightarrow> (string \<times> 's) option" where
  "rewrite_line U base encode line st =
     (let trimmed = trim_right line [carriage_return]
      in if trimmed = [] then Some (trimmed, st)
         else if has_prefix trimmed ''#'' then rewrite_tag_attrs U base encode trimmed st
         else (case resolve_uri U trimmed base of
                 None \<Rightarrow> None
               | Some target \<Rightarrow> encode target st))"

fun rewrite_lines ::
  "'u url_ops \<Rightarrow> 'u \<Rightarrow> ('u, 's) encoder \<Rightarrow> string list \<Rightarrow> 's \<Rightarrow> (string list \<times> 's) option" where
  "rewrite_lines U base encode [] st = Some ([], st)"
| "rewrite_lines U base encode (l # ls) st =
     (case rewrite_line U base encode l st of
        None \<Rightarrow> None
      | Some (l', st') \<Rightarrow>
          (case rewrite_lines U base encode ls st' of
             None \<Rightarrow> None
           | Some (ls', st'') \<Rightarrow> Some (l' # ls', st'')))"

definition rewrite_playlist ::
  "'u url_ops \<Rightarrow> string \<Rightarrow> 'u \<Rightarrow> ('u, 's) encoder \<Rightarrow> 's \<Rightarrow> (string \<times> 's) option" where
  "rewrite_playlist U body manifest_url encode st =
     (case rewrite_lines U manifest_url encode (split_on newline body) st of
        None \<Rightarrow> None
      | Some (out, st') \<Rightarrow> Some (join_with newline out, st'))"

section \<open>Specification: the references of a playlist\<close>

datatype piece = Txt char | Uri string

function (sequential) pieces :: "string \<Rightarrow> piece list" where
  "pieces [] = []"
| "pieces (c # s) =
     (case match_uri (c # s) of
        Some (v, rest) \<Rightarrow> Uri v # pieces rest
      | None \<Rightarrow> Txt c # pieces s)"
  by pat_completeness auto
termination
  by (relation "measure length") (auto dest: match_uri_shorter)

fun piece_text :: "piece \<Rightarrow> string" where
  "piece_text (Txt c) = [c]"
| "piece_text (Uri v) = uri_open @ v @ [quote]"

definition unpieces :: "piece list \<Rightarrow> string" where
  "unpieces ps = concat (map piece_text ps)"

fun piece_uris :: "piece list \<Rightarrow> string list" where
  "piece_uris [] = []"
| "piece_uris (Txt c # ps) = piece_uris ps"
| "piece_uris (Uri v # ps) = v # piece_uris ps"

fun blank :: "piece \<Rightarrow> piece" where
  "blank (Txt c) = Txt c"
| "blank (Uri v) = Uri []"

text \<open>The references of one line, and the line with its references blanked out.\<close>

definition line_refs :: "string \<Rightarrow> string list" where
  "line_refs line =
     (let trimmed = trim_right line [carriage_return]
      in if trimmed = [] then []
         else if has_prefix trimmed ''#'' then piece_uris (pieces trimmed)
         else [trimmed])"

definition line_skeleton :: "string \<Rightarrow> piece list" where
  "line_skeleton line =
     (let trimmed = trim_right line [carriage_return]
      in if trimmed = [] then []
         else if has_prefix trimmed ''#'' then map blank (pieces trimmed)
         else [Uri []])"

definition playlist_refs :: "string \<Rightarrow> string list" where
  "playlist_refs body = concat (map line_refs (split_on newline body))"

definition playlist_skeleton :: "string \<Rightarrow> piece list list" where
  "playlist_skeleton body = map line_skeleton (split_on newline body)"

text \<open>Resolving and encoding a list of references, one after the other.\<close>

fun encode_refs ::
  "'u url_ops \<Rightarrow> 'u \<Rightarrow> ('u, 's) encoder \<Rightarrow> string list \<Rightarrow> 's \<Rightarrow> (string list \<times> 's) option" where
  "encode_refs U base encode [] st = Some ([], st)"
| "encode_refs U base encode (v # vs) st =
     (case resolve_uri U v base of
        None \<Rightarrow> None
      | Some target \<Rightarrow>
          (case encode target st of
             None \<Rightarrow> None
           | Some (p, st') \<Rightarrow>
               (case encode_refs U base encode vs st' of
                  None \<Rightarrow> None
                | Some (ps, st'') \<Rightarrow> Some (p # ps, st''))))"

fun fill :: "piece list \<Rightarrow> string list \<Rightarrow> piece list" where
  "fill (Txt c # ps) vs = Txt c # fill ps vs"
| "fill (Uri v # ps) (w # ws) = Uri w # fill ps ws"
| "fill (Uri v # ps) [] = Uri v # fill ps []"
| "fill [] vs = []"

section \<open>Lemmas on pieces\<close>

lemma unpieces_simps [simp]:
  "unpieces [] = []"
  "unpieces (p # ps) = piece_text p @ unpieces ps"
  by (simp_all add: unpieces_def)

lemma unpieces_pieces [simp]: "unpieces (pieces s) = s"
  by (induction s rule: pieces.induct) (auto simp: match_uri_Some split: option.splits)

lemma rewrite_tag_attrs_refines:
  "rewrite_tag_attrs U base encode s st =
     map_option (\<lambda>(vs, st'). (unpieces (fill (pieces s) vs), st'))
       (encode_refs U base encode (piece_uris (pieces s)) st)"
proof (induction U base encode s st rule: rewrite_tag_attrs.induct)
  case (1 U base encode st)
  then show ?case by simp
next
  case (2 U base encode c s st)
  show ?case
  proof (cases "match_uri (c # s)")
    case None
    with 2 show ?thesis by (auto split: option.splits)
  next
    case (Some vr)
    obtain v rest where vr: "vr = (v, rest)" by fastforce
    with Some 2 show ?thesis
      by (auto split: option.splits)
  qed
qed

lemma length_encode_refs: "encode_refs U base encode vs st = Some (ws, st') \<Longrightarrow> length ws = length vs"
proof (induction vs arbitrary: st ws)
  case (Cons v vs)
  from Cons.prems obtain p st1 ps where ws: "ws = p # ps"
    and ps: "encode_refs U base encode vs st1 = Some (ps, st')"
    by (auto split: option.splits)
  from Cons.IH [OF ps] ws show ?case by simp
qed simp

lemma encode_refs_append:
  "encode_refs U base encode (vs @ ws) st =
     (case encode_refs U base encode vs st of
        None \<Rightarrow> None
      | Some (ps, st') \<Rightarrow>
          (case encode_refs U base encode ws st' of
             None \<Rightarrow> None
           | Some (qs, st'') \<Rightarrow> Some (ps @ qs, st'')))"
  by (induction vs arbitrary: st) (auto split: option.splits)

lemma piece_uris_fill: "length vs = length (piece_uris ps) \<Longrightarrow> piece_uris (fill ps vs) = vs"
  by (induction ps vs rule: fill.induct) auto

lemma blank_fill: "map blank (fill ps vs) = map blank ps"
  by (induction ps vs rule: fill.induct) auto

text \<open>Two piece lists of one shape: the same characters, and values without a quote.\<close>

inductive same_shape :: "piece list \<Rightarrow> piece list \<Rightarrow> bool" where
  shape_nil: "same_shape [] []"
| shape_txt: "same_shape ps qs \<Longrightarrow> same_shape (Txt c # ps) (Txt c # qs)"
| shape_uri: "same_shape ps qs \<Longrightarrow> quote \<notin> set w \<Longrightarrow> same_shape (Uri v # ps) (Uri w # qs)"

inductive_cases same_shape_TxtE: "same_shape (Txt c # ps) qs"
inductive_cases same_shape_UriE: "same_shape (Uri v # ps) qs"

lemma same_shape_fill:
  "length vs = length (piece_uris ps) \<Longrightarrow> \<forall>w \<in> set vs. quote \<notin> set w \<Longrightarrow> same_shape ps (fill ps vs)"
  by (induction ps vs rule: fill.induct) (auto intro: same_shape.intros)

lemma same_shape_quote:
  "same_shape ps qs \<Longrightarrow> quote \<in> set (unpieces ps) \<longleftrightarrow> quote \<in> set (unpieces qs)"
  by (induction rule: same_shape.induct) (auto simp: uri_open_def)

lemma same_shape_prefix:
  assumes "same_shape ps qs" and "has_prefix (unpieces qs) p" and "CHR ''U'' \<notin> set p"
  shows "\<exists>ps' qs'. same_shape ps' qs' \<and> unpieces ps = p @ unpieces ps' \<and> unpieces qs = p @ unpieces qs'"
  using assms
proof (induction p arbitrary: ps qs)
  case Nil
  then show ?case by auto
next
  case (Cons c p)
  from Cons.prems(1) show ?case
  proof (cases rule: same_shape.cases)
    case shape_nil
    with Cons.prems show ?thesis by simp
  next
    case (shape_txt ps1 qs1 d)
    with Cons.prems have "d = c" "has_prefix (unpieces qs1) p" "CHR ''U'' \<notin> set p" by auto
    with Cons.IH [OF shape_txt(3)] shape_txt show ?thesis by auto
  next
    case (shape_uri ps1 qs1 w v)
    with Cons.prems show ?thesis by (auto simp: uri_open_def)
  qed
qed

text \<open>Reading a line back after its values were replaced finds the replaced values.\<close>

lemma pieces_same_shape:
  assumes "same_shape (pieces s) qs"
  shows "pieces (unpieces qs) = qs"
  using assms
proof (induction s arbitrary: qs rule: pieces.induct)
  case 1
  then show ?case by (auto elim: same_shape.cases)
next
  case (2 c s)
  show ?case
  proof (cases "match_uri (c # s)")
    case None
    with "2.prems" obtain rs where qs: "qs = Txt c # rs" and rs: "same_shape (pieces s) rs"
      by (auto elim: same_shape_TxtE)
    have "match_uri (c # unpieces rs) = None"
    proof (rule ccontr)
      assume "match_uri (c # unpieces rs) \<noteq> None"
      then have c: "c = CHR ''U''" and p: "has_prefix (unpieces rs) (''RI='' @ [quote])"
        and q: "quote \<in> set (drop (length uri_open) (c # unpieces rs))"
        by (auto simp: match_uri_None uri_open_def)
      from same_shape_prefix [OF rs p] obtain ps' qs' where
        sh: "same_shape ps' qs'" "s = ''RI='' @ quote # unpieces ps'"
          "unpieces rs = ''RI='' @ quote # unpieces qs'" by auto
      with q c have "quote \<in> set (unpieces qs')" by (simp add: uri_open_def)
      with same_shape_quote [OF sh(1)] have "quote \<in> set (unpieces ps')" by simp
      with sh(2) c None show False by (simp add: match_uri_None uri_open_def)
    qed
    with qs "2.IH"(1) [OF None rs] show ?thesis by simp
  next
    case (Some vr)
    obtain v rest where vr: "vr = (v, rest)" by fastforce
    with Some "2.prems" obtain w rs where qs: "qs = Uri w # rs" and rs: "same_shape (pieces rest) rs"
      and w: "quote \<notin> set w"
      by (auto elim: same_shape_UriE)
    have m: "match_uri (unpieces qs) = Some (w, unpieces rs)"
      using qs w by (simp add: match_uri_Some)
    then obtain d t where dt: "unpieces qs = d # t"
      by (cases "unpieces qs") (auto simp: match_uri_def uri_open_def)
    with m "2.IH"(2) [OF Some vr [symmetric] rs] qs show ?thesis by simp
  qed
qed

section \<open>The contract of the callback\<close>

text \<open>
  What a client may be handed in place of a source URL: an absolute-path reference that stays
  one line and inside its quotes.
\<close>

definition safe_ref :: "string \<Rightarrow> bool" where
  "safe_ref r \<longleftrightarrow> r \<noteq> [] \<and> hd r = CHR ''/'' \<and>
     quote \<notin> set r \<and> newline \<notin> set r \<and> carriage_return \<notin> set r"

lemma safe_ref_trim: "safe_ref r \<Longrightarrow> trim_right r [carriage_return] = r"
  by (rule trim_right_id) (metis last_in_set list.set_intros(1) list.set(1) safe_ref_def
      set_ConsD empty_iff)

lemma last_same_shape:
  "same_shape ps qs \<Longrightarrow> ps \<noteq> [] \<Longrightarrow> last (unpieces qs) = last (unpieces ps)"
  by (induction rule: same_shape.induct)
    (auto simp: last_append uri_open_def elim: same_shape.cases)

lemma same_shape_Nil: "same_shape ps qs \<Longrightarrow> qs = [] \<longleftrightarrow> ps = []"
  by (auto elim: same_shape.cases)

text \<open>A rewritten tag line is a tag line with the replaced values.\<close>

lemma rewritten_tag_line:
  assumes t: "t \<noteq> []" "has_prefix t ''#''" "last t \<noteq> carriage_return" "newline \<notin> set t"
    and sh: "same_shape (pieces t) qs" "\<forall>w \<in> set (piece_uris qs). newline \<notin> set w"
  shows "trim_right (unpieces qs) [carriage_return] = unpieces qs"
    and "unpieces qs \<noteq> []" and "has_prefix (unpieces qs) ''#''" and "newline \<notin> set (unpieces qs)"
proof -
  obtain u where u: "t = CHR ''#'' # u" using t(1,2) by (cases t) auto
  then have "match_uri t = None" by (simp add: match_uri_None uri_open_def)
  with u have p: "pieces t = Txt CHR ''#'' # pieces u" by simp
  with sh(1) obtain rs where rs: "qs = Txt CHR ''#'' # rs" by (auto elim: same_shape_TxtE)
  then show "unpieces qs \<noteq> []" and "has_prefix (unpieces qs) ''#''" by simp_all
  have "pieces t \<noteq> []" using p by simp
  then have "last (unpieces qs) = last t"
    using last_same_shape [OF sh(1)] by (simp only: unpieces_pieces not_False_eq_True simp_thms)
  with t(3) show "trim_right (unpieces qs) [carriage_return] = unpieces qs"
    by (auto intro: trim_right_id)
  have "newline \<in> set (unpieces qs) \<Longrightarrow> newline \<in> set (unpieces ps)"
    if "same_shape ps qs" "\<forall>w \<in> set (piece_uris qs). newline \<notin> set w" for ps qs
    using that by (induction rule: same_shape.induct) (auto simp: uri_open_def)
  from this [OF sh] t(4) show "newline \<notin> set (unpieces qs)" by auto
qed

locale encode_func =
  fixes encode :: "'c \<Rightarrow> ('u, 's) encoder"
    and admissible :: "'c \<Rightarrow> 'u \<Rightarrow> bool"
  assumes encode_safe: "admissible c u \<Longrightarrow> encode c u st = Some (r, st') \<Longrightarrow> safe_ref r"
begin

definition admissible_refs :: "'u url_ops \<Rightarrow> 'u \<Rightarrow> 'c \<Rightarrow> string list \<Rightarrow> bool" where
  "admissible_refs U base c vs \<longleftrightarrow> (\<forall>v \<in> set vs. \<forall>t. resolve_uri U v base = Some t \<longrightarrow> admissible c t)"

lemma encode_refs_safe:
  "admissible_refs U base c vs \<Longrightarrow> encode_refs U base (encode c) vs st = Some (ws, st') \<Longrightarrow>
   \<forall>w \<in> set ws. safe_ref w"
  by (induction vs arbitrary: st ws st')
    (fastforce simp: admissible_refs_def dest: encode_safe split: option.splits)+

lemma rewrite_line_refs:
  assumes "newline \<notin> set line" and "admissible_refs U base c (line_refs line)"
    and "rewrite_line U base (encode c) line st = Some (out, st')"
  shows "encode_refs U base (encode c) (line_refs line) st = Some (line_refs out, st') \<and>
    line_skeleton out = line_skeleton line \<and> newline \<notin> set out"
proof -
  let ?t = "trim_right line [carriage_return]"
  have nl: "newline \<notin> set ?t" using assms(1) set_trim_right by blast
  consider (empty) "?t = []" | (tag) "?t \<noteq> []" "has_prefix ?t ''#''"
    | (uri) "?t \<noteq> []" "\<not> has_prefix ?t ''#''" by blast
  then show ?thesis
  proof cases
    case empty
    with assms show ?thesis by (auto simp: rewrite_line_def line_refs_def line_skeleton_def)
  next
    case tag
    with assms(3) obtain ws where ws: "encode_refs U base (encode c) (line_refs line) st = Some (ws, st')"
      and out: "out = unpieces (fill (pieces ?t) ws)"
      by (auto simp: rewrite_line_def line_refs_def rewrite_tag_attrs_refines Let_def)
    have len: "length ws = length (piece_uris (pieces ?t))"
      using length_encode_refs [OF ws] tag by (simp add: line_refs_def)
    have safe: "\<forall>w \<in> set ws. quote \<notin> set w \<and> newline \<notin> set w"
      using encode_refs_safe [OF assms(2) ws] by (auto simp: safe_ref_def)
    have sh: "same_shape (pieces ?t) (fill (pieces ?t) ws)"
      using safe by (intro same_shape_fill len) auto
    have uris: "piece_uris (fill (pieces ?t) ws) = ws" by (rule piece_uris_fill [OF len])
    have lt: "last ?t \<noteq> carriage_return" using trim_right_last [of line "[carriage_return]"] tag by simp
    note rt = rewritten_tag_line [OF tag lt nl sh, unfolded uris]
    from rt safe tag ws out uris show ?thesis
      by (simp add: line_refs_def line_skeleton_def pieces_same_shape [OF sh] blank_fill)
  next
    case uri
    with assms(3) obtain target where target: "resolve_uri U ?t base = Some target"
      and enc: "encode c target st = Some (out, st')"
      by (auto simp: rewrite_line_def Let_def split: option.splits)
    have "safe_ref out"
      using assms(2) uri target enc encode_safe
      by (auto simp: admissible_refs_def line_refs_def)
    then have o: "trim_right out [carriage_return] = out" "out \<noteq> []" "\<not> has_prefix out ''#''"
      "newline \<notin> set out"
      by (auto simp: safe_ref_trim) (auto simp: safe_ref_def has_prefix_iff)
    with uri target enc show ?thesis by (simp add: line_refs_def line_skeleton_def)
  qed
qed

lemma rewrite_lines_refs:
  assumes "\<forall>l \<in> set ls. newline \<notin> set l"
    and "admissible_refs U base c (concat (map line_refs ls))"
    and "rewrite_lines U base (encode c) ls st = Some (outs, st')"
  shows "encode_refs U base (encode c) (concat (map line_refs ls)) st =
      Some (concat (map line_refs outs), st') \<and>
    map line_skeleton outs = map line_skeleton ls \<and> (\<forall>l \<in> set outs. newline \<notin> set l)"
  using assms
proof (induction ls arbitrary: st outs)
  case Nil
  then show ?case by simp
next
  case (Cons l ls)
  from Cons.prems(3) obtain l' st1 outs' where
    l': "rewrite_line U base (encode c) l st = Some (l', st1)" and
    rest: "rewrite_lines U base (encode c) ls st1 = Some (outs', st')" and outs: "outs = l' # outs'"
    by (auto split: option.splits)
  have a: "admissible_refs U base c (line_refs l)" "admissible_refs U base c (concat (map line_refs ls))"
    using Cons.prems(2) by (auto simp: admissible_refs_def)
  from rewrite_line_refs [OF _ a(1) l'] Cons.IH [OF _ a(2) rest] Cons.prems(1) outs
  show ?case by (auto simp: encode_refs_append)
qed

lemma rewrite_playlist_refs:
  assumes "admissible_refs U base c (playlist_refs body)"
    and "rewrite_playlist U body base (encode c) st = Some (out, st')"
  shows "encode_refs U base (encode c) (playlist_refs body) st = Some (playlist_refs out, st')"
    and "playlist_skeleton out = playlist_skeleton body"
proof -
  from assms(2) obtain outs where
    outs: "rewrite_lines U base (encode c) (split_on newline body) st = Some (outs, st')" and
    out: "out = join_with newline outs"
    by (auto simp: rewrite_playlist_def split: option.splits)
  have "\<forall>l \<in> set (split_on newline body). newline \<notin> set l" by (auto dest: split_on_no_sep)
  note r = rewrite_lines_refs [OF this assms(1) [unfolded playlist_refs_def] outs]
  have "length outs = length (split_on newline body)" using r by (metis length_map)
  then have "outs \<noteq> []" by auto
  with r out have "split_on newline out = outs" by (simp add: split_join)
  with r show "encode_refs U base (encode c) (playlist_refs body) st = Some (playlist_refs out, st')"
    and "playlist_skeleton out = playlist_skeleton body"
    by (simp_all add: playlist_refs_def playlist_skeleton_def)
qed

end

section \<open>Properties\<close>

lemma rewrite_line_None:
  "rewrite_line U base encode line st = None \<longleftrightarrow> encode_refs U base encode (line_refs line) st = None"
  by (auto simp: rewrite_line_def line_refs_def rewrite_tag_attrs_refines Let_def split: option.splits)

lemma rewrite_line_state:
  "rewrite_line U base encode line st = Some (out, st') \<Longrightarrow>
   \<exists>ws. encode_refs U base encode (line_refs line) st = Some (ws, st')"
  by (auto simp: rewrite_line_def line_refs_def rewrite_tag_attrs_refines Let_def
      split: option.splits if_splits)

lemma rewrite_lines_None:
  "rewrite_lines U base encode ls st = None \<longleftrightarrow>
   encode_refs U base encode (concat (map line_refs ls)) st = None"
proof (induction ls arbitrary: st)
  case Nil
  then show ?case by simp
next
  case (Cons l ls)
  show ?case
  proof (cases "rewrite_line U base encode l st")
    case None
    then have "encode_refs U base encode (line_refs l) st = None" by (simp add: rewrite_line_None)
    with None show ?thesis by (simp add: encode_refs_append)
  next
    case (Some r)
    then obtain out st1 where r: "r = (out, st1)" by fastforce
    from rewrite_line_state [OF Some [unfolded r]] obtain ws
      where "encode_refs U base encode (line_refs l) st = Some (ws, st1)" by blast
    with Some r Cons.IH [of st1] show ?thesis
      by (auto simp: encode_refs_append split: option.splits)
  qed
qed

text \<open>C6: \<open>RewritePlaylist\<close> fails exactly when one of the playlist's references does not parse or
  the callback refuses one; no other input makes it fail, and no reference is skipped.\<close>

theorem rewrite_playlist_fails_iff:
  "rewrite_playlist U body base encode st = None \<longleftrightarrow>
     encode_refs U base encode (playlist_refs body) st = None"
proof -
  have "rewrite_playlist U body base encode st = None \<longleftrightarrow>
      rewrite_lines U base encode (split_on newline body) st = None"
    by (auto simp: rewrite_playlist_def split: option.splits)
  then show ?thesis by (simp add: rewrite_lines_None playlist_refs_def)
qed

text \<open>C7: a tag or comment line in which no \<open>URI="..."\<close> attribute stands is copied byte for byte,
  so a source address written there in any other way (a comment, an unquoted attribute) reaches
  the client.\<close>

theorem tag_without_uri_copied:
  assumes "newline \<notin> set line" and "last (CHR ''#'' # line) \<noteq> carriage_return"
    and "\<not> str_contains (CHR ''#'' # line) uri_open"
  shows "rewrite_playlist U (CHR ''#'' # line) base encode st = Some (CHR ''#'' # line, st)"
proof -
  have "pieces s = map Txt s" if "\<not> str_contains s uri_open" for s
    using that
  proof (induction s rule: pieces.induct)
    case (2 c s)
    then have n: "match_uri (c # s) = None"
      by (auto simp: match_uri_None str_contains_iff has_prefix_iff) (metis append_Nil)
    moreover have "\<not> str_contains s uri_open"
      using "2.prems" by (auto simp: str_contains_iff) (metis append_Cons)
    ultimately show ?case using "2.IH"(1) by simp
  qed simp
  then have p: "pieces (CHR ''#'' # line) = map Txt (CHR ''#'' # line)" using assms(3) by blast
  have "piece_uris (map Txt s) = []" "fill (map Txt s) [] = map Txt s" "unpieces (map Txt s) = s" for s
    by (induction s) auto
  then have "rewrite_tag_attrs U base encode (CHR ''#'' # line) st = Some (CHR ''#'' # line, st)"
    by (simp add: rewrite_tag_attrs_refines p del: rewrite_tag_attrs.simps pieces.simps list.map)
  moreover have "trim_right (CHR ''#'' # line) [carriage_return] = CHR ''#'' # line"
    using assms(2) by (intro trim_right_id) simp
  ultimately show ?thesis
    using assms(1) by (simp add: rewrite_playlist_def rewrite_line_def split_on_single del: rewrite_tag_attrs.simps)
qed

theorem tag_without_uri_copied_witness:
  "rewrite_playlist \<lparr>url_parse = (\<lambda>s. Some s), url_resolve = (\<lambda>b r. b @ r)\<rparr>
     ''#EXT-X-SRC:http://origin/live'' ''http://origin/'' (\<lambda>u n. Some (''/x'', n + (1 :: nat))) 0
   = Some (''#EXT-X-SRC:http://origin/live'', 0)"
  by (rule tag_without_uri_copied) (code_simp+)

end
