(* ===== verification/Urls.thy ===== *)
theory Urls imports Encoding Hls begin

text \<open>
  Parsed URLs as the gateway uses them, and the errors of its fetches. The parser, the printer
  and reference resolution of \<open>net/url\<close> are the fields of \<open>url_lib\<close>; the accessors the source
  calls are definitions.

  A Go error is what the code can ask of it: which sentinels and error types its chain holds
  (\<open>errors.Is\<close>, \<open>errors.As\<close>), the request URL a \<open>*url.Error\<close> in the chain carries, and its text.
\<close>

section \<open>URLs\<close>

record url =
  u_scheme :: string
  u_user :: "(string \<times> string option) option"  \<comment> \<open>user name and password\<close>
  u_host :: string
  u_path :: string
  u_raw_query :: string
  u_fragment :: string

record url_lib =
  ul_ops :: "url url_ops"
  ul_string :: "url \<Rightarrow> string"
  ul_path_escape :: "string \<Rightarrow> string"
  ul_query_escape :: "string \<Rightarrow> string"
  ul_quote :: "string \<Rightarrow> string"

text \<open>\<open>Hostname\<close>: the host without a port and without the brackets of an IPv6 literal.\<close>

definition valid_optional_port :: "string \<Rightarrow> bool" where
  "valid_optional_port p = (case p of [] \<Rightarrow> True | c # ds \<Rightarrow> c = CHR '':'' \<and> list_all is_digit ds)"

definition hostname_of :: "string \<Rightarrow> string" where
  "hostname_of host =
     (let h = (case last_index_byte host CHR '':'' of
                 None \<Rightarrow> host
               | Some i \<Rightarrow> if valid_optional_port (drop i host) then take i host else host)
      in if has_prefix h ''['' \<and> has_suffix h '']'' then butlast (tl h) else h)"

definition hostname :: "url \<Rightarrow> string" where
  "hostname u = hostname_of (u_host u)"

text \<open>\<open>path.Ext\<close>: from the last dot of the last path element.\<close>

definition path_ext :: "string \<Rightarrow> string" where
  "path_ext p =
     (case last_index_byte p CHR ''.'' of
        None \<Rightarrow> []
      | Some i \<Rightarrow> if CHR ''/'' \<in> set (drop i p) then [] else drop i p)"

lemma path_ext_chars: "set (path_ext p) \<subseteq> set p"
  by (auto simp: path_ext_def split: option.splits dest: in_set_dropD)

lemma path_ext_no_slash: "CHR ''/'' \<notin> set (path_ext p)"
  by (auto simp: path_ext_def split: option.splits)

text \<open>What \<open>url.Error\<close> shows of a URL: the password is starred out.\<close>

definition strip_password :: "url \<Rightarrow> url" where
  "strip_password u =
     (case u_user u of Some (name, Some _) \<Rightarrow> u\<lparr>u_user := Some (name, Some ''***'')\<rparr> | _ \<Rightarrow> u)"

section \<open>Errors of a fetch\<close>

datatype cause =
    Blocked
  | DeadlineExceeded
  | DnsError
  | ConnRefused
  | ConnReset
  | BrokenPipe
  | HostUnreachable
  | NetUnreachable
  | CertificateError
  | Canceled
  | NetTimeout
  | EncryptedHls
  | FMP4Hls
  | NotTSHls

record go_error =
  e_causes :: "cause list"
  e_url :: "string option"
  e_msg :: string

definition err_text :: "string \<Rightarrow> go_error" where
  "err_text m = \<lparr>e_causes = [], e_url = None, e_msg = m\<rparr>"

text \<open>\<open>fmt.Errorf("%w: ...")\<close> over the sentinel of the SSRF policy.\<close>

definition err_blocked_msg :: string where
  "err_blocked_msg = ''target blocked by SSRF policy''"

definition blocked_error :: "string \<Rightarrow> go_error" where
  "blocked_error m = \<lparr>e_causes = [Blocked], e_url = None, e_msg = err_blocked_msg @ '': '' @ m\<rparr>"

definition wrap_error :: "string \<Rightarrow> go_error \<Rightarrow> go_error" where
  "wrap_error m e = e\<lparr>e_msg := m @ '': '' @ e_msg e\<rparr>"

text \<open>The text of the error, as \<open>url.Error\<close> prints it when there is one at the front.\<close>

definition error_text :: "url_lib \<Rightarrow> go_error \<Rightarrow> string" where
  "error_text L e =
     (case e_url e of
        None \<Rightarrow> e_msg e
      | Some u \<Rightarrow> ''Get '' @ ul_quote L u @ '': '' @ e_msg e)"

text \<open>\<open>client.Do\<close> hands every failure out as a \<open>*url.Error\<close> of the request that failed.\<close>

definition as_url_error :: "url_lib \<Rightarrow> url \<Rightarrow> go_error \<Rightarrow> go_error" where
  "as_url_error L u e = e\<lparr>e_url := Some (ul_string L (strip_password u))\<rparr>"

definition ellipsis :: string where
  "ellipsis = [CHR 0xE2, CHR 0x80, CHR 0xA6]"

definition redact_url_error :: "url_lib \<Rightarrow> go_error \<Rightarrow> go_error" where
  "redact_url_error L e =
     (case e_url e of
        None \<Rightarrow> e
      | Some raw \<Rightarrow>
          (case url_parse (ul_ops L) raw of
             Some u \<Rightarrow>
               if u_host u \<noteq> [] then e\<lparr>e_url := Some (u_scheme u @ ''://'' @ u_host u @ ''/'' @ ellipsis)\<rparr>
               else e\<lparr>e_url := Some ellipsis\<rparr>
           | None \<Rightarrow> e\<lparr>e_url := Some ellipsis\<rparr>))"

definition fetch_failure_kind :: "go_error \<Rightarrow> string" where
  "fetch_failure_kind e =
     (let cs = set (e_causes e)
      in if Blocked \<in> cs then ''redirect or target blocked by SSRF policy''
         else if DeadlineExceeded \<in> cs then ''timeout''
         else if DnsError \<in> cs then ''DNS lookup failed''
         else if ConnRefused \<in> cs then ''connection refused''
         else if ConnReset \<in> cs \<or> BrokenPipe \<in> cs then ''connection reset''
         else if HostUnreachable \<in> cs \<or> NetUnreachable \<in> cs then ''host unreachable''
         else if CertificateError \<in> cs then ''TLS certificate error''
         else if Canceled \<in> cs then ''canceled''
         else if NetTimeout \<in> cs then ''timeout''
         else ''network error'')"

lemma redact_keeps_causes [simp]: "e_causes (redact_url_error L e) = e_causes e"
  by (simp add: redact_url_error_def split: option.splits)

lemma redact_keeps_kind [simp]: "fetch_failure_kind (redact_url_error L e) = fetch_failure_kind e"
  by (simp add: fetch_failure_kind_def)

lemma blocked_error_causes [simp]: "e_causes (blocked_error m) = [Blocked]"
  by (simp add: blocked_error_def)

lemma wrap_error_causes [simp]: "e_causes (wrap_error m e) = e_causes e"
  by (simp add: wrap_error_def)

end
