(* ===== verification/IpAddr.thy ===== *)
theory IpAddr imports Prelude "HOL-Library.Word" begin

text \<open>
  IP addresses and their classification: \<open>net.IP\<close> and \<open>netip.Addr\<close> as far as the gateway uses
  them, \<open>isPrivateOrReserved\<close> (\<open>internal/gatewayhttp/ssrf.go\<close>) and \<open>publicIP\<close>
  (\<open>internal/slate/slate.go\<close>). An address is its 4 or 16 bytes; a zone plays no part.

  The specification is a table of CIDR blocks over the address read as a number.
\<close>

unbundle bit_operations_syntax

type_synonym ip = "8 word list"

section \<open>The library's predicates\<close>

definition v4_in_v6_prefix :: ip where
  "v4_in_v6_prefix = [0, 0, 0, 0, 0, 0, 0, 0, 0, 0, 0xff, 0xff]"

definition to4 :: "ip \<Rightarrow> ip option" where
  "to4 a =
     (if length a = 4 then Some a
      else if length a = 16 \<and> take 12 a = v4_in_v6_prefix then Some (drop 12 a)
      else None)"

definition ipv6_unspecified :: ip where "ipv6_unspecified = replicate 16 0"
definition ipv6_loopback :: ip where "ipv6_loopback = replicate 15 0 @ [1]"

definition ip_unspecified :: "ip \<Rightarrow> bool" where
  "ip_unspecified a \<longleftrightarrow> to4 a = Some [0, 0, 0, 0] \<or> a = ipv6_unspecified"

definition ip_loopback :: "ip \<Rightarrow> bool" where
  "ip_loopback a = (case to4 a of Some q \<Rightarrow> q ! 0 = 127 | None \<Rightarrow> a = ipv6_loopback)"

definition ip_private :: "ip \<Rightarrow> bool" where
  "ip_private a =
     (case to4 a of
        Some q \<Rightarrow> q ! 0 = 10 \<or> (q ! 0 = 172 \<and> q ! 1 AND 0xf0 = 16) \<or> (q ! 0 = 192 \<and> q ! 1 = 168)
      | None \<Rightarrow> length a = 16 \<and> a ! 0 AND 0xfe = 0xfc)"

definition ip_multicast :: "ip \<Rightarrow> bool" where
  "ip_multicast a =
     (case to4 a of Some q \<Rightarrow> q ! 0 AND 0xf0 = 0xe0 | None \<Rightarrow> length a = 16 \<and> a ! 0 = 0xff)"

definition ip_link_local_multicast :: "ip \<Rightarrow> bool" where
  "ip_link_local_multicast a =
     (case to4 a of
        Some q \<Rightarrow> q ! 0 = 224 \<and> q ! 1 = 0 \<and> q ! 2 = 0
      | None \<Rightarrow> length a = 16 \<and> a ! 0 = 0xff \<and> a ! 1 AND 0x0f = 0x02)"

definition ip_link_local_unicast :: "ip \<Rightarrow> bool" where
  "ip_link_local_unicast a =
     (case to4 a of
        Some q \<Rightarrow> q ! 0 = 169 \<and> q ! 1 = 254
      | None \<Rightarrow> length a = 16 \<and> a ! 0 = 0xfe \<and> a ! 1 AND 0xc0 = 0x80)"

text \<open>\<open>netip.Addr\<close>: \<open>Unmap\<close> turns an IPv4-mapped address into its IPv4 form.\<close>

definition unmap :: "ip \<Rightarrow> ip" where
  "unmap a = (case to4 a of Some q \<Rightarrow> q | None \<Rightarrow> a)"

definition global_unicast :: "ip \<Rightarrow> bool" where
  "global_unicast a \<longleftrightarrow>
     (length a = 4 \<or> length a = 16) \<and> a \<noteq> [0, 0, 0, 0] \<and> a \<noteq> [255, 255, 255, 255] \<and>
     a \<noteq> ipv6_unspecified \<and> \<not> ip_loopback a \<and> \<not> ip_multicast a \<and> \<not> ip_link_local_unicast a"

section \<open>The two classifications\<close>

definition is_private_or_reserved :: "ip \<Rightarrow> bool" where
  "is_private_or_reserved a \<longleftrightarrow>
     ip_private a \<or> ip_loopback a \<or> ip_link_local_unicast a \<or>
     ip_link_local_multicast a \<or> ip_unspecified a \<or> ip_multicast a"

definition public_ip :: "ip \<Rightarrow> bool" where
  "public_ip addr =
     (let a = unmap addr
      in if \<not> global_unicast a \<or> ip_private a \<or> ip_loopback a \<or> ip_link_local_unicast a then False
         else if length a = 4 \<and>
                 (a ! 0 = 0 \<or> a ! 0 = 100 \<and> a ! 1 \<ge> 64 \<and> a ! 1 \<le> 127 \<or> a ! 0 \<ge> 224) then False
         else True)"

section \<open>Specification: CIDR blocks\<close>

fun addr_num :: "ip \<Rightarrow> nat" where
  "addr_num [] = 0"
| "addr_num (b # bs) = unat b * 256 ^ length bs + addr_num bs"

definition in_cidr :: "ip \<Rightarrow> ip \<times> nat \<Rightarrow> bool" where
  "in_cidr a block =
     (length a = length (fst block) \<and>
      addr_num a div 2 ^ (8 * length a - snd block) = addr_num (fst block) div 2 ^ (8 * length a - snd block))"

definition blocked_v4 :: "(ip \<times> nat) list" where
  "blocked_v4 =
     [([0, 0, 0, 0], 32), ([10, 0, 0, 0], 8), ([127, 0, 0, 0], 8), ([169, 254, 0, 0], 16),
      ([172, 16, 0, 0], 12), ([192, 168, 0, 0], 16), ([224, 0, 0, 0], 4)]"

definition v6_block :: "8 word \<Rightarrow> 8 word \<Rightarrow> 8 word \<Rightarrow> ip" where
  "v6_block b0 b1 b15 = b0 # b1 # replicate 13 0 @ [b15]"

definition blocked_v6 :: "(ip \<times> nat) list" where
  "blocked_v6 =
     [(v6_block 0 0 0, 128), (v6_block 0 0 1, 128), (v6_block 0xfc 0 0, 7),
      (v6_block 0xfe 0x80 0, 10), (v6_block 0xff 0 0, 8)]"

definition blocked :: "ip \<Rightarrow> bool" where
  "blocked a =
     (case to4 a of
        Some q \<Rightarrow> list_ex (in_cidr q) blocked_v4
      | None \<Rightarrow> list_ex (in_cidr a) blocked_v6)"

text \<open>What \<open>publicIP\<close> refuses beyond that: this network, carrier-grade NAT, and 224/3.\<close>

definition not_global_v4 :: "(ip \<times> nat) list" where
  "not_global_v4 = [([0, 0, 0, 0], 8), ([100, 64, 0, 0], 10), ([224, 0, 0, 0], 3)]"

section \<open>Lemmas\<close>

lemma byte_less: "unat (b :: 8 word) < 256"
  using unsigned_less [where ?'a = nat, of b] by simp

lemma addr_num_less: "addr_num bs < 256 ^ length bs"
proof (induction bs)
  case (Cons b bs)
  have "(unat b + 1) * 256 ^ length bs \<le> 256 * 256 ^ length bs"
    using byte_less [of b] by (intro mult_right_mono) auto
  with Cons.IH have "unat b * 256 ^ length bs + addr_num bs < 256 * 256 ^ length bs"
    by (simp only: distrib_right mult_1)
  then show ?case by simp
qed simp

lemma addr_num_div:
  "addr_num (b # bs) div (256 ^ length bs * k) = unat b div k"
  by (simp add: div_mult2_eq addr_num_less)

lemma addr_num_inj: "length a = length b \<Longrightarrow> addr_num a = addr_num b \<longleftrightarrow> a = b"
proof (induction a b rule: list_induct2)
  case (Cons x xs y ys)
  show ?case
  proof
    assume e: "addr_num (x # xs) = addr_num (y # ys)"
    then have "unat x = unat y"
      using addr_num_div [of x xs 1] addr_num_div [of y ys 1] Cons.hyps by simp
    with e Cons show "x # xs = y # ys" by (simp add: word_unat_eq_iff)
  qed simp
qed simp

text \<open>The masks of the library, one byte at a time.\<close>

lemma byte_all: "(\<And>n. n < 256 \<Longrightarrow> P (word_of_nat n)) \<Longrightarrow> P (b :: 8 word)"
proof -
  assume "\<And>n. n < 256 \<Longrightarrow> P (word_of_nat n)"
  from this [OF byte_less [of b]] show "P b" by simp
qed

lemma byte_all_upt: "list_all (\<lambda>n. P (word_of_nat n)) [0..<256] \<Longrightarrow> P (b :: 8 word)"
  by (rule byte_all) (simp add: list_all_iff)

lemma mask_f0: "(b :: 8 word) AND 0xf0 = 16 \<longleftrightarrow> unat b div 16 = 1"
  by (rule byte_all_upt [where P = "\<lambda>b. b AND 0xf0 = 16 \<longleftrightarrow> unat b div 16 = 1"]) code_simp

lemma mask_e0: "(b :: 8 word) AND 0xf0 = 0xe0 \<longleftrightarrow> unat b div 16 = 14"
  by (rule byte_all_upt [where P = "\<lambda>b. b AND 0xf0 = 0xe0 \<longleftrightarrow> unat b div 16 = 14"]) code_simp

lemma mask_fe: "(b :: 8 word) AND 0xfe = 0xfc \<longleftrightarrow> unat b div 2 = 126"
  by (rule byte_all_upt [where P = "\<lambda>b. b AND 0xfe = 0xfc \<longleftrightarrow> unat b div 2 = 126"]) code_simp

lemma mask_c0: "(b :: 8 word) AND 0xc0 = 0x80 \<longleftrightarrow> unat b div 64 = 2"
  by (rule byte_all_upt [where P = "\<lambda>b. b AND 0xc0 = 0x80 \<longleftrightarrow> unat b div 64 = 2"]) code_simp

text \<open>Blocks unfold byte by byte.\<close>

lemma in_cidr_first:
  assumes "length bs = length ns" and "j \<le> 8"
  shows "in_cidr (b # bs) (n # ns, j) \<longleftrightarrow> unat b div 2 ^ (8 - j) = unat n div 2 ^ (8 - j)"
proof -
  have "8 * length (b # bs) - j = 8 * length bs + (8 - j)" using assms(2) by simp
  then have "2 ^ (8 * length (b # bs) - j) = 256 ^ length bs * (2 ^ (8 - j) :: nat)"
    by (simp add: power_add power_mult)
  with assms(1) show ?thesis
    using addr_num_div [of b bs] addr_num_div [of n ns] by (simp add: in_cidr_def)
qed

lemma in_cidr_Cons:
  assumes "length bs = length ns" and "8 \<le> j" and "j \<le> 8 * length bs + 8"
  shows "in_cidr (b # bs) (n # ns, j) \<longleftrightarrow> b = n \<and> in_cidr bs (ns, j - 8)"
proof -
  define m where "m = 8 * length bs - (j - 8)"
  define d where "d = (2 :: nat) ^ (j - 8)"
  have m: "8 * length (b # bs) - j = m" using assms by (simp add: m_def)
  have p: "256 ^ length bs = 2 ^ m * d" "256 ^ length ns = 2 ^ m * d"
  proof -
    have "8 * length bs = m + (j - 8)" using assms by (simp add: m_def)
    then have "(2 :: nat) ^ (8 * length bs) = 2 ^ m * d" by (simp add: d_def power_add)
    then show "256 ^ length bs = 2 ^ m * d" by (simp add: power_mult)
    with assms(1) show "256 ^ length ns = 2 ^ m * d" by simp
  qed
  have q: "addr_num (x # xs) div 2 ^ m = unat x * d + addr_num xs div 2 ^ m \<and> addr_num xs div 2 ^ m < d"
    if "256 ^ length xs = 2 ^ m * d" for x xs
  proof -
    have "unat x * 256 ^ length xs + addr_num xs = addr_num xs + 2 ^ m * (unat x * d)"
      using that by simp
    then have "addr_num (x # xs) div 2 ^ m = unat x * d + addr_num xs div 2 ^ m"
      unfolding addr_num.simps by (simp only:) simp
    moreover have "addr_num xs div 2 ^ m < d"
      using addr_num_less [of xs] that by (simp add: less_mult_imp_div_less mult.commute)
    ultimately show ?thesis by simp
  qed
  have "unat b * d + x = unat n * d + y \<longleftrightarrow> unat b = unat n \<and> x = y" if "x < d" "y < d" for x y
  proof
    assume e: "unat b * d + x = unat n * d + y"
    have "(unat b * d + x) div d = unat b" "(unat n * d + y) div d = unat n" using that by auto
    with e show "unat b = unat n \<and> x = y" by simp
  qed simp
  with q [OF p(1), of b] q [OF p(2), of n] assms(1) m show ?thesis
    by (simp add: in_cidr_def word_unat_eq_iff m_def)
qed

lemma in_cidr_full: "length n = len \<Longrightarrow> in_cidr a (n, 8 * len) \<longleftrightarrow> a = n"
  by (auto simp: in_cidr_def addr_num_inj)

lemma in_cidr_len: "in_cidr a (n, j) \<Longrightarrow> length a = length n"
  by (simp add: in_cidr_def)

lemma to4_length: "to4 a = Some q \<Longrightarrow> length q = 4"
  by (auto simp: to4_def split: if_splits)

lemma length4E:
  assumes "length a = 4"
  obtains b0 b1 b2 b3 where "a = [b0, b1, b2, b3]"
  using assms by (auto simp: numeral_eq_Suc length_Suc_conv)

lemma in_cidr_zero: "in_cidr a (n, 0) \<longleftrightarrow> length a = length n"
proof -
  have "addr_num x div 2 ^ (8 * length x) = 0" for x
    using addr_num_less [of x] by (simp add: power_mult)
  from this [of a] this [of n] show ?thesis by (auto simp: in_cidr_def)
qed

lemma byte_eq: "(b :: 8 word) = n \<longleftrightarrow> unat b = unat n"
  by (rule word_unat_eq_iff)

lemmas mask_simps = mask_f0 [unfolded byte_eq, simplified] mask_e0 [unfolded byte_eq, simplified]
  mask_fe [unfolded byte_eq, simplified] mask_c0 [unfolded byte_eq, simplified]

lemmas cidr_simps = in_cidr_first in_cidr_Cons in_cidr_zero byte_eq mask_simps

lemma blocked_quad:
  "list_ex (in_cidr [b0, b1, b2, b3]) blocked_v4 \<longleftrightarrow>
     [b0, b1, b2, b3] = [0, 0, 0, 0] \<or> b0 = 10 \<or> b0 = 127 \<or> b0 = 169 \<and> b1 = 254 \<or>
     b0 = 172 \<and> b1 AND 0xf0 = 16 \<or> b0 = 192 \<and> b1 = 168 \<or> b0 AND 0xf0 = 0xe0"
  by (simp add: blocked_v4_def cidr_simps)

lemma blocked_sixteen:
  assumes "length a = 16"
  shows "list_ex (in_cidr a) blocked_v6 \<longleftrightarrow>
     a = ipv6_unspecified \<or> a = ipv6_loopback \<or> a ! 0 AND 0xfe = 0xfc \<or>
     (a ! 0 = 0xfe \<and> a ! 1 AND 0xc0 = 0x80) \<or> a ! 0 = 0xff"
proof -
  obtain b0 b1 bs where a: "a = b0 # b1 # bs" and l: "length bs = 14"
    using assms by (auto simp: numeral_eq_Suc length_Suc_conv)
  have u: "v6_block 0 0 0 = ipv6_unspecified" "v6_block 0 0 1 = ipv6_loopback"
    by (simp_all add: v6_block_def ipv6_unspecified_def ipv6_loopback_def numeral_eq_Suc)
  have f: "in_cidr a (ipv6_unspecified, 128) \<longleftrightarrow> a = ipv6_unspecified"
    "in_cidr a (ipv6_loopback, 128) \<longleftrightarrow> a = ipv6_loopback"
    using in_cidr_full [of ipv6_unspecified 16 a] in_cidr_full [of ipv6_loopback 16 a]
    by (simp_all add: ipv6_unspecified_def ipv6_loopback_def)
  have "in_cidr a (v6_block 0xfc 0 0, 7) \<longleftrightarrow> b0 AND 0xfe = 0xfc"
    "in_cidr a (v6_block 0xfe 0x80 0, 10) \<longleftrightarrow> b0 = 0xfe \<and> b1 AND 0xc0 = 0x80"
    "in_cidr a (v6_block 0xff 0 0, 8) \<longleftrightarrow> b0 = 0xff"
    using l by (simp_all add: a v6_block_def cidr_simps)
  with f show ?thesis by (simp add: blocked_v6_def u a)
qed

lemma private_quad:
  assumes "to4 a = Some [b0, b1, b2, b3]"
  shows "is_private_or_reserved a \<longleftrightarrow>
     [b0, b1, b2, b3] = [0, 0, 0, 0] \<or> b0 = 10 \<or> b0 = 127 \<or> b0 = 169 \<and> b1 = 254 \<or>
     b0 = 172 \<and> b1 AND 0xf0 = 16 \<or> b0 = 192 \<and> b1 = 168 \<or> b0 AND 0xf0 = 0xe0"
proof -
  have e: "(224 :: 8 word) AND 0xf0 = 0xe0" by simp
  have "to4 ipv6_unspecified = None" by code_simp
  with assms have "a \<noteq> ipv6_unspecified" by auto
  with assms e show ?thesis
    by (auto simp: is_private_or_reserved_def ip_private_def ip_loopback_def
        ip_link_local_unicast_def ip_link_local_multicast_def ip_unspecified_def ip_multicast_def)
qed

section \<open>Properties\<close>

text \<open>C37: the SSRF classification is exactly the table of blocks: an IPv4 address, also one
  written as an IPv4-mapped IPv6 address, is refused when it lies in 0.0.0.0/32, 10/8, 127/8,
  169.254/16, 172.16/12, 192.168/16 or 224/4, and any other IPv6 address when it lies in ::/128,
  ::1/128, fc00::/7, fe80::/10 or ff00::/8.\<close>

theorem private_iff_blocked: "is_private_or_reserved a = blocked a"
proof (cases "to4 a")
  case (Some q)
  obtain b0 b1 b2 b3 where "q = [b0, b1, b2, b3]" using to4_length [OF Some] by (rule length4E)
  with Some show ?thesis by (simp add: private_quad blocked_def blocked_quad)
next
  case None
  show ?thesis
  proof (cases "length a = 16")
    case True
    with None show ?thesis
      by (auto simp: blocked_def blocked_sixteen is_private_or_reserved_def ip_private_def ip_loopback_def
          ip_link_local_unicast_def ip_link_local_multicast_def ip_unspecified_def ip_multicast_def)
  next
    case False
    then have "a \<noteq> ipv6_unspecified" "a \<noteq> ipv6_loopback"
      by (auto simp: ipv6_unspecified_def ipv6_loopback_def)
    moreover have "\<not> list_ex (in_cidr a) blocked_v6"
      using False by (auto simp: blocked_v6_def v6_block_def dest!: in_cidr_len)
    ultimately show ?thesis
      using None False
      by (auto simp: blocked_def is_private_or_reserved_def ip_private_def ip_loopback_def
          ip_link_local_unicast_def ip_link_local_multicast_def ip_unspecified_def ip_multicast_def)
  qed
qed

lemma unmap_v4: "to4 a = Some q \<Longrightarrow> unmap a = q \<and> to4 q = Some q"
  by (auto simp: unmap_def to4_def split: if_splits)

lemma not_global_quad:
  "list_ex (in_cidr [b0, b1, b2, b3]) not_global_v4 \<longleftrightarrow>
     b0 = 0 \<or> (b0 = 100 \<and> b1 \<ge> 64 \<and> b1 \<le> 127) \<or> b0 \<ge> 224"
proof -
  have "unat b1 div 64 = 1 \<longleftrightarrow> 64 \<le> b1 \<and> b1 \<le> 127" by (auto simp: word_le_nat_alt)
  moreover have "unat b0 div 32 = 7 \<longleftrightarrow> 224 \<le> b0"
    using byte_less [of b0] by (auto simp: word_le_nat_alt)
  ultimately show ?thesis by (simp add: not_global_v4_def cidr_simps)
qed

lemma public_quad:
  assumes "to4 a = Some [b0, b1, b2, b3]"
  shows "public_ip a \<longleftrightarrow>
     \<not> (b0 = 10 \<or> b0 = 127 \<or> b0 = 169 \<and> b1 = 254 \<or> b0 = 172 \<and> b1 AND 0xf0 = 16 \<or>
        b0 = 192 \<and> b1 = 168 \<or> b0 = 0 \<or> (b0 = 100 \<and> b1 \<ge> 64 \<and> b1 \<le> 127) \<or> b0 \<ge> 224)"
proof -
  let ?q = "[b0, b1, b2, b3]"
  have u: "unmap a = ?q" "to4 ?q = Some ?q" using unmap_v4 [OF assms] by auto
  have n: "?q \<noteq> ipv6_unspecified"
    by (auto simp: ipv6_unspecified_def dest: arg_cong [where f = length])
  have m: "ip_multicast ?q \<Longrightarrow> 224 \<le> b0"
    using mask_e0 [of b0] u by (auto simp: word_le_nat_alt ip_multicast_def)
  have z: "?q = [0, 0, 0, 0] \<Longrightarrow> b0 = 0" "?q = [255, 255, 255, 255] \<Longrightarrow> 224 \<le> b0" by simp_all
  have g: "global_unicast ?q \<longleftrightarrow> ?q \<noteq> [0, 0, 0, 0] \<and> ?q \<noteq> [255, 255, 255, 255] \<and>
      \<not> b0 = 127 \<and> \<not> ip_multicast ?q \<and> \<not> (b0 = 169 \<and> b1 = 254)"
    using n u by (simp add: global_unicast_def ip_loopback_def ip_link_local_unicast_def)
  have p: "ip_private ?q \<longleftrightarrow> b0 = 10 \<or> b0 = 172 \<and> b1 AND 0xf0 = 16 \<or> b0 = 192 \<and> b1 = 168"
    "ip_loopback ?q \<longleftrightarrow> b0 = 127" "ip_link_local_unicast ?q \<longleftrightarrow> b0 = 169 \<and> b1 = 254"
    using u by (simp_all add: ip_private_def ip_loopback_def ip_link_local_unicast_def)
  have l: "length ?q = 4" "?q ! 0 = b0" "?q ! 1 = b1" by simp_all
  show ?thesis
    unfolding public_ip_def Let_def u(1) g p l if_bool_eq_disj simp_thms using m z by argo
qed

text \<open>The radio host check of the slates accepts exactly the addresses the SSRF policy accepts
  that are moreover outside 0/8, 100.64/10 and 224/3; so the SSRF policy lets through shared
  address space (100.64/10) that the slate check calls non-public.\<close>

theorem public_ip_iff:
  "public_ip a \<longleftrightarrow>
     (length a = 4 \<or> length a = 16) \<and> \<not> is_private_or_reserved a \<and>
     (case to4 a of None \<Rightarrow> True | Some q \<Rightarrow> \<not> list_ex (in_cidr q) not_global_v4)"
proof (cases "to4 a")
  case (Some q)
  obtain b0 b1 b2 b3 where q: "q = [b0, b1, b2, b3]" using to4_length [OF Some] by (rule length4E)
  have len: "length a = 4 \<or> length a = 16" using Some by (auto simp: to4_def split: if_splits)
  have z: "b0 AND 0xf0 = 0xe0 \<Longrightarrow> 224 \<le> b0" "[b0, b1, b2, b3] = [0, 0, 0, 0] \<Longrightarrow> b0 = 0"
    using mask_e0 [of b0] by (auto simp: word_le_nat_alt)
  note t = Some [unfolded q]
  show ?thesis
    unfolding public_quad [OF t] private_quad [OF t] t option.case not_global_quad using len z by blast
next
  case None
  then have "unmap a = a" "length a \<noteq> 4" by (simp_all add: unmap_def to4_def split: if_splits)
  with None show ?thesis
    by (auto simp: public_ip_def global_unicast_def is_private_or_reserved_def ip_private_def ip_unspecified_def
        ip_loopback_def ip_link_local_unicast_def ip_link_local_multicast_def ip_multicast_def)
qed

end
