(* ===== verification/Ssrf.thy ===== *)
theory Ssrf imports Urls IpAddr begin

text \<open>
  The outbound side of the gateway: \<open>internal/gatewayhttp/ssrf.go\<close> and the fetch path of
  \<open>handler.go\<close> (\<open>sourceDialContext\<close>, \<open>isSourcePrivate\<close>, \<open>fetchWithHeaderTimeout\<close>).

  What the network answers is an argument: name resolution, the address a dial ends at, the
  reply of a server, one per hop, so they may change between a check and the connection it
  was made for. The idle connections of the shared \<open>http.Transport\<close> are a list from the host
  they were dialled for to the address they reach.
\<close>

section \<open>Name resolution and the target check\<close>

type_synonym resolver = "string \<Rightarrow> (go_error, bool) result"

definition host_resolves_to_private ::
  "(string \<Rightarrow> ip option) \<Rightarrow> (string \<Rightarrow> (go_error, ip list) result) \<Rightarrow> resolver" where
  "host_resolves_to_private parse_ip lookup host =
     (case parse_ip host of
        Some a \<Rightarrow> Inr (is_private_or_reserved a)
      | None \<Rightarrow>
          (case lookup host of
             Inl e \<Rightarrow> Inl e
           | Inr addrs \<Rightarrow>
               if addrs = [] then Inl (err_text ''no addresses returned'')
               else Inr (list_ex is_private_or_reserved addrs)))"

definition check_fetch_target :: "resolver \<Rightarrow> url \<Rightarrow> bool \<Rightarrow> (go_error, unit) result" where
  "check_fetch_target resolve target source_trusts_private =
     (if u_scheme target \<noteq> ''http'' \<and> u_scheme target \<noteq> ''https''
      then Inl (err_text ''disallowed scheme'')
      else if source_trusts_private then Inr ()
      else (case resolve (hostname target) of
              Inl e \<Rightarrow> Inl (wrap_error ''resolving'' e)
            | Inr private \<Rightarrow>
                if private then Inl (err_text ''target host resolves to a private/reserved address'')
                else Inr ()))"

lemma check_fetch_target_ok:
  "check_fetch_target resolve target trusts = Inr () \<longleftrightarrow>
     (u_scheme target = ''http'' \<or> u_scheme target = ''https'') \<and>
     (trusts \<or> resolve (hostname target) = Inr False)"
  by (auto simp: check_fetch_target_def split: sum.splits)

section \<open>Is the source itself private?\<close>

record trust_entry =
  te_private :: bool
  te_checked_at :: time

type_synonym trust_cache = "int \<rightharpoonup> trust_entry"

definition source_trust_cache_ttl :: duration where
  "source_trust_cache_ttl = 5 * minute"

definition is_source_private ::
  "resolver \<Rightarrow> time \<Rightarrow> trust_cache \<Rightarrow> int \<Rightarrow> bool \<Rightarrow> url \<Rightarrow> bool \<times> trust_cache" where
  "is_source_private resolve now cache stream_id trust_private_source source_entry =
     (if \<not> trust_private_source then (False, cache)
      else (let ask =
              (let private = (case resolve (hostname source_entry) of Inl e \<Rightarrow> False | Inr p \<Rightarrow> p)
               in (private, cache(stream_id \<mapsto> \<lparr>te_private = private, te_checked_at = now\<rparr>)))
            in (case cache stream_id of
                  Some e \<Rightarrow>
                    if time_sub now (te_checked_at e) < source_trust_cache_ttl then (te_private e, cache)
                    else ask
                | None \<Rightarrow> ask)))"

section \<open>Dialling and redirects\<close>

text \<open>An address a dial ended at: \<open>None\<close> when the connection is not TCP.\<close>

type_synonym remote = "ip option"

definition remote_private :: "remote \<Rightarrow> bool" where
  "remote_private r = (case r of None \<Rightarrow> True | Some a \<Rightarrow> is_private_or_reserved a)"

definition source_dial :: "(go_error, remote) result \<Rightarrow> bool \<Rightarrow> (go_error, remote) result" where
  "source_dial dialled public_only =
     (case dialled of
        Inl e \<Rightarrow> Inl e
      | Inr r \<Rightarrow>
          if \<not> public_only then Inr r
          else if remote_private r
          then Inl (blocked_error ''source resolves to a private/reserved address'')
          else Inr r)"

type_synonym pool = "(string \<times> remote) list"

datatype 'r answer = Redirect url | Reply 'r

text \<open>What the network does at hop \<open>n\<close> of a fetch.\<close>

record 'r network =
  nw_resolve :: "nat \<Rightarrow> resolver"
  nw_dial :: "nat \<Rightarrow> string \<Rightarrow> (go_error, remote) result"
  nw_answer :: "nat \<Rightarrow> url \<Rightarrow> (go_error, 'r answer) result"

text \<open>The transport reuses an idle connection to the host and otherwise dials; a connection made is
  kept for reuse.\<close>

definition pool_key :: "url \<Rightarrow> string" where
  "pool_key u = u_scheme u @ ''|'' @ u_host u"

definition transport_connect ::
  "'r network \<Rightarrow> nat \<Rightarrow> bool \<Rightarrow> pool \<Rightarrow> url \<Rightarrow> (go_error, remote) result \<times> pool" where
  "transport_connect net n public_only p u =
     (case map_of p (pool_key u) of
        Some r \<Rightarrow> (Inr r, p)
      | None \<Rightarrow>
          (case source_dial (nw_dial net n (u_host u)) public_only of
             Inl e \<Rightarrow> (Inl e, p)
           | Inr r \<Rightarrow> (Inr r, (pool_key u, r) # p)))"

definition max_hops :: nat where
  "max_hops = 5"

definition check_redirect :: "resolver \<Rightarrow> nat \<Rightarrow> url \<Rightarrow> bool \<Rightarrow> (go_error, unit) result" where
  "check_redirect resolve via target source_private =
     (if via \<ge> max_hops then Inl (blocked_error ''stopped after 5 redirects'')
      else (case check_fetch_target resolve target source_private of
              Inl e \<Rightarrow> Inl (blocked_error (''refusing to follow redirect: '' @ e_msg e))
            | Inr _ \<Rightarrow> Inr ()))"

record 'r fetched =
  f_trace :: "(url \<times> remote) list"
  f_pool :: pool
  f_result :: "(url \<times> go_error, url \<times> 'r) result"

text \<open>\<open>client.Do\<close>: \<open>via\<close> counts the requests sent before this one.\<close>

function client_do :: "'r network \<Rightarrow> bool \<Rightarrow> bool \<Rightarrow> nat \<Rightarrow> pool \<Rightarrow> url \<Rightarrow> 'r fetched" where
  "client_do net public_only source_private via p u =
     (case transport_connect net via public_only p u of
        (Inl e, p') \<Rightarrow> \<lparr>f_trace = [], f_pool = p', f_result = Inl (u, e)\<rparr>
      | (Inr r, p') \<Rightarrow>
          (case nw_answer net via u of
             Inl e \<Rightarrow> \<lparr>f_trace = [(u, r)], f_pool = p', f_result = Inl (u, e)\<rparr>
           | Inr (Reply x) \<Rightarrow> \<lparr>f_trace = [(u, r)], f_pool = p', f_result = Inr (u, x)\<rparr>
           | Inr (Redirect v) \<Rightarrow>
               (case check_redirect (nw_resolve net (Suc via)) (Suc via) v source_private of
                  Inl e \<Rightarrow> \<lparr>f_trace = [(u, r)], f_pool = p', f_result = Inl (u, e)\<rparr>
                | Inr _ \<Rightarrow>
                    (let rest = client_do net public_only source_private (Suc via) p' v
                     in rest\<lparr>f_trace := (u, r) # f_trace rest\<rparr>))))"
  by pat_completeness auto
termination
  by (relation "measure (\<lambda>(net, po, sp, via, p, u). max_hops - via)")
    (auto simp: check_redirect_def split: if_splits)

declare client_do.simps [simp del]

section \<open>Lemmas\<close>

definition pool_public :: "pool \<Rightarrow> bool" where
  "pool_public p \<longleftrightarrow> (\<forall>(k, r) \<in> set p. \<not> remote_private r)"

lemma pool_public_simps [simp]:
  "pool_public []"
  "pool_public ((k, r) # p) \<longleftrightarrow> \<not> remote_private r \<and> pool_public p"
  by (auto simp: pool_public_def)

lemma source_dial_public: "source_dial d True = Inr r \<Longrightarrow> \<not> remote_private r"
  by (auto simp: source_dial_def split: sum.splits if_splits)

lemma transport_connect_public:
  assumes "transport_connect net n True p u = (res, p')" and "pool_public p"
  shows "pool_public p' \<and> (\<forall>r. res = Inr r \<longrightarrow> \<not> remote_private r)"
  using assms
  by (auto simp: transport_connect_def pool_public_def split: option.splits sum.splits
      dest: map_of_SomeD source_dial_public source_dial_public [OF sym])

lemma check_redirect_ok:
  "check_redirect resolve via target sp = Inr x \<longleftrightarrow>
     via < max_hops \<and> check_fetch_target resolve target sp = Inr ()"
  by (auto simp: check_redirect_def split: sum.splits)

text \<open>One step of \<open>client.Do\<close>, by the outcome of the connection and of the reply.\<close>

lemma client_do_induct:
  assumes fail: "\<And>via p u e p'. transport_connect net via po p u = (Inl e, p') \<Longrightarrow>
      P via p u \<lparr>f_trace = [], f_pool = p', f_result = Inl (u, e)\<rparr>"
    and last: "\<And>via p u r p' out. transport_connect net via po p u = (Inr r, p') \<Longrightarrow>
      P via p u \<lparr>f_trace = [(u, r)], f_pool = p', f_result = out\<rparr>"
    and step: "\<And>via p u r p' v. transport_connect net via po p u = (Inr r, p') \<Longrightarrow>
      Suc via < max_hops \<Longrightarrow> check_fetch_target (nw_resolve net (Suc via)) v sp = Inr () \<Longrightarrow>
      P (Suc via) p' v (client_do net po sp (Suc via) p' v) \<Longrightarrow>
      P via p u ((client_do net po sp (Suc via) p' v)
        \<lparr>f_trace := (u, r) # f_trace (client_do net po sp (Suc via) p' v)\<rparr>)"
  shows "P via p u (client_do net po sp via p u)"
proof (induction "max_hops - via" arbitrary: via p u rule: less_induct)
  case less
  obtain res p' where c: "transport_connect net via po p u = (res, p')" by fastforce
  show ?case
  proof (cases res)
    case (Inl e)
    with c fail show ?thesis by (simp add: client_do.simps [of net po sp via p u])
  next
    case (Inr r)
    note c = c [unfolded Inr]
    show ?thesis
    proof (cases "nw_answer net via u")
      case (Inl e)
      with c last show ?thesis by (simp add: client_do.simps [of net po sp via p u])
    next
      case (Inr a)
      show ?thesis
      proof (cases a)
        case (Reply x)
        with Inr c last show ?thesis by (simp add: client_do.simps [of net po sp via p u])
      next
        case (Redirect v)
        show ?thesis
        proof (cases "check_redirect (nw_resolve net (Suc via)) (Suc via) v sp")
          case (Inl e)
          with Redirect \<open>nw_answer net via u = Inr a\<close> c last show ?thesis
            by (simp add: client_do.simps [of net po sp via p u])
        next
          case ok: (Inr x)
          then have k: "Suc via < max_hops" "check_fetch_target (nw_resolve net (Suc via)) v sp = Inr ()"
            by (simp_all add: check_redirect_ok)
          then have "P (Suc via) p' v (client_do net po sp (Suc via) p' v)" by (intro less) simp
          with step [OF c k] ok Redirect Inr c show ?thesis
            by (simp add: client_do.simps [of net po sp via p u] Let_def)
        qed
      qed
    qed
  qed
qed

lemma client_do_public:
  assumes "pool_public p"
  shows "pool_public (f_pool (client_do net True sp via p u)) \<and>
    (\<forall>(v, r) \<in> set (f_trace (client_do net True sp via p u)). \<not> remote_private r)"
proof -
  have "pool_public p \<longrightarrow> pool_public (f_pool (client_do net True sp via p u)) \<and>
      (\<forall>(v, r) \<in> set (f_trace (client_do net True sp via p u)). \<not> remote_private r)"
    by (rule client_do_induct [where P = "\<lambda>via p u f. pool_public p \<longrightarrow>
          pool_public (f_pool f) \<and> (\<forall>(v, r) \<in> set (f_trace f). \<not> remote_private r)"])
      (auto dest: transport_connect_public)
  with assms show ?thesis by simp
qed

lemma client_do_length:
  assumes "via < max_hops"
  shows "length (f_trace (client_do net po sp via p u)) \<le> max_hops - via"
proof -
  have "via < max_hops \<longrightarrow> length (f_trace (client_do net po sp via p u)) \<le> max_hops - via"
    by (rule client_do_induct [where P = "\<lambda>via p u f. via < max_hops \<longrightarrow> length (f_trace f) \<le> max_hops - via"])
      auto
  with assms show ?thesis by simp
qed

lemma client_do_first: "f_trace (client_do net po sp via p u) ! 0 = (v, r) \<Longrightarrow>
  f_trace (client_do net po sp via p u) \<noteq> [] \<Longrightarrow> v = u"
  by (auto simp: client_do.simps [of net po sp via p u] Let_def split: prod.splits sum.splits answer.splits)

text \<open>Every request after the first is one the target check accepted at that hop.\<close>

lemma client_do_hops_checked:
  assumes "0 < k" and "k < length (f_trace (client_do net po sp via p u))"
    and "f_trace (client_do net po sp via p u) ! k = (v, r)"
  shows "check_fetch_target (nw_resolve net (via + k)) v sp = Inr ()"
proof -
  have "\<forall>k v r. 0 < k \<longrightarrow> k < length (f_trace (client_do net po sp via p u)) \<longrightarrow>
      f_trace (client_do net po sp via p u) ! k = (v, r) \<longrightarrow>
      check_fetch_target (nw_resolve net (via + k)) v sp = Inr ()" (is "?Q via (client_do net po sp via p u)")
  proof (rule client_do_induct [where P = "\<lambda>via p u f. ?Q via f"])
    fix via :: nat and p u r p' v
    let ?t = "f_trace (client_do net po sp (Suc via) p' v)"
    assume c: "check_fetch_target (nw_resolve net (Suc via)) v sp = Inr ()"
      and IH: "?Q (Suc via) (client_do net po sp (Suc via) p' v)"
    show "?Q via (client_do net po sp (Suc via) p' v\<lparr>f_trace := (u, r) # ?t\<rparr>)"
    proof (intro allI impI)
      fix k w q
      assume k: "0 < k" "k < length (f_trace (client_do net po sp (Suc via) p' v\<lparr>f_trace := (u, r) # ?t\<rparr>))"
        and e: "f_trace (client_do net po sp (Suc via) p' v\<lparr>f_trace := (u, r) # ?t\<rparr>) ! k = (w, q)"
      then obtain j where j: "k = Suc j" "j < length ?t" "?t ! j = (w, q)" by (cases k) auto
      show "check_fetch_target (nw_resolve net (via + k)) w sp = Inr ()"
      proof (cases "j = 0")
        case True
        with j client_do_first [of net po sp "Suc via" p' v w q] have "w = v" by auto
        with c True j show ?thesis by simp
      next
        case False
        with IH j show ?thesis by (metis add_Suc_shift gr0I)
      qed
    qed
  qed simp_all
  with assms show ?thesis by blast
qed

end
