(* ===== verification/Schema.thy ===== *)
theory Schema imports NodeProto begin

text \<open>
  The tables of the shared SQLite database (\<open>migrations/\<close>) as the Go programs see them: a row is a
  record, a table is a list of rows in rowid order, NULL is \<open>None\<close>, and \<open>db\<close> is the database.
  Columns that no Go query reads or writes are left out.

  Every operation on the database takes a flag that says whether the engine answers it; when it
  does not, the operation returns its error and the database is unchanged.
\<close>

section \<open>Rows\<close>

record operator_row =
  op_id :: int
  op_role :: string
  op_status :: string
  op_allow_remux :: int
  op_allow_always_on :: int
  op_github_token_enc :: "string option"
  op_scan_requested_at :: "string option"

record stream_row =
  st_id :: int
  st_name :: string
  st_source_type :: string
  st_source_url :: string
  st_source_username :: "string option"
  st_source_password_enc :: "string option"
  st_status :: string
  st_disabled_at :: "string option"
  st_rotation_mode :: string
  st_replacement_reason :: string
  st_replacement_message :: "string option"
  st_owner_id :: "int option"
  st_always_on :: int
  st_node_id :: "int option"

record node_row =
  nr_id :: int
  nr_name :: string
  nr_public_url :: string
  nr_token_hash :: string
  nr_secret_enc :: string
  nr_status :: string
  nr_last_seen_at :: "string option"
  nr_last_status_json :: "string option"

record ap_row =
  ap_id :: int
  ap_stream_id :: int
  ap_public_path :: string
  ap_visibility :: string
  ap_output_format :: string
  ap_status :: string
  ap_revoked_at :: "string option"
  ap_path_is_secret :: int

record token_row =
  tk_id :: int
  tk_ap_id :: int
  tk_hash :: string
  tk_expires_at :: "string option"
  tk_revoked_at :: "string option"
  tk_revoked_reason :: "string option"
  tk_last_used_at :: "string option"

record runtime_row =
  rt_stream_id :: int
  rt_state :: string
  rt_detail :: string
  rt_updated_at :: string

record incident_row =
  in_id :: int
  in_stream_id :: "int option"
  in_token_id :: "int option"
  in_source :: string
  in_source_url :: string
  in_status :: string
  in_actions :: "string option"

record finding_row =
  fi_id :: int
  fi_incident_id :: "int option"
  fi_source :: string
  fi_source_url :: string
  fi_matched :: string
  fi_confidence :: string
  fi_dedupe_key :: string
  fi_ap_id :: "int option"
  fi_token_id :: "int option"

record source_row =
  ls_id :: int
  ls_provider :: string
  ls_identifier :: string
  ls_enabled :: int
  ls_last_scanned_at :: "string option"
  ls_owner_id :: "int option"

record run_row =
  rn_id :: int
  rn_started_at :: string
  rn_finished_at :: "string option"
  rn_streams_checked :: int
  rn_queries_made :: int
  rn_findings_created :: int
  rn_error :: "string option"
  rn_owner_id :: "int option"

record reply_row =
  rp_source_url :: string
  rp_incident_id :: "int option"
  rp_comment_url :: string
  rp_actor :: string

record audit_row =
  au_actor :: string
  au_action :: string
  au_target :: string
  au_details :: string

section \<open>The database\<close>

record db =
  db_operators :: "operator_row list"
  db_streams :: "stream_row list"
  db_nodes :: "node_row list"
  db_aps :: "ap_row list"
  db_tokens :: "token_row list"
  db_settings :: "(string \<times> string) list"
  db_slate_texts :: "(string \<times> string \<times> string) list"
  db_runtime :: "runtime_row list"
  db_incidents :: "incident_row list"
  db_findings :: "finding_row list"
  db_sources :: "source_row list"
  db_runs :: "run_row list"
  db_lock :: "string option"
  db_replies :: "reply_row list"
  db_audit :: "audit_row list"

definition empty_db :: db where
  "empty_db =
     \<lparr>db_operators = [], db_streams = [], db_nodes = [], db_aps = [], db_tokens = [], db_settings = [],
      db_slate_texts = [], db_runtime = [], db_incidents = [], db_findings = [], db_sources = [], db_runs = [],
      db_lock = None, db_replies = [], db_audit = []\<rparr>"

text \<open>The key AUTOINCREMENT gives to a new row of a table nothing is deleted from.\<close>

definition next_rowid :: "int list \<Rightarrow> int" where
  "next_rowid ids = fold max ids 0 + 1"

lemma fold_max_ge: "(a :: int) \<le> fold max xs a \<and> (\<forall>x \<in> set xs. x \<le> fold max xs a)"
proof (induction xs arbitrary: a)
  case (Cons y ys)
  from Cons [of "max y a"] show ?case by auto
qed simp

lemma next_rowid_fresh: "next_rowid ids \<notin> set ids"
  using fold_max_ge [where a = 0 and xs = ids] by (fastforce simp: next_rowid_def)

section \<open>Time in the database\<close>

text \<open>
  What the programs ask of the clock: the time, the database's own stamp of it
  (\<open>strftime('%Y-%m-%dT%H:%M:%fZ','now')\<close>), and the parser of stamps with one layout.
\<close>

record clock =
  ck_now :: time
  ck_stamp :: string
  ck_parse_rfc3339 :: "string \<Rightarrow> time option"
  ck_parse_stamp :: "string \<Rightarrow> time option"

text \<open>SQLite compares texts byte by byte.\<close>

fun str_less :: "string \<Rightarrow> string \<Rightarrow> bool" where
  "str_less xs [] = False"
| "str_less [] (y # ys) = True"
| "str_less (x # xs) (y # ys) =
     (if (of_char x :: nat) = of_char y then str_less xs ys else (of_char x :: nat) < of_char y)"

lemma str_less_irrefl [simp]: "\<not> str_less s s"
  by (induction s) auto

section \<open>Lookups by key\<close>

definition operator_by_id :: "db \<Rightarrow> int \<Rightarrow> operator_row option" where
  "operator_by_id D i = List.find (\<lambda>r. op_id r = i) (db_operators D)"

definition stream_by_id :: "db \<Rightarrow> int \<Rightarrow> stream_row option" where
  "stream_by_id D i = List.find (\<lambda>r. st_id r = i) (db_streams D)"

definition node_by_id :: "db \<Rightarrow> int \<Rightarrow> node_row option" where
  "node_by_id D i = List.find (\<lambda>r. nr_id r = i) (db_nodes D)"

definition ap_by_id :: "db \<Rightarrow> int \<Rightarrow> ap_row option" where
  "ap_by_id D i = List.find (\<lambda>r. ap_id r = i) (db_aps D)"

definition token_by_id :: "db \<Rightarrow> int \<Rightarrow> token_row option" where
  "token_by_id D i = List.find (\<lambda>r. tk_id r = i) (db_tokens D)"

definition owner_of :: "db \<Rightarrow> stream_row \<Rightarrow> operator_row option" where
  "owner_of D st = (case st_owner_id st of None \<Rightarrow> None | Some i \<Rightarrow> operator_by_id D i)"

definition node_of :: "db \<Rightarrow> stream_row \<Rightarrow> node_row option" where
  "node_of D st = (case st_node_id st of None \<Rightarrow> None | Some i \<Rightarrow> node_by_id D i)"

text \<open>The constraints of the schema the programs rely on: primary and unique keys.\<close>

definition schema_ok :: "db \<Rightarrow> bool" where
  "schema_ok D \<longleftrightarrow>
     distinct (map st_id (db_streams D)) \<and> distinct (map ap_id (db_aps D)) \<and>
     distinct (map ap_public_path (db_aps D)) \<and> distinct (map tk_id (db_tokens D)) \<and>
     distinct (map tk_hash (db_tokens D)) \<and> distinct (map nr_id (db_nodes D)) \<and>
     distinct (map op_id (db_operators D)) \<and> distinct (map fst (db_settings D)) \<and>
     distinct (map rt_stream_id (db_runtime D)) \<and> distinct (map fi_dedupe_key (db_findings D)) \<and>
     distinct (map rp_source_url (db_replies D)) \<and> distinct (map in_id (db_incidents D))"

lemma find_by_key:
  "distinct (map k xs) \<Longrightarrow> x \<in> set xs \<Longrightarrow> List.find (\<lambda>r. k r = k x) xs = Some x"
  by (rule find_SomeI_unique) (auto simp: distinct_map dest: inj_onD)

lemma find_by_keyD: "List.find (\<lambda>r. k r = i) xs = Some x \<Longrightarrow> x \<in> set xs \<and> k x = i"
  by (auto dest: find_Some_in)

lemma token_by_idD: "token_by_id D i = Some r \<Longrightarrow> r \<in> set (db_tokens D) \<and> tk_id r = i"
  by (auto simp: token_by_id_def dest: find_by_keyD)

lemma stream_by_idD: "stream_by_id D i = Some r \<Longrightarrow> r \<in> set (db_streams D) \<and> st_id r = i"
  by (auto simp: stream_by_id_def dest: find_by_keyD)

end
