(* ===== verification/Store.thy ===== *)
theory Store imports Schema "HOL-Library.AList" begin

text \<open>
  \<open>internal/store/store.go\<close>: the gateway's queries and its few writes. A \<open>sql.NullString\<close> is an
  option. Opening and closing the database is I/O and has no definition.
\<close>

section \<open>Types\<close>

datatype store_error = ErrNotFound | DbFailed

record node_ref =
  nf_id :: int
  nf_public_url :: string
  nf_secret_enc :: string
  nf_status :: string
  nf_last_seen_at :: "string option"

record stream =
  s_id :: int
  s_name :: string
  s_source_type :: string
  s_source_url :: string
  s_source_username :: "string option"
  s_source_password_enc :: "string option"
  s_status :: string
  s_disabled_at :: "string option"
  s_replacement_reason :: string
  s_replacement_message :: "string option"
  s_allow_remux :: bool
  s_trust_private_source :: bool
  s_node :: "node_ref option"

record access_point =
  a_id :: int
  a_stream_id :: int
  a_public_path :: string
  a_visibility :: string
  a_output_format :: string
  a_status :: string
  a_revoked_at :: "string option"
  a_stream :: stream

datatype token_status = TokenInvalid | TokenValid | TokenRevoked | TokenExpired

record token_info =
  ti_id :: int
  ti_status :: token_status
  ti_revoked_at :: "string option"
  ti_expires_at :: "string option"

section \<open>Streams and access points\<close>

definition scan_stream :: "stream_row \<Rightarrow> bool \<Rightarrow> bool \<Rightarrow> node_ref option \<Rightarrow> stream" where
  "scan_stream r allow_remux trust node =
     \<lparr>s_id = st_id r, s_name = st_name r, s_source_type = st_source_type r,
      s_source_url = st_source_url r, s_source_username = st_source_username r,
      s_source_password_enc = st_source_password_enc r, s_status = st_status r,
      s_disabled_at = st_disabled_at r, s_replacement_reason = st_replacement_reason r,
      s_replacement_message = st_replacement_message r, s_allow_remux = allow_remux,
      s_trust_private_source = trust, s_node = node\<rparr>"

text \<open>\<open>CASE WHEN owner.role = 'user' THEN owner.allow_remux ELSE 1 END\<close>\<close>

definition remux_allowed :: "operator_row option \<Rightarrow> bool" where
  "remux_allowed owner =
     (case owner of None \<Rightarrow> True | Some o' \<Rightarrow> if op_role o' = ''user'' then op_allow_remux o' \<noteq> 0 else True)"

text \<open>\<open>CASE WHEN owner.id IS NULL OR owner.role = 'admin' THEN 1 ELSE 0 END\<close>\<close>

definition private_trusted :: "operator_row option \<Rightarrow> bool" where
  "private_trusted owner = (case owner of None \<Rightarrow> True | Some o' \<Rightarrow> op_role o' = ''admin'')"

definition node_ref_of :: "node_row \<Rightarrow> node_ref" where
  "node_ref_of n =
     \<lparr>nf_id = nr_id n, nf_public_url = nr_public_url n, nf_secret_enc = nr_secret_enc n,
      nf_status = nr_status n, nf_last_seen_at = nr_last_seen_at n\<rparr>"

definition resolve_access_point :: "bool \<Rightarrow> db \<Rightarrow> string \<Rightarrow> (store_error, access_point) result" where
  "resolve_access_point up D public_path =
     (if \<not> up then Inl DbFailed
      else (case List.find (\<lambda>a. ap_public_path a = public_path \<and> stream_by_id D (ap_stream_id a) \<noteq> None)
                   (db_aps D) of
              None \<Rightarrow> Inl ErrNotFound
            | Some a \<Rightarrow>
                (case stream_by_id D (ap_stream_id a) of
                   None \<Rightarrow> Inl ErrNotFound
                 | Some st \<Rightarrow>
                     Inr \<lparr>a_id = ap_id a, a_stream_id = ap_stream_id a, a_public_path = ap_public_path a,
                          a_visibility = ap_visibility a, a_output_format = ap_output_format a,
                          a_status = ap_status a, a_revoked_at = ap_revoked_at a,
                          a_stream = scan_stream st (remux_allowed (owner_of D st))
                            (private_trusted (owner_of D st)) (map_option node_ref_of (node_of D st))\<rparr>)))"

definition always_on_permitted :: "operator_row option \<Rightarrow> bool" where
  "always_on_permitted owner =
     (case owner of
        None \<Rightarrow> True
      | Some o' \<Rightarrow> op_role o' = ''admin'' \<or>
          op_status o' = ''active'' \<and> op_allow_always_on o' = 1 \<and> op_allow_remux o' = 1)"

definition always_on_streams :: "bool \<Rightarrow> db \<Rightarrow> (store_error, stream list) result" where
  "always_on_streams up D =
     (if \<not> up then Inl DbFailed
      else Inr (map (\<lambda>st. scan_stream st True (private_trusted (owner_of D st)) None)
             (sort_key st_id (filter (\<lambda>st. st_always_on st = 1 \<and> st_status st = ''active'' \<and>
                st_node_id st = None \<and> always_on_permitted (owner_of D st)) (db_streams D)))))"

definition node_streams :: "bool \<Rightarrow> db \<Rightarrow> int \<Rightarrow> (store_error, stream list) result" where
  "node_streams up D node_id =
     (if \<not> up then Inl DbFailed
      else Inr (map (\<lambda>st. scan_stream st True (private_trusted (owner_of D st)) None)
             (sort_key st_id (filter (\<lambda>st. st_node_id st = Some node_id \<and> st_status st = ''active'')
                (db_streams D)))))"

section \<open>Tokens\<close>

definition validate_token ::
  "hashes \<Rightarrow> clock \<Rightarrow> bool \<Rightarrow> db \<Rightarrow> int \<Rightarrow> string \<Rightarrow> (store_error, token_info) result" where
  "validate_token H ck up D access_point_id raw_token =
     (let hash = hex_encode (sha256 H raw_token)
      in if \<not> up then Inl DbFailed
         else (case List.find (\<lambda>t. tk_ap_id t = access_point_id \<and> tk_hash t = hash) (db_tokens D) of
                 None \<Rightarrow> Inr \<lparr>ti_id = 0, ti_status = TokenInvalid, ti_revoked_at = None, ti_expires_at = None\<rparr>
               | Some t \<Rightarrow>
                   (case tk_revoked_at t of
                      Some r \<Rightarrow> Inr \<lparr>ti_id = tk_id t, ti_status = TokenRevoked,
                                  ti_revoked_at = Some r, ti_expires_at = tk_expires_at t\<rparr>
                    | None \<Rightarrow>
                        (case tk_expires_at t of
                           None \<Rightarrow> Inr \<lparr>ti_id = tk_id t, ti_status = TokenValid,
                                       ti_revoked_at = None, ti_expires_at = None\<rparr>
                         | Some e \<Rightarrow>
                             (case ck_parse_rfc3339 ck e of
                                Some expiry \<Rightarrow>
                                  if ck_now ck > expiry
                                  then Inr \<lparr>ti_id = tk_id t, ti_status = TokenExpired,
                                            ti_revoked_at = None, ti_expires_at = Some e\<rparr>
                                  else Inr \<lparr>ti_id = tk_id t, ti_status = TokenValid,
                                            ti_revoked_at = None, ti_expires_at = None\<rparr>
                              | None \<Rightarrow> Inr \<lparr>ti_id = tk_id t, ti_status = TokenValid,
                                            ti_revoked_at = None, ti_expires_at = None\<rparr>)))))"

definition touch_token :: "clock \<Rightarrow> bool \<Rightarrow> db \<Rightarrow> int \<Rightarrow> db" where
  "touch_token ck up D token_id =
     (if \<not> up then D
      else D\<lparr>db_tokens := map (\<lambda>t. if tk_id t = token_id then t\<lparr>tk_last_used_at := Some (ck_stamp ck)\<rparr> else t)
                            (db_tokens D)\<rparr>)"

section \<open>Settings, texts and relay state\<close>

definition set_setting :: "bool \<Rightarrow> db \<Rightarrow> string \<Rightarrow> string \<Rightarrow> (store_error, db) result" where
  "set_setting up D key v =
     (if \<not> up then Inl DbFailed
      else Inr (D\<lparr>db_settings := AList.update key v (db_settings D)\<rparr>))"

definition slate_text_row :: "bool \<Rightarrow> db \<Rightarrow> string \<Rightarrow> (store_error, string \<times> string) result" where
  "slate_text_row up D reason =
     (if \<not> up then Inl DbFailed
      else (case map_of (db_slate_texts D) reason of None \<Rightarrow> Inl ErrNotFound | Some t \<Rightarrow> Inr t))"

definition put_runtime :: "runtime_row \<Rightarrow> runtime_row list \<Rightarrow> runtime_row list" where
  "put_runtime r rs =
     (if rt_stream_id r \<in> rt_stream_id ` set rs
      then map (\<lambda>x. if rt_stream_id x = rt_stream_id r then r else x) rs
      else rs @ [r])"

text \<open>The row's stream must exist (foreign key).\<close>

definition set_runtime :: "clock \<Rightarrow> bool \<Rightarrow> db \<Rightarrow> int \<Rightarrow> string \<Rightarrow> string \<Rightarrow> (store_error, db) result" where
  "set_runtime ck up D stream_id state detail =
     (if \<not> up \<or> stream_by_id D stream_id = None then Inl DbFailed
      else Inr (D\<lparr>db_runtime := put_runtime
             \<lparr>rt_stream_id = stream_id, rt_state = state, rt_detail = detail, rt_updated_at = ck_stamp ck\<rparr>
             (db_runtime D)\<rparr>))"

definition clear_runtime :: "bool \<Rightarrow> db \<Rightarrow> int list \<Rightarrow> (store_error, db) result" where
  "clear_runtime up D keep =
     (if \<not> up then Inl DbFailed
      else if keep = [] then Inr (D\<lparr>db_runtime := []\<rparr>)
      else Inr (D\<lparr>db_runtime := filter (\<lambda>r. rt_stream_id r \<in> set keep) (db_runtime D)\<rparr>))"

section \<open>Nodes\<close>

definition store_node_by_id :: "bool \<Rightarrow> db \<Rightarrow> int \<Rightarrow> (store_error, node_row) result" where
  "store_node_by_id up D node_id =
     (if \<not> up then Inl DbFailed
      else (case node_by_id D node_id of None \<Rightarrow> Inl ErrNotFound | Some n \<Rightarrow> Inr n))"

definition ap_node :: "db \<Rightarrow> ap_row \<Rightarrow> int option" where
  "ap_node D a = (case stream_by_id D (ap_stream_id a) of None \<Rightarrow> None | Some st \<Rightarrow> st_node_id st)"

definition token_node :: "db \<Rightarrow> token_row \<Rightarrow> int option" where
  "token_node D t = (case ap_by_id D (tk_ap_id t) of None \<Rightarrow> None | Some a \<Rightarrow> ap_node D a)"

definition token_dead :: "clock \<Rightarrow> token_row \<Rightarrow> bool" where
  "token_dead ck t \<longleftrightarrow>
     tk_revoked_at t \<noteq> None \<or> (case tk_expires_at t of None \<Rightarrow> False | Some e \<Rightarrow> str_less e (ck_stamp ck))"

definition node_revocations ::
  "clock \<Rightarrow> bool \<Rightarrow> bool \<Rightarrow> db \<Rightarrow> int \<Rightarrow> (store_error, int list \<times> int list) result" where
  "node_revocations ck up_aps up_tokens D node_id =
     (if \<not> up_aps then Inl DbFailed
      else if \<not> up_tokens then Inl DbFailed
      else Inr (map ap_id (filter (\<lambda>a. ap_node D a = Some node_id \<and> ap_status a = ''revoked'') (db_aps D)),
                map tk_id (filter (\<lambda>t. token_node D t = Some node_id \<and> token_dead ck t) (db_tokens D))))"

definition record_node_status :: "clock \<Rightarrow> bool \<Rightarrow> db \<Rightarrow> int \<Rightarrow> string \<Rightarrow> (store_error, db) result" where
  "record_node_status ck up D node_id status_json =
     (if \<not> up then Inl DbFailed
      else Inr (D\<lparr>db_nodes := map (\<lambda>n.
             if nr_id n = node_id \<and> nr_status n \<noteq> ''disabled''
             then n\<lparr>nr_last_seen_at := Some (ck_stamp ck), nr_last_status_json := Some status_json,
                    nr_status := (if nr_status n = ''pending'' then ''active'' else nr_status n)\<rparr>
             else n) (db_nodes D)\<rparr>))"

end
