(* ===== verification/SourceFetch.thy ===== *)
theory SourceFetch imports Ssrf Store SealedBox begin

text \<open>
  How a stream's source is addressed and fetched: \<open>internal/gatewayhttp/sourceurl.go\<close>, and
  \<open>fetchWithHeaderTimeout\<close> and \<open>sourceSignature\<close> of \<open>handler.go\<close>.
\<close>

section \<open>Credential placeholders\<close>

definition username_placeholder :: string where "username_placeholder = ''{username}''"
definition password_placeholder :: string where "password_placeholder = ''{password}''"

definition uses_credential_placeholders :: "string \<Rightarrow> bool" where
  "uses_credential_placeholders raw \<longleftrightarrow>
     str_contains raw username_placeholder \<or> str_contains raw password_placeholder"

text \<open>\<open>strings.NewReplacer\<close> on the two placeholders: one pass, left to right, replaced text is
  not looked at again.\<close>

function (sequential) replace_placeholders :: "string \<Rightarrow> string \<Rightarrow> string \<Rightarrow> string" where
  "replace_placeholders user pass [] = []"
| "replace_placeholders user pass (c # s) =
     (if has_prefix (c # s) username_placeholder
      then user @ replace_placeholders user pass (drop (length username_placeholder) (c # s))
      else if has_prefix (c # s) password_placeholder
      then pass @ replace_placeholders user pass (drop (length password_placeholder) (c # s))
      else c # replace_placeholders user pass s)"
  by pat_completeness auto
termination
  by (relation "measure (\<lambda>(u, p, s). length s)")
    (auto simp: username_placeholder_def password_placeholder_def)

definition null_string :: "string option \<Rightarrow> string" where
  "null_string v = (case v of None \<Rightarrow> [] | Some s \<Rightarrow> s)"

definition source_entry_url ::
  "url_lib \<Rightarrow> aead \<Rightarrow> bytes option \<Rightarrow> stream \<Rightarrow> (go_error, url) result" where
  "source_entry_url L A key s =
     (let parse = (\<lambda>raw. case url_parse (ul_ops L) raw of
                     None \<Rightarrow> Inl (err_text ''unparsable source URL'') | Some u \<Rightarrow> Inr u);
          raw = s_source_url s
      in if \<not> uses_credential_placeholders raw then parse raw
         else if s_source_username s = None \<or> s_source_password_enc s = None
         then Inl (err_text ''source URL uses credential placeholders but the stream has no credentials'')
         else (case key of
                 None \<Rightarrow> Inl (err_text ''stream requires source credentials but no encryption key is loaded'')
               | Some k \<Rightarrow>
                   (case sb_decrypt A k (null_string (s_source_password_enc s)) of
                      Inl e \<Rightarrow> Inl (err_text ''decrypting source credentials failed'')
                    | Inr pw \<Rightarrow>
                        (let user = null_string (s_source_username s);
                             (path, query) = cut_at CHR ''?'' raw;
                             path' = replace_placeholders (ul_path_escape L user) (ul_path_escape L pw) path
                         in (case query of
                               None \<Rightarrow> parse path'
                             | Some q \<Rightarrow>
                                 parse (path' @ CHR ''?'' #
                                   replace_placeholders (ul_query_escape L user) (ul_query_escape L pw) q))))))"

text \<open>\<open>looksLikeDocument\<close>; whether the bytes are valid UTF-8 is an argument.\<close>

definition text_byte :: "char \<Rightarrow> bool" where
  "text_byte b \<longleftrightarrow> (of_char b :: nat) \<ge> 32 \<or> b = CHR 0x09 \<or> b = CHR 0x0A \<or> b = CHR 0x0D"

definition looks_like_document :: "(bytes \<Rightarrow> bool) \<Rightarrow> string \<Rightarrow> bytes \<Rightarrow> bool" where
  "looks_like_document valid_utf8 content_type head =
     (if head = [] \<or> \<not> valid_utf8 head then False
      else if \<not> list_all text_byte head then False
      else (let ct = to_lower (trim_space (fst (cut_at CHR '';'' content_type)))
            in if ct = ''text/vtt'' \<or> has_prefix (trim_space head) ''WEBVTT'' then False
               else if has_prefix ct ''text/'' \<or> has_suffix ct ''json'' \<or> has_suffix ct ''xml'' then True
               else (let trimmed = to_lower (trim_space head)
                     in has_prefix trimmed ''<!doctype'' \<or> has_prefix trimmed ''<html'')))"

section \<open>Fetching\<close>

text \<open>A reply of a source: its body, and whether reading the body failed after that.\<close>

record source_reply =
  sr_status :: int
  sr_content_type :: string
  sr_body :: bytes
  sr_read_failed :: bool

definition sniff_limit :: nat where
  "sniff_limit = 1024"

text \<open>The shared transport: its header timeout and its idle connections. A fetch with another
  header timeout uses a clone, whose idle connections are its own.\<close>

record transport =
  tr_header_timeout :: duration
  tr_pool :: pool

definition new_source_transport :: transport where
  "new_source_transport = \<lparr>tr_header_timeout = 10 * second, tr_pool = []\<rparr>"

definition fetch_request ::
  "url_lib \<Rightarrow> aead \<Rightarrow> bytes option \<Rightarrow> stream \<Rightarrow> url \<Rightarrow> (go_error, url \<times> (string \<times> string) option) result" where
  "fetch_request L A key s target =
     (case url_parse (ul_ops L) (ul_string L target) of
        None \<Rightarrow> Inl (err_text ''invalid request URL'')
      | Some u \<Rightarrow>
          if s_source_username s \<noteq> None \<and> s_source_password_enc s \<noteq> None \<and>
             \<not> uses_credential_placeholders (s_source_url s)
          then (case key of
                  None \<Rightarrow> Inl (err_text ''stream requires source credentials but no encryption key is loaded'')
                | Some k \<Rightarrow>
                    (case sb_decrypt A k (null_string (s_source_password_enc s)) of
                       Inl e \<Rightarrow> Inl (err_text ''decrypting source credentials'')
                     | Inr pw \<Rightarrow> Inr (u, Some (null_string (s_source_username s), pw))))
          else Inr (u, None))"

record 'r fetch_outcome =
  fo_trace :: "(url \<times> remote) list"
  fo_auth :: "(string \<times> string) option"
  fo_result :: "(go_error, url \<times> 'r) result"

definition fetch_with_header_timeout ::
  "url_lib \<Rightarrow> aead \<Rightarrow> bytes option \<Rightarrow> 'r network \<Rightarrow> transport \<Rightarrow> url \<Rightarrow> stream \<Rightarrow> bool \<Rightarrow> duration \<Rightarrow>
   'r fetch_outcome \<times> transport" where
  "fetch_with_header_timeout L A key net T target s source_private header_timeout =
     (let public_only = (\<not> s_trust_private_source s);
          cloned = (header_timeout > 0 \<and> tr_header_timeout T \<noteq> header_timeout)
      in (case fetch_request L A key s target of
            Inl e \<Rightarrow> (\<lparr>fo_trace = [], fo_auth = None, fo_result = Inl e\<rparr>, T)
          | Inr (u, auth) \<Rightarrow>
              (let f = client_do net public_only source_private 0 (if cloned then [] else tr_pool T) u
               in (\<lparr>fo_trace = f_trace f, fo_auth = auth,
                    fo_result = (case f_result f of
                        Inl (v, e) \<Rightarrow> Inl (redact_url_error L (as_url_error L v e))
                      | Inr x \<Rightarrow> Inr x)\<rparr>,
                   if cloned then T else T\<lparr>tr_pool := f_pool f\<rparr>))))"

text \<open>\<open>sourceSignature\<close> hashes the decrypted password, so a newly sealed copy of it gives the
  same signature.\<close>

definition source_signature :: "hashes \<Rightarrow> aead \<Rightarrow> bytes option \<Rightarrow> stream \<Rightarrow> string" where
  "source_signature H A key s =
     (let pw = (case s_source_password_enc s of
                  None \<Rightarrow> []
                | Some enc \<Rightarrow>
                    (case sb_decrypt A (case key of None \<Rightarrow> [] | Some k \<Rightarrow> k) enc of
                       Inl e \<Rightarrow> enc
                     | Inr plain \<Rightarrow> ''plain:'' @ plain))
      in hex_encode (sha256 H (s_source_url s @ CHR 0x00 # null_string (s_source_username s) @ CHR 0x00 # pw)))"

section \<open>Lemmas\<close>

definition clone_needed :: "transport \<Rightarrow> duration \<Rightarrow> bool" where
  "clone_needed T header_timeout \<longleftrightarrow> header_timeout > 0 \<and> tr_header_timeout T \<noteq> header_timeout"

lemma fetch_cases:
  obtains (refused) e where "fetch_request L A key s target = Inl e"
    "fetch_with_header_timeout L A key net T target s sp ht =
       (\<lparr>fo_trace = [], fo_auth = None, fo_result = Inl e\<rparr>, T)"
  | (sent) u auth f where "fetch_request L A key s target = Inr (u, auth)"
    "f = client_do net (\<not> s_trust_private_source s) sp 0 (if clone_needed T ht then [] else tr_pool T) u"
    "fetch_with_header_timeout L A key net T target s sp ht =
       (\<lparr>fo_trace = f_trace f, fo_auth = auth,
         fo_result = (case f_result f of
             Inl (v, e) \<Rightarrow> Inl (redact_url_error L (as_url_error L v e)) | Inr x \<Rightarrow> Inr x)\<rparr>,
        if clone_needed T ht then T else T\<lparr>tr_pool := f_pool f\<rparr>)"
  by (cases "fetch_request L A key s target")
    (auto simp: fetch_with_header_timeout_def clone_needed_def Let_def split: if_splits)

lemma decrypt_sealed:
  assumes "aead_ok A" and "length k = key_size" and "length n = nonce_size"
    and "sb_encrypt A (Some n) k plain = Inr enc"
  shows "sb_decrypt A k enc = Inr plain"
  using secretbox.unseal_seal [of "(A, k)" n plain enc] assms by (simp add: sb_ready_def)

section \<open>Properties\<close>

text \<open>C25: a fetch for a stream that is not trusted to be on a private network, through a transport
  that holds no connection to a private address (the clone an entry fetch uses holds none at
  all), only ever talks to public addresses, whatever the name resolution answers and however
  the source redirects.\<close>

theorem untrusted_fetch_public:
  assumes "\<not> s_trust_private_source s" and "clone_needed T ht \<or> pool_public (tr_pool T)"
    and "fetch_with_header_timeout L A key net T target s sp ht = (out, T')"
  shows "\<forall>(u, r) \<in> set (fo_trace out). \<exists>a. r = Some a \<and> \<not> is_private_or_reserved a"
proof -
  let ?p = "if clone_needed T ht then [] else tr_pool T"
  have r: "\<not> remote_private r \<longleftrightarrow> (\<exists>a. r = Some a \<and> \<not> is_private_or_reserved a)" for r
    by (cases r) (auto simp: remote_private_def)
  have p: "pool_public ?p" using assms(2) by auto
  show ?thesis
  proof (cases rule: fetch_cases [of L A key s target net T sp ht])
    case refused
    with assms(3) show ?thesis by auto
  next
    case (sent u auth f)
    with assms(1,3) have "fo_trace out = f_trace (client_do net True sp 0 ?p u)" by auto
    with client_do_public [OF p, of net sp 0 u] r show ?thesis by simp
  qed
qed

definition plain_lib :: url_lib where
  "plain_lib =
     \<lparr>ul_ops = \<lparr>url_parse = (\<lambda>raw. Some \<lparr>u_scheme = ''http'', u_user = None, u_host = raw, u_path = [],
                                       u_raw_query = [], u_fragment = []\<rparr>),
              url_resolve = (\<lambda>b r. r)\<rparr>,
      ul_string = u_host, ul_path_escape = (\<lambda>s. s), ul_query_escape = (\<lambda>s. s), ul_quote = (\<lambda>s. s)\<rparr>"

definition plain_url :: "string \<Rightarrow> url" where
  "plain_url h = \<lparr>u_scheme = ''http'', u_user = None, u_host = h, u_path = [], u_raw_query = [], u_fragment = []\<rparr>"

definition plain_stream :: "int \<Rightarrow> bool \<Rightarrow> stream" where
  "plain_stream i trust =
     \<lparr>s_id = i, s_name = [], s_source_type = ''hls'', s_source_url = ''lan.example'', s_source_username = None,
      s_source_password_enc = None, s_status = ''active'', s_disabled_at = None, s_replacement_reason = [],
      s_replacement_message = None, s_allow_remux = True, s_trust_private_source = trust, s_node = None\<rparr>"

definition lan_network :: "nat network" where
  "lan_network =
     \<lparr>nw_resolve = (\<lambda>n h. Inr False), nw_dial = (\<lambda>n h. Inr (Some [10, 0, 0, 5])),
      nw_answer = (\<lambda>n u. Inr (Reply 200))\<rparr>"

definition public_network :: "nat network" where
  "public_network =
     \<lparr>nw_resolve = (\<lambda>n h. Inr False), nw_dial = (\<lambda>n h. Inr (Some [203, 0, 113, 7])),
      nw_answer = (\<lambda>n u. Inr (Reply 200))\<rparr>"

theorem untrusted_fetch_public_witness:
  "fo_trace (fst (fetch_with_header_timeout plain_lib clear_aead None public_network
       new_source_transport (plain_url ''cdn.example'') (plain_stream 1 False) False (25 * second))) =
     [(plain_url ''cdn.example'', Some [203, 0, 113, 7])] \<and> \<not> is_private_or_reserved [203, 0, 113, 7]"
proof -
  let ?o = "fst (fetch_with_header_timeout plain_lib clear_aead None public_network
       new_source_transport (plain_url ''cdn.example'') (plain_stream 1 False) False (25 * second))"
  have c: "\<not> is_private_or_reserved [203, 0, 113, 7]"
    by code_simp
  have u: "\<not> uses_credential_placeholders ''lan.example''" by code_simp
  have t: "fo_trace ?o = [(plain_url ''cdn.example'', Some [203, 0, 113, 7])]"
    using c u by (simp add: fetch_with_header_timeout_def fetch_request_def plain_lib_def plain_stream_def
        new_source_transport_def public_network_def client_do.simps transport_connect_def source_dial_def
        remote_private_def plain_url_def)
  have "\<forall>(u, r) \<in> set (fo_trace ?o). \<exists>a. r = Some a \<and> \<not> is_private_or_reserved a"
    by (rule untrusted_fetch_public [of "plain_stream 1 False" new_source_transport "25 * second"])
      (simp_all add: plain_stream_def clone_needed_def new_source_transport_def prod_eq_iff)
  then show ?thesis unfolding t by simp
qed

text \<open>Without such a transport the dial check does not run: after a trusted stream's fetch, a
  fetch for an untrusted stream to the same host through the shared transport is answered over
  the idle private connection.\<close>

theorem idle_private_connection_reused:
  assumes "url_parse (ul_ops L) (ul_string L u) = Some u"
    and "s_trust_private_source trusted" and "\<not> s_trust_private_source untrusted"
    and "s_source_username trusted = None" and "s_source_username untrusted = None"
    and "nw_dial net 0 (u_host u) = Inr (Some a)" and "nw_answer net 0 u = Inr (Reply x)"
    and "fetch_with_header_timeout L A key net new_source_transport u trusted sp 0 = (out, T)"
  shows "fo_trace (fst (fetch_with_header_timeout L A key net T u untrusted False 0)) = [(u, Some a)]"
proof -
  have c: "client_do net False sp 0 [] u =
      \<lparr>f_trace = [(u, Some a)], f_pool = [(pool_key u, Some a)], f_result = Inr (u, x)\<rparr>"
    using assms(6,7) by (simp add: client_do.simps transport_connect_def source_dial_def)
  then have T: "tr_pool T = [(pool_key u, Some a)]"
    using assms by (auto simp: fetch_with_header_timeout_def fetch_request_def new_source_transport_def Let_def)
  have "f_trace (client_do net True False 0 [(pool_key u, Some a)] u) = [(u, Some a)]"
    using assms(7) by (simp add: client_do.simps transport_connect_def)
  with T assms show ?thesis
    by (simp add: fetch_with_header_timeout_def fetch_request_def Let_def)
qed

theorem idle_private_connection_reused_witness:
  "is_private_or_reserved [10, 0, 0, 5] \<and>
   fo_trace (fst (fetch_with_header_timeout plain_lib clear_aead None lan_network
     (snd (fetch_with_header_timeout plain_lib clear_aead None lan_network new_source_transport
        (plain_url ''lan.example'') (plain_stream 1 True) True 0))
     (plain_url ''lan.example'') (plain_stream 2 False) False 0)) = [(plain_url ''lan.example'', Some [10, 0, 0, 5])]"
proof
  show "is_private_or_reserved [10, 0, 0, 5]"
    by (simp add: is_private_or_reserved_def ip_private_def to4_def)
  show "fo_trace (fst (fetch_with_header_timeout plain_lib clear_aead None lan_network
     (snd (fetch_with_header_timeout plain_lib clear_aead None lan_network new_source_transport
        (plain_url ''lan.example'') (plain_stream 1 True) True 0))
     (plain_url ''lan.example'') (plain_stream 2 False) False 0)) = [(plain_url ''lan.example'', Some [10, 0, 0, 5])]"
    by (rule idle_private_connection_reused [where trusted = "plain_stream 1 True" and x = 200])
      (simp_all add: plain_lib_def plain_url_def plain_stream_def lan_network_def prod_eq_iff)
qed

text \<open>No fetch sends more than five requests, and every request a redirect leads to has a
  target the SSRF check accepted at that very hop.\<close>

theorem redirects_checked:
  assumes "fetch_with_header_timeout L A key net T target s sp ht = (out, T')"
  shows "length (fo_trace out) \<le> 5 \<and>
    (\<forall>k v r. 0 < k \<and> k < length (fo_trace out) \<and> fo_trace out ! k = (v, r) \<longrightarrow>
       (u_scheme v = ''http'' \<or> u_scheme v = ''https'') \<and>
       (sp \<or> nw_resolve net k (hostname v) = Inr False))"
proof (cases rule: fetch_cases [of L A key s target net T sp ht])
  case refused
  with assms show ?thesis by auto
next
  case (sent u auth f)
  with assms have t: "fo_trace out = f_trace f" by auto
  have "length (f_trace f) \<le> 5"
    using client_do_length [of 0 net] sent(2) by (simp add: max_hops_def)
  moreover have "check_fetch_target (nw_resolve net k) v sp = Inr ()"
    if "0 < k" "k < length (f_trace f)" "f_trace f ! k = (v, r)" for k v r
    using client_do_hops_checked [of k net _ sp 0] that sent(2) by fastforce
  ultimately show ?thesis unfolding t check_fetch_target_ok by blast
qed

theorem redirects_checked_witness:
  "length (fo_trace (fst (fetch_with_header_timeout plain_lib clear_aead None lan_network
     new_source_transport (plain_url ''lan.example'') (plain_stream 1 True) True 0))) \<le> 5"
  using redirects_checked [OF surjective_pairing, of plain_lib clear_aead None lan_network
     new_source_transport "plain_url ''lan.example''" "plain_stream 1 True" True 0] by blast

text \<open>Whatever nonce a source password was sealed with, and under whichever key, the signature
  that decides whether a running relay may be kept is the same; so newly sealed credentials, as
  a node receives with every configuration, do not restart its relays.\<close>

theorem signature_survives_resealing:
  assumes "aead_ok A" and "length k1 = key_size" and "length k2 = key_size"
    and "length n1 = nonce_size" and "length n2 = nonce_size"
    and "sb_encrypt A (Some n1) k1 pw = Inr enc1" and "sb_encrypt A (Some n2) k2 pw = Inr enc2"
  shows "source_signature H A (Some k1) (s\<lparr>s_source_password_enc := Some enc1\<rparr>) =
    source_signature H A (Some k2) (s\<lparr>s_source_password_enc := Some enc2\<rparr>)"
  using decrypt_sealed [OF assms(1,2,4,6)] decrypt_sealed [OF assms(1,3,5,7)]
  by (simp add: source_signature_def)

theorem signature_survives_resealing_witness:
  "\<exists>enc1 enc2.
     sb_encrypt clear_aead (Some (replicate 12 CHR ''m'')) (replicate 32 CHR ''a'') ''pw'' = Inr enc1 \<and>
     sb_encrypt clear_aead (Some (replicate 12 CHR ''n'')) (replicate 32 CHR ''b'') ''pw'' = Inr enc2 \<and>
     (\<forall>H. source_signature H clear_aead (Some (replicate 32 CHR ''a'')) ((plain_stream 1 True)\<lparr>s_source_password_enc := Some enc1\<rparr>) =
     source_signature H clear_aead (Some (replicate 32 CHR ''b'')) ((plain_stream 1 True)\<lparr>s_source_password_enc := Some enc2\<rparr>))"
proof -
  obtain e1 where e1: "sb_encrypt clear_aead (Some (replicate 12 CHR ''m'')) (replicate 32 CHR ''a'') ''pw'' = Inr e1"
    by (simp add: sb_encrypt_def key_size_def)
  obtain e2 where e2: "sb_encrypt clear_aead (Some (replicate 12 CHR ''n'')) (replicate 32 CHR ''b'') ''pw'' = Inr e2"
    by (simp add: sb_encrypt_def key_size_def)
  from signature_survives_resealing [OF clear_aead_ok _ _ _ _ e1 e2] e1 e2 show ?thesis
    by (auto simp: key_size_def)
qed

end
