(* ===== verification/Int64.thy ===== *)
theory Int64 imports Prelude begin

text \<open>Go's \<open>int64\<close> arithmetic on mathematical integers: results wrap to 64 bits.\<close>

definition wrap64 :: "int \<Rightarrow> int" where
  "wrap64 x = (x + 2 ^ 63) mod 2 ^ 64 - 2 ^ 63"

definition is_int64 :: "int \<Rightarrow> bool" where
  "is_int64 x \<longleftrightarrow> min_int64 \<le> x \<and> x \<le> max_int64"

lemma wrap64_id [simp]: "is_int64 x \<Longrightarrow> wrap64 x = x"
  by (simp add: wrap64_def is_int64_def)

lemma wrap64_is_int64 [simp]: "is_int64 (wrap64 x)"
  using pos_mod_bound [of "2 ^ 64" "x + 2 ^ 63"] pos_mod_sign [of "2 ^ 64" "x + 2 ^ 63"]
  unfolding wrap64_def is_int64_def by simp

lemma wrap64_wrap_add: "wrap64 (wrap64 a + b) = wrap64 (a + b)"
proof -
  define M N :: int where "M = 2 ^ 63" and "N = 2 ^ 64"
  have "((a + M) mod N - M + b + M) mod N = ((a + M) mod N + b) mod N" by simp
  also have "\<dots> = (a + M + b) mod N" by (rule mod_add_left_eq)
  also have "a + M + b = a + b + M" by simp
  finally show ?thesis unfolding wrap64_def M_def N_def by simp
qed

lemma wrap64_over:
  assumes "max_int64 < x" and "x \<le> max_int64 + 2 ^ 64"
  shows "wrap64 x = x - 2 ^ 64"
proof -
  have "(x + 2 ^ 63) mod 2 ^ 64 = (x + 2 ^ 63 - 2 ^ 64) mod 2 ^ 64" by (rule minus_mod_self2 [symmetric])
  also have "\<dots> = x + 2 ^ 63 - 2 ^ 64" using assms by (intro mod_pos_pos_trivial) simp_all
  finally show ?thesis by (simp add: wrap64_def)
qed

end
