(* ===== verification/HlsPull.thy ===== *)
theory HlsPull imports Int64 Urls begin

text \<open>
  \<open>internal/hlspull/hlspull.go\<close>: pulling a live HLS source as one MPEG-TS byte stream.

  What the source answers is an oracle over the number of requests made so far, and so is the
  question whether the context has been cancelled; sleeping is the caller's business and only
  shows as the number of nanoseconds asked for. One round of the loop in \<open>run\<close> is \<open>pull_round\<close>,
  and \<open>pull_rounds\<close> iterates it.
\<close>

section \<open>Replies\<close>

record http_reply =
  hr_status :: int
  hr_url :: "url option"
  hr_body :: bytes
  hr_read_error :: "go_error option"  \<comment> \<open>what reading reports after the body's bytes\<close>

record pull_env =
  pe_ops :: "url url_ops"
  pe_fetch :: "nat \<Rightarrow> url \<Rightarrow> (go_error, http_reply) result"
  pe_cancelled :: "nat \<Rightarrow> go_error option"  \<comment> \<open>\<open>ctx.Err()\<close>\<close>

definition err_encrypted :: go_error where
  "err_encrypted = \<lparr>e_causes = [EncryptedHls], e_url = None,
     e_msg = ''hlspull: encrypted HLS segments are not supported for always-on relays''\<rparr>"

definition err_fmp4 :: go_error where
  "err_fmp4 = \<lparr>e_causes = [FMP4Hls], e_url = None,
     e_msg = ''hlspull: fMP4 (EXT-X-MAP) segments are not supported for always-on relays''\<rparr>"

definition err_not_ts :: go_error where
  "err_not_ts = \<lparr>e_causes = [NotTSHls], e_url = None, e_msg = ''hlspull: segment is not MPEG-TS''\<rparr>"

definition err_no_segments :: go_error where
  "err_no_segments = err_text ''hlspull: playlist has no segments''"

definition max_playlist :: nat where "max_playlist = 4 * 2 ^ 20"
definition max_line :: nat where "max_line = 2 ^ 20"
definition max_failures :: nat where "max_failures = 5"
definition live_edge_window :: int where "live_edge_window = 3"

definition hls_get :: "pull_env \<Rightarrow> nat \<Rightarrow> url \<Rightarrow> (go_error, http_reply) result" where
  "hls_get E n u =
     (case pe_fetch E n u of
        Inl e \<Rightarrow> Inl e
      | Inr r \<Rightarrow> if hr_status r \<ge> 400 then Inl (err_text (''hlspull: HTTP '' @ format_int (hr_status r))) else Inr r)"

section \<open>Lines\<close>

text \<open>\<open>bufio.Scanner\<close> over a limited reader: the lines without their line ends, up to the first that
  does not fit its buffer, and the error it stopped with.\<close>

definition drop_cr :: "string \<Rightarrow> string" where
  "drop_cr s = (if s \<noteq> [] \<and> last s = carriage_return then butlast s else s)"

definition body_lines :: "bytes \<Rightarrow> string list" where
  "body_lines b = (let ls = split_on newline b in if last ls = [] then butlast ls else ls)"

definition scan_lines :: "http_reply \<Rightarrow> string list \<times> go_error option" where
  "scan_lines r =
     (let ls = body_lines (take max_playlist (hr_body r));
          fit = takeWhile (\<lambda>l. length l < max_line) ls
      in (map drop_cr fit,
          if length fit < length ls then Some (err_text ''bufio.Scanner: token too long'')
          else if length (hr_body r) < max_playlist then hr_read_error r else None))"

section \<open>The master playlist\<close>

definition trim_both :: "char \<Rightarrow> string \<Rightarrow> string" where
  "trim_both c s = trim_right (dropWhile (\<lambda>x. x = c) s) [c]"

definition attr_int :: "string \<Rightarrow> string \<Rightarrow> int" where
  "attr_int line key =
     (case str_index line (key @ ''='') of
        None \<Rightarrow> 0
      | Some i \<Rightarrow>
          (let v = drop (i + length key + 1) line;
               w = (case index_byte v CHR '','' of None \<Rightarrow> v | Some j \<Rightarrow> take j v)
           in fst (parse_int64 (trim_both quote w))))"

record variant_scan =
  vs_best :: "url option"
  vs_best_bw :: int
  vs_pending :: int
  vs_master :: bool

definition variant_line :: "url url_ops \<Rightarrow> url \<Rightarrow> string \<Rightarrow> variant_scan \<Rightarrow> variant_scan" where
  "variant_line U base raw v =
     (let line = trim_space raw
      in if has_prefix line ''#EXT-X-STREAM-INF:''
         then v\<lparr>vs_master := True, vs_pending := attr_int line ''BANDWIDTH''\<rparr>
         else if line \<noteq> [] \<and> \<not> has_prefix line ''#'' \<and> vs_pending v \<noteq> -2 \<and> vs_master v
         then (case resolve_uri U line base of
                 Some u \<Rightarrow>
                   if vs_pending v > vs_best_bw v
                   then v\<lparr>vs_best := Some u, vs_best_bw := vs_pending v, vs_pending := -2\<rparr>
                   else v\<lparr>vs_pending := -2\<rparr>
               | None \<Rightarrow> v\<lparr>vs_pending := -2\<rparr>)
         else v)"

definition variant_start :: variant_scan where
  "variant_start = \<lparr>vs_best = None, vs_best_bw = -1, vs_pending = -1, vs_master = False\<rparr>"

definition resolve_variant :: "pull_env \<Rightarrow> nat \<Rightarrow> url \<Rightarrow> (go_error, url) result" where
  "resolve_variant E n entry =
     (case hls_get E n entry of
        Inl e \<Rightarrow> Inl e
      | Inr r \<Rightarrow>
          (let base = (case hr_url r of None \<Rightarrow> entry | Some u \<Rightarrow> u);
               v = fold (variant_line (pe_ops E) base) (fst (scan_lines r)) variant_start
           in if \<not> vs_master v then Inr base
              else (case vs_best v of
                      None \<Rightarrow> Inl (err_text ''hlspull: master playlist has no variants'')
                    | Some u \<Rightarrow> Inr u)))"

section \<open>The media playlist\<close>

record media =
  m_target :: duration
  m_seq :: int
  m_segments :: "url list"
  m_ended :: bool

definition media_start :: media where
  "media_start = \<lparr>m_target = 6 * second, m_seq = 0, m_segments = [], m_ended = False\<rparr>"

definition media_line :: "url url_ops \<Rightarrow> url \<Rightarrow> string \<Rightarrow> media \<Rightarrow> (go_error, media) result" where
  "media_line U base raw m =
     (let line = trim_space raw
      in if has_prefix line ''#EXT-X-TARGETDURATION:''
         then (case parse_int64 (trim_prefix line ''#EXT-X-TARGETDURATION:'') of
                 (n, ParseOk) \<Rightarrow> Inr (if n > 0 then m\<lparr>m_target := wrap64 (n * second)\<rparr> else m)
               | _ \<Rightarrow> Inr m)
         else if has_prefix line ''#EXT-X-MEDIA-SEQUENCE:''
         then Inr (m\<lparr>m_seq := fst (parse_int64 (trim_prefix line ''#EXT-X-MEDIA-SEQUENCE:''))\<rparr>)
         else if has_prefix line ''#EXT-X-KEY:''
         then (if \<not> str_contains line ''METHOD=NONE'' then Inl err_encrypted else Inr m)
         else if has_prefix line ''#EXT-X-MAP:'' then Inl err_fmp4
         else if line = ''#EXT-X-ENDLIST'' then Inr (m\<lparr>m_ended := True\<rparr>)
         else if has_prefix line ''#EXT-X-STREAM-INF:''
         then Inl (err_text ''hlspull: expected a media playlist, got a master playlist'')
         else if line \<noteq> [] \<and> \<not> has_prefix line ''#''
         then (case resolve_uri U line base of
                 None \<Rightarrow> Inl (err_text ''unparsable segment URI'')
               | Some u \<Rightarrow> Inr (m\<lparr>m_segments := m_segments m @ [u]\<rparr>))
         else Inr m)"

fun media_lines :: "url url_ops \<Rightarrow> url \<Rightarrow> string list \<Rightarrow> media \<Rightarrow> (go_error, media) result" where
  "media_lines U base [] m = Inr m"
| "media_lines U base (l # ls) m =
     (case media_line U base l m of Inl e \<Rightarrow> Inl e | Inr m' \<Rightarrow> media_lines U base ls m')"

definition load_media :: "pull_env \<Rightarrow> nat \<Rightarrow> url \<Rightarrow> (go_error, media) result" where
  "load_media E n u =
     (case hls_get E n u of
        Inl e \<Rightarrow> Inl e
      | Inr r \<Rightarrow>
          (let base = (case hr_url r of None \<Rightarrow> u | Some v \<Rightarrow> v); (ls, err) = scan_lines r
           in (case media_lines (pe_ops E) base ls media_start of
                 Inl e \<Rightarrow> Inl e
               | Inr m \<Rightarrow>
                   (case err of
                      Some e \<Rightarrow> Inl e
                    | None \<Rightarrow> if m_segments m = [] then Inl err_no_segments else Inr m))))"

section \<open>Segments\<close>

definition looks_like_ts :: "bytes \<Rightarrow> bool" where
  "looks_like_ts b =
     (if length b < 188 \<or> b ! 0 \<noteq> CHR 0x47 then False
      else list_all (\<lambda>off. b ! off = CHR 0x47) (map (\<lambda>k. 188 * (k + 1)) [0..<(length b - 1) div 188]))"

definition head_size :: nat where "head_size = 188 * 3 + 1"

text \<open>\<open>copySegment\<close>: the bytes it wrote and the error it returned. \<open>io.ReadFull\<close> reports an empty
  body as \<open>io.EOF\<close>, which is passed on; a short one is accepted.\<close>

definition err_eof :: go_error where "err_eof = err_text ''EOF''"

definition copy_segment :: "pull_env \<Rightarrow> nat \<Rightarrow> url \<Rightarrow> bytes \<times> go_error option" where
  "copy_segment E n u =
     (case hls_get E n u of
        Inl e \<Rightarrow> ([], Some e)
      | Inr r \<Rightarrow>
          (let body = hr_body r
           in if length body < head_size
              then (case hr_read_error r of
                      Some e \<Rightarrow> ([], Some e)
                    | None \<Rightarrow>
                        if body = [] then ([], Some err_eof)
                        else if \<not> looks_like_ts body then ([], Some err_not_ts)
                        else (body, None))
              else if \<not> looks_like_ts (take head_size body) then ([], Some err_not_ts)
              else (body, hr_read_error r)))"

section \<open>The loop\<close>

text \<open>
  The state between two rounds: the next sequence number, the failures in a row, the requests
  made, the bytes written, and the sequence numbers tried. A round ends with the wait before the
  next one, with an error, or in a panic: the index into the segment list is out of range.
\<close>

record pull_state =
  ps_next :: int
  ps_failures :: nat
  ps_requests :: nat
  ps_out :: bytes
  ps_tried :: "int list"

datatype round_end = Wait duration | Stop go_error | Panic

text \<open>Where copying starts after a playlist was loaded.\<close>

definition rejoin :: "int \<Rightarrow> int \<Rightarrow> int \<Rightarrow> int" where
  "rejoin seq last_seq next =
     (if next < 0 \<or> next > wrap64 (last_seq + 1) \<or> next < seq
      then (let n = wrap64 (wrap64 (last_seq - live_edge_window) + 1) in if n < seq then seq else n)
      else next)"

function copy_loop ::
  "pull_env \<Rightarrow> url list \<Rightarrow> int \<Rightarrow> int \<Rightarrow> pull_state \<Rightarrow> round_end option \<times> pull_state" where
  "copy_loop E segs seq last_seq st =
     (if ps_next st \<le> last_seq
      then (let i = wrap64 (ps_next st - seq)
            in if i < 0 \<or> i \<ge> int (length segs) then (Some Panic, st)
               else (let (b, err) = copy_segment E (ps_requests st) (segs ! nat i);
                         st' = st\<lparr>ps_requests := Suc (ps_requests st), ps_out := ps_out st @ b,
                                  ps_tried := ps_tried st @ [ps_next st]\<rparr>;
                         st'' = st'\<lparr>ps_next := wrap64 (ps_next st + 1)\<rparr>
                     in (case err of
                           None \<Rightarrow> copy_loop E segs seq last_seq st''
                         | Some e \<Rightarrow>
                             if NotTSHls \<in> set (e_causes e) \<or> pe_cancelled E (ps_requests st') \<noteq> None
                             then (Some (Stop e), st')
                             else copy_loop E segs seq last_seq st'')))
      else (None, st))"
  by pat_completeness auto

text \<open>The index grows by one in every turn, so the loop ends (in a panic at the latest).\<close>

definition copy_rest :: "url list \<Rightarrow> int \<Rightarrow> int \<Rightarrow> nat" where
  "copy_rest segs seq next =
     (let i = wrap64 (next - seq) in if 0 \<le> i \<and> i < int (length segs) then length segs - nat i else 0)"

lemma copy_rest_next:
  assumes "0 \<le> wrap64 (next - seq)" and "wrap64 (next - seq) < int (length segs)"
  shows "copy_rest segs seq (wrap64 (next + 1)) < copy_rest segs seq next"
proof -
  have "wrap64 (wrap64 (next + 1) - seq) = wrap64 (wrap64 (next - seq) + 1)"
    using wrap64_wrap_add [of "next + 1" "- seq"] wrap64_wrap_add [of "next - seq" 1]
    by (simp add: algebra_simps)
  moreover have "wrap64 (i + 1) = i + 1 \<or> wrap64 (i + 1) < 0" if "is_int64 i" for i
    using that wrap64_over [of "i + 1"] by (cases "i = max_int64") (auto simp: is_int64_def)
  ultimately show ?thesis
    using assms wrap64_is_int64 [of "next - seq"]
    by (fastforce simp: copy_rest_def Let_def nat_add_distrib)
qed

termination copy_loop
  by (relation "measure (\<lambda>(E, segs, seq, last_seq, st). copy_rest segs seq (ps_next st))")
    (auto intro: copy_rest_next)

declare copy_loop.simps [simp del]

definition pull_round :: "pull_env \<Rightarrow> url \<Rightarrow> pull_state \<Rightarrow> round_end \<times> pull_state" where
  "pull_round E playlist st =
     (let n = Suc (ps_requests st); st = st\<lparr>ps_requests := n\<rparr>
      in (case load_media E (n - 1) playlist of
            Inl e \<Rightarrow>
              if EncryptedHls \<in> set (e_causes e) \<or> FMP4Hls \<in> set (e_causes e) \<or> pe_cancelled E n \<noteq> None
              then (Stop e, st)
              else (let f = Suc (ps_failures st); st = st\<lparr>ps_failures := f\<rparr>
                    in if f \<ge> max_failures then (Stop (wrap_error ''hlspull: playlist unavailable'' e), st)
                       else (Wait (int f * second), st))
          | Inr m \<Rightarrow>
              (let last_seq = wrap64 (wrap64 (m_seq m + int (length (m_segments m))) - 1);
                   st = st\<lparr>ps_failures := 0, ps_next := rejoin (m_seq m) last_seq (ps_next st)\<rparr>
               in (case copy_loop E (m_segments m) (m_seq m) last_seq st of
                     (Some r, st) \<Rightarrow> (r, st)
                   | (None, st) \<Rightarrow>
                       if m_ended m then (Stop err_eof, st)
                       else (Wait (max (m_target m div 2) second), st)))))"

text \<open>\<open>run\<close> for at most \<open>k\<close> rounds; a sleep fails when the context ends during it.\<close>

fun pull_rounds :: "pull_env \<Rightarrow> nat \<Rightarrow> url \<Rightarrow> pull_state \<Rightarrow> round_end \<times> pull_state" where
  "pull_rounds E 0 playlist st = (Wait 0, st)"
| "pull_rounds E (Suc k) playlist st =
     (case pull_round E playlist st of
        (Wait d, st') \<Rightarrow>
          (case pe_cancelled E (ps_requests st') of
             Some e \<Rightarrow> (Stop e, st')
           | None \<Rightarrow> pull_rounds E k playlist st')
      | r \<Rightarrow> r)"

definition pull_start :: pull_state where
  "pull_start = \<lparr>ps_next = -1, ps_failures = 0, ps_requests = 1, ps_out = [], ps_tried = []\<rparr>"

definition hls_run :: "pull_env \<Rightarrow> nat \<Rightarrow> url \<Rightarrow> round_end \<times> pull_state" where
  "hls_run E k entry =
     (case resolve_variant E 0 entry of
        Inl e \<Rightarrow> (Stop e, pull_start)
      | Inr playlist \<Rightarrow> pull_rounds E k playlist pull_start)"

section \<open>Lemmas on one round\<close>

text \<open>An error that ends the copying, at the given number of requests made.\<close>

definition copy_fatal :: "pull_env \<Rightarrow> nat \<Rightarrow> go_error option \<Rightarrow> bool" where
  "copy_fatal E n err \<longleftrightarrow> (\<exists>e. err = Some e \<and> (NotTSHls \<in> set (e_causes e) \<or> pe_cancelled E n \<noteq> None))"

definition segment_tried :: "bytes \<Rightarrow> pull_state \<Rightarrow> pull_state" where
  "segment_tried b st = st\<lparr>ps_requests := Suc (ps_requests st), ps_out := ps_out st @ b,
     ps_tried := ps_tried st @ [ps_next st]\<rparr>"

lemma copy_loop_done: "last_seq < ps_next st \<Longrightarrow> copy_loop E segs seq last_seq st = (None, st)"
  by (simp add: copy_loop.simps [of E segs seq last_seq st])

lemma copy_loop_step:
  assumes "ps_next st \<le> last_seq" and "wrap64 (ps_next st - seq) = int i" and "i < length segs"
    and "copy_segment E (ps_requests st) (segs ! i) = (b, err)"
  shows "copy_loop E segs seq last_seq st =
    (if copy_fatal E (Suc (ps_requests st)) err then (Some (Stop (the err)), segment_tried b st)
     else copy_loop E segs seq last_seq ((segment_tried b st)\<lparr>ps_next := wrap64 (ps_next st + 1)\<rparr>))"
  using assms
  by (auto simp: copy_loop.simps [of E segs seq last_seq st] copy_fatal_def segment_tried_def Let_def
      split: option.splits)

lemma copy_loop_panic:
  "ps_next st \<le> last_seq \<Longrightarrow> wrap64 (ps_next st - seq) < 0 \<or> int (length segs) \<le> wrap64 (ps_next st - seq) \<Longrightarrow>
   copy_loop E segs seq last_seq st = (Some Panic, st)"
  by (auto simp: copy_loop.simps [of E segs seq last_seq st] Let_def)

lemma segment_tried_simps [simp]:
  "ps_next (segment_tried b st) = ps_next st"
  "ps_tried (segment_tried b st) = ps_tried st @ [ps_next st]"
  "ps_requests (segment_tried b st) = Suc (ps_requests st)"
  "ps_failures (segment_tried b st) = ps_failures st"
  by (simp_all add: segment_tried_def)

lemma copy_loop_in_order:
  assumes "0 \<le> seq" and "last_seq = seq + int (length segs) - 1" and "last_seq < max_int64"
    and "seq \<le> ps_next st" and "ps_next st \<le> last_seq + 1"
    and "copy_loop E segs seq last_seq st = (r, st')"
  shows "r \<noteq> Some Panic \<and> (\<exists>j. ps_next st \<le> j \<and> j \<le> last_seq + 1 \<and>
      ps_tried st' = ps_tried st @ [ps_next st..j - 1] \<and> (r = None \<longrightarrow> j = last_seq + 1 \<and> ps_next st' = j))"
  using assms(4-)
proof (induction "nat (last_seq + 1 - ps_next st)" arbitrary: st rule: less_induct)
  case less
  let ?n = "ps_next st"
  show ?case
  proof (cases "?n \<le> last_seq")
    case False
    with less.prems copy_loop_done [of last_seq st E segs seq] show ?thesis
      by (auto intro!: exI [of _ ?n])
  next
    case True
    then have "is_int64 (?n - seq)" "is_int64 (?n + 1)"
      using assms(1-3) less.prems by (auto simp: is_int64_def)
    then have w: "wrap64 (?n - seq) = int (nat (?n - seq))" "wrap64 (?n + 1) = ?n + 1"
      using less.prems by simp_all
    obtain b err where c: "copy_segment E (ps_requests st) (segs ! nat (?n - seq)) = (b, err)" by fastforce
    have l: "nat (?n - seq) < length segs" using assms(2) True less.prems by auto
    note step = copy_loop_step [OF True w(1) l c, unfolded w(2)]
    show ?thesis
    proof (cases "copy_fatal E (Suc (ps_requests st)) err")
      case fatal: True
      with step less.prems have "r = Some (Stop (the err))" "st' = segment_tried b st" by simp_all
      with True less.prems show ?thesis by (auto intro!: exI [of _ "?n + 1"])
    next
      case False
      let ?s = "(segment_tried b st)\<lparr>ps_next := ?n + 1\<rparr>"
      have "copy_loop E segs seq last_seq ?s = (r, st')" using step False less.prems by simp
      from less.hyps [OF _ _ _ this] True less.prems obtain j where
        j: "?n + 1 \<le> j" "j \<le> last_seq + 1" "ps_tried st' = ps_tried st @ ?n # [?n + 1..j - 1]"
          "r = None \<longrightarrow> j = last_seq + 1 \<and> ps_next st' = j"
        and np: "r \<noteq> Some Panic"
        by auto
      have "?n # [?n + 1..j - 1] = [?n..j - 1]" using j(1) by (simp add: upto_rec1)
      with j np show ?thesis by (auto intro!: exI [of _ j])
    qed
  qed
qed

text \<open>At the greatest sequence number the counter wraps and the loop runs out of the list.\<close>

lemma copy_loop_runs_out:
  assumes "0 \<le> seq" and "seq + int (length segs) = 2 ^ 63"
    and "seq \<le> ps_next st" and "ps_next st \<le> max_int64"
    and "\<forall>n. \<forall>u \<in> set segs. \<not> copy_fatal E (Suc n) (snd (copy_segment E n u))"
  shows "fst (copy_loop E segs seq max_int64 st) = Some Panic"
  using assms(3,4)
proof (induction "nat (max_int64 - ps_next st)" arbitrary: st rule: less_induct)
  case less
  let ?n = "ps_next st"
  have w: "wrap64 (?n - seq) = int (nat (?n - seq))"
    using assms(1) less.prems by (simp add: is_int64_def)
  have l: "nat (?n - seq) < length segs" using assms(1,2) less.prems by (simp add: nat_less_iff)
  obtain b err where c: "copy_segment E (ps_requests st) (segs ! nat (?n - seq)) = (b, err)" by fastforce
  then have "\<not> copy_fatal E (Suc (ps_requests st)) err" using assms(5) l by (metis nth_mem snd_conv)
  then have step: "copy_loop E segs seq max_int64 st =
      copy_loop E segs seq max_int64 ((segment_tried b st)\<lparr>ps_next := wrap64 (?n + 1)\<rparr>)"
    using copy_loop_step [OF less.prems(2) w l c] by simp
  show ?case
  proof (cases "?n = max_int64")
    case False
    then have "wrap64 (?n + 1) = ?n + 1" using assms(1) less.prems by (simp add: is_int64_def)
    with less False step show ?thesis by simp
  next
    case True
    then have m: "wrap64 (?n + 1) = - (2 ^ 63)" using wrap64_over [of "?n + 1"] by simp
    have "wrap64 (- (2 ^ 63) - seq) = wrap64 (wrap64 (2 ^ 63) - seq)"
      using wrap64_over [of "2 ^ 63"] by simp
    also have "\<dots> = wrap64 (int (length segs))"
    proof -
      have "2 ^ 63 - seq = int (length segs)" using assms(2) by simp
      with wrap64_wrap_add [of "2 ^ 63" "- seq"] show ?thesis by simp
    qed
    also have "\<dots> < 0 \<or> \<dots> = int (length segs)"
      using assms(1,2) wrap64_over [of "int (length segs)"]
      by (cases "seq = 0") (auto simp: is_int64_def)
    finally have "wrap64 (- (2 ^ 63) - seq) < 0 \<or> int (length segs) \<le> wrap64 (- (2 ^ 63) - seq)"
      by auto
    then show ?thesis using step m by (simp add: copy_loop_panic)
  qed
qed

lemma pull_round_loaded:
  assumes "load_media E (ps_requests st) playlist = Inr m"
    and "last_seq = wrap64 (wrap64 (m_seq m + int (length (m_segments m))) - 1)"
    and "st1 = st\<lparr>ps_requests := Suc (ps_requests st), ps_failures := 0,
           ps_next := rejoin (m_seq m) last_seq (ps_next st)\<rparr>"
  shows "pull_round E playlist st =
    (case copy_loop E (m_segments m) (m_seq m) last_seq st1 of
       (Some r, st2) \<Rightarrow> (r, st2)
     | (None, st2) \<Rightarrow> if m_ended m then (Stop err_eof, st2) else (Wait (max (m_target m div 2) second), st2))"
  using assms by (simp add: pull_round_def Let_def)

section \<open>Specification: the variants of a master playlist\<close>

text \<open>A variant is the first URI line after its \<open>#EXT-X-STREAM-INF\<close> tag, with the tag's bandwidth.\<close>

fun variants :: "url url_ops \<Rightarrow> url \<Rightarrow> int option \<Rightarrow> string list \<Rightarrow> (int \<times> url) list" where
  "variants U base p [] = []"
| "variants U base p (l # ls) =
     (let line = trim_space l
      in if has_prefix line ''#EXT-X-STREAM-INF:'' then variants U base (Some (attr_int line ''BANDWIDTH'')) ls
         else if line \<noteq> [] \<and> \<not> has_prefix line ''#''
         then (case (p, resolve_uri U line base) of
                 (Some bw, Some u) \<Rightarrow> (bw, u) # variants U base None ls
               | _ \<Rightarrow> variants U base None ls)
         else variants U base p ls)"

definition pending_matches :: "variant_scan \<Rightarrow> int option \<Rightarrow> bool" where
  "pending_matches v p \<longleftrightarrow>
     (case p of None \<Rightarrow> vs_pending v = -2 \<or> \<not> vs_master v | Some bw \<Rightarrow> vs_pending v = bw \<and> vs_master v)"

text \<open>The best variant so far is one of those seen, and none of them has more bandwidth.\<close>

definition best_of :: "variant_scan \<Rightarrow> (int \<times> url) set \<Rightarrow> bool" where
  "best_of v seen \<longleftrightarrow>
     -1 \<le> vs_best_bw v \<and> (\<forall>(bw, u) \<in> seen. bw \<le> vs_best_bw v) \<and>
     (\<forall>u. vs_best v = Some u \<longrightarrow> (vs_best_bw v, u) \<in> seen) \<and> (vs_best v = None \<longrightarrow> vs_best_bw v = -1)"

lemma best_of_pending [simp]: "best_of (v\<lparr>vs_pending := x\<rparr>) seen = best_of v seen"
  "best_of (v\<lparr>vs_master := y\<rparr>) seen = best_of v seen"
  "best_of (v\<lparr>vs_master := y, vs_pending := x\<rparr>) seen = best_of v seen"
  by (simp_all add: best_of_def)

lemma best_of_small: "best_of v seen \<Longrightarrow> bw \<le> vs_best_bw v \<Longrightarrow> best_of v (insert (bw, u) seen)"
  by (auto simp: best_of_def)

lemma best_of_new:
  "best_of v seen \<Longrightarrow> vs_best_bw v < bw \<Longrightarrow>
   best_of (v\<lparr>vs_best := Some u, vs_best_bw := bw\<rparr>) (insert (bw, u) seen)"
  by (auto simp: best_of_def)

lemma variant_fold:
  assumes "pending_matches v p" and "best_of v seen"
  shows "best_of (fold (variant_line U base) ls v) (seen \<union> set (variants U base p ls))"
  using assms
proof (induction ls arbitrary: v p seen)
  case (Cons l ls)
  let ?line = "trim_space l" and ?v = "variant_line U base l v"
  consider (inf) "has_prefix ?line ''#EXT-X-STREAM-INF:''"
    | (uri) "\<not> has_prefix ?line ''#EXT-X-STREAM-INF:''" "?line \<noteq> []" "\<not> has_prefix ?line ''#''"
    | (other) "\<not> has_prefix ?line ''#EXT-X-STREAM-INF:''" "?line = [] \<or> has_prefix ?line ''#''" by blast
  then show ?case
  proof cases
    case inf
    then have "?v = v\<lparr>vs_master := True, vs_pending := attr_int ?line ''BANDWIDTH''\<rparr>"
      by (simp add: variant_line_def Let_def)
    with inf Cons.prems Cons.IH [of ?v "Some (attr_int ?line ''BANDWIDTH'')" seen] show ?thesis
      by (simp add: pending_matches_def Let_def)
  next
    case other
    then have "?v = v" by (auto simp: variant_line_def Let_def)
    moreover have "variants U base p (l # ls) = variants U base p ls" using other by (auto simp: Let_def)
    ultimately show ?thesis using Cons.IH [OF Cons.prems] by simp
  next
    case uri
    have IH: "best_of ?v (insert (bw, u) seen) \<Longrightarrow> pending_matches ?v None \<Longrightarrow>
        best_of (fold (variant_line U base) ls ?v) (seen \<union> set ((bw, u) # variants U base None ls))" for bw u
      using Cons.IH [of ?v None "insert (bw, u) seen"] by simp
    have IH0: "best_of ?v seen \<Longrightarrow> pending_matches ?v None \<Longrightarrow>
        best_of (fold (variant_line U base) ls ?v) (seen \<union> set (variants U base None ls))"
      by (rule Cons.IH)
    show ?thesis
    proof (cases "vs_pending v \<noteq> -2 \<and> vs_master v")
      case False
      then have v: "?v = v" "pending_matches ?v None" using uri by (auto simp: variant_line_def Let_def pending_matches_def)
      have p: "p = None \<or> p = Some (-2)" using Cons.prems(1) False by (auto simp: pending_matches_def split: option.splits)
      have "best_of v (insert (-2, u) seen)" for u using Cons.prems(2) by (auto simp: best_of_def)
      with IH [of "-2"] IH0 v p uri Cons.prems(2) show ?thesis by (auto simp: Let_def split: option.splits)
    next
      case True
      then have p: "p = Some (vs_pending v)" using Cons.prems(1) by (auto simp: pending_matches_def split: option.splits)
      show ?thesis
      proof (cases "resolve_uri U ?line base")
        case None
        then have "?v = v\<lparr>vs_pending := -2\<rparr>" using uri True by (auto simp: variant_line_def Let_def)
        with IH0 None uri p Cons.prems(2) show ?thesis by (simp add: Let_def pending_matches_def)
      next
        case (Some u)
        have m: "pending_matches ?v None" using uri True Some by (auto simp: variant_line_def Let_def pending_matches_def)
        have "best_of ?v (insert (vs_pending v, u) seen)"
          using uri True Some Cons.prems(2)
          by (auto simp: variant_line_def Let_def intro: best_of_small best_of_new)
        from IH [OF this m] Some uri p show ?thesis by (simp add: Let_def)
      qed
    qed
  qed
qed simp

section \<open>Short bodies\<close>

lemma split_on_length: "l \<in> set (split_on c s) \<Longrightarrow> length l \<le> length s"
proof (induction s arbitrary: l rule: split_on.induct)
  case (2 c x s)
  obtain w ws where s: "split_on c s = w # ws" by (meson list.exhaust split_on_nonempty)
  with "2.IH" have "\<forall>l \<in> set (w # ws). length l \<le> length s" by metis
  with "2.prems" s show ?case by (auto split: if_splits)
qed simp

lemma scan_lines_small:
  assumes "length (hr_body r) < max_line"
  shows "scan_lines r = (map drop_cr (body_lines (hr_body r)), hr_read_error r)"
proof -
  have m: "max_line < max_playlist" by (simp add: max_line_def max_playlist_def)
  have "\<forall>l \<in> set (body_lines (hr_body r)). length l < max_line"
    using assms split_on_length [of _ newline "hr_body r"]
    by (fastforce simp: body_lines_def Let_def dest: in_set_butlastD split: if_splits)
  then have "takeWhile (\<lambda>l. length l < max_line) (body_lines (hr_body r)) = body_lines (hr_body r)"
    by (simp only: takeWhile_eq_all_conv)
  with assms m show ?thesis by (simp add: scan_lines_def Let_def del: takeWhile_eq_all_conv)
qed

text \<open>An example source: a playlist under one path, one segment under every other.\<close>

definition example_ops :: "url url_ops" where
  "example_ops =
     \<lparr>url_parse = (\<lambda>raw. Some \<lparr>u_scheme = ''http'', u_user = None, u_host = ''origin'', u_path = raw,
                             u_raw_query = [], u_fragment = []\<rparr>),
      url_resolve = (\<lambda>base ref. ref)\<rparr>"

definition example_url :: "string \<Rightarrow> url" where
  "example_url p = \<lparr>u_scheme = ''http'', u_user = None, u_host = ''origin'', u_path = p,
                    u_raw_query = [], u_fragment = []\<rparr>"

definition example_env :: "bytes \<Rightarrow> bytes \<Rightarrow> pull_env" where
  "example_env playlist segment =
     \<lparr>pe_ops = example_ops,
      pe_fetch = (\<lambda>n u. Inr \<lparr>hr_status = 200, hr_url = None,
                        hr_body = (if u_path u = ''live.m3u8'' then playlist else segment), hr_read_error = None\<rparr>),
      pe_cancelled = (\<lambda>n. None)\<rparr>"

definition example_playlist :: "string \<Rightarrow> bytes" where
  "example_playlist seq = ''#EXTM3U'' @ newline # ''#EXT-X-MEDIA-SEQUENCE:'' @ seq @ newline # ''seg.ts'' @ [newline]"

lemma example_body_lines:
  assumes "newline \<notin> set seq"
  shows "body_lines (example_playlist seq) = [''#EXTM3U'', ''#EXT-X-MEDIA-SEQUENCE:'' @ seq, ''seg.ts'']"
proof -
  have a: "split_on newline (''#EXTM3U'' @ newline # s) = ''#EXTM3U'' # split_on newline s" for s
    by (rule split_on_append) simp
  have b: "split_on newline ((''#EXT-X-MEDIA-SEQUENCE:'' @ seq) @ newline # s) =
      (''#EXT-X-MEDIA-SEQUENCE:'' @ seq) # split_on newline s" for s
    using assms by (intro split_on_append) simp
  have c: "split_on newline (''seg.ts'' @ newline # []) = ''seg.ts'' # split_on newline []"
    by (rule split_on_append) simp
  have "split_on newline (example_playlist seq) = [''#EXTM3U'', ''#EXT-X-MEDIA-SEQUENCE:'' @ seq, ''seg.ts'', []]"
    using a [of "(''#EXT-X-MEDIA-SEQUENCE:'' @ seq) @ newline # ''seg.ts'' @ [newline]"]
      b [of "''seg.ts'' @ [newline]"] c
    by (simp only: example_playlist_def append_assoc split_on.simps)
  then show ?thesis by (simp add: body_lines_def Let_def)
qed

lemma example_load:
  assumes "parse_int64 seq = (n, ParseOk)" and "seq \<noteq> []" and "\<forall>c \<in> set seq. is_digit c" and "length seq < 100"
  shows "load_media (example_env (example_playlist seq) segment) k (example_url ''live.m3u8'') =
    Inr \<lparr>m_target = 6 * second, m_seq = n, m_segments = [example_url ''seg.ts''], m_ended = False\<rparr>"
proof -
  have nd: "c \<notin> set seq" if "\<not> is_digit c" for c using assms(3) that by auto
  have l: "length (example_playlist seq) < max_line"
    using assms(4) by (simp add: example_playlist_def max_line_def)
  have last: "last seq \<in> set seq" using assms(2) by simp
  have dig: "is_digit c \<Longrightarrow> plain_char c" for c by (auto simp: is_digit_def plain_char_def ascii_space_def)
  have cr: "drop_cr (''#EXT-X-MEDIA-SEQUENCE:'' @ seq) = ''#EXT-X-MEDIA-SEQUENCE:'' @ seq"
    using last nd [of carriage_return] assms(2) by (auto simp: drop_cr_def is_digit_def) (metis last)
  have ts: "trim_space (''#EXT-X-MEDIA-SEQUENCE:'' @ seq) = ''#EXT-X-MEDIA-SEQUENCE:'' @ seq"
    using last assms(2,3) dig by (intro trim_space_plain) (auto simp: plain_char_def ascii_space_def)
  have t1: "trim_space ''#EXTM3U'' = ''#EXTM3U''" "trim_space ''seg.ts'' = ''seg.ts''" by code_simp+
  have m1: "media_line example_ops b ''#EXTM3U'' m = Inr m" for b m
    by (simp add: media_line_def t1)
  have m2: "media_line example_ops b (''#EXT-X-MEDIA-SEQUENCE:'' @ seq) m = Inr (m\<lparr>m_seq := n\<rparr>)" for b m
    using assms(1) trim_prefix_append [of "''#EXT-X-MEDIA-SEQUENCE:''" seq] ts
    by (simp add: media_line_def Let_def)
  have m3: "media_line example_ops b ''seg.ts'' m = Inr (m\<lparr>m_segments := m_segments m @ [example_url ''seg.ts'']\<rparr>)" for b m
    by (simp add: media_line_def t1 resolve_uri_def example_ops_def example_url_def)
  show ?thesis
    using l cr nd [of newline] scan_lines_small m2
    by (simp add: load_media_def hls_get_def example_env_def example_url_def [of "''live.m3u8''"]
        example_body_lines is_digit_def drop_cr_def [of "''seg.ts''"] drop_cr_def [of "''#EXTM3U''"]
        m1 m3 media_start_def Let_def)
qed

section \<open>Properties\<close>

text \<open>C30: in a round whose playlist numbers its segments from a non-negative number below the
  top of the range, the index into the segment list is always valid, and the segments are tried
  in order, each once: from the one after the last one tried when the playlist still reaches it,
  and otherwise from at most three before the live edge. A round that is not cut short leaves
  off at the segment the next round starts from.\<close>

theorem round_tries_in_order:
  assumes "load_media E (ps_requests st) playlist = Inr m" and "0 \<le> m_seq m"
    and "m_seq m + int (length (m_segments m)) \<le> max_int64"
    and "pull_round E playlist st = (r, st')"
    and "last_seq = m_seq m + int (length (m_segments m)) - 1"
    and "start = (if m_seq m \<le> ps_next st \<and> ps_next st \<le> last_seq + 1 then ps_next st
                  else max (m_seq m) (last_seq - 2))"
  shows "r \<noteq> Panic \<and> (\<exists>j. start \<le> j \<and> j \<le> last_seq + 1 \<and>
      ps_tried st' = ps_tried st @ [start..j - 1] \<and>
      (\<forall>d. r = Wait d \<longrightarrow> j = last_seq + 1 \<and> ps_next st' = last_seq + 1))"
proof -
  have w: "is_int64 (m_seq m + int (length (m_segments m)))" "is_int64 last_seq" "is_int64 (last_seq + 1)"
    "is_int64 (last_seq - 3)" "is_int64 (last_seq - 3 + 1)"
    using assms(2,3,5) by (auto simp: is_int64_def)
  then have l: "last_seq = wrap64 (wrap64 (m_seq m + int (length (m_segments m))) - 1)"
    using assms(5) by simp
  have j: "rejoin (m_seq m) last_seq (ps_next st) = start"
    using w assms(2,6) by (auto simp: rejoin_def live_edge_window_def Let_def max_def)
  define st1 where "st1 = st\<lparr>ps_requests := Suc (ps_requests st), ps_failures := 0, ps_next := start\<rparr>"
  obtain c st2 where c: "copy_loop E (m_segments m) (m_seq m) last_seq st1 = (c, st2)" by fastforce
  have "m_seq m \<le> ps_next st1" "ps_next st1 \<le> last_seq + 1" "last_seq < max_int64"
    using assms(2,3,5,6) by (auto simp: st1_def max_def)
  note order = copy_loop_in_order [OF assms(2,5) this(3,1,2) c]
  have "pull_round E playlist st =
      (case (c, st2) of
         (Some r, st2) \<Rightarrow> (r, st2)
       | (None, st2) \<Rightarrow> if m_ended m then (Stop err_eof, st2) else (Wait (max (m_target m div 2) second), st2))"
    using pull_round_loaded [OF assms(1) l, of st1] c j by (simp add: st1_def)
  with assms(4) have r: "(c = Some r \<or> c = None \<and> r \<noteq> Panic) \<and> st' = st2"
    by (auto split: option.splits if_splits)
  have "c \<noteq> Some (Wait d)" for d
  proof -
    have "fst (copy_loop E segs seq l s) \<noteq> Some (Wait d)" for segs seq l s
      by (induction E segs seq l s rule: copy_loop.induct)
        (subst copy_loop.simps, auto simp: Let_def split: option.splits prod.splits)
    then show ?thesis using c by (metis fst_conv)
  qed
  with r order show ?thesis by (auto simp: st1_def)
qed

text \<open>The example source with media sequence \<open>n\<close>.\<close>

lemma example_load_10:
  "load_media (example_env (example_playlist ''10'') segment) k (example_url ''live.m3u8'') =
     Inr \<lparr>m_target = 6 * second, m_seq = 10, m_segments = [example_url ''seg.ts''], m_ended = False\<rparr>"
  by (rule example_load) (simp_all add: parse_int64_def parse_uint64_def is_digit_def digit_val_def)

lemma example_load_top:
  "load_media (example_env (example_playlist ''9223372036854775807'') segment) k (example_url ''live.m3u8'') =
     Inr \<lparr>m_target = 6 * second, m_seq = max_int64, m_segments = [example_url ''seg.ts''], m_ended = False\<rparr>"
  by (rule example_load) (simp_all add: parse_int64_def parse_uint64_def is_digit_def digit_val_def)

theorem round_tries_in_order_witness:
  "fst (pull_round (example_env (example_playlist ''10'') (replicate 188 CHR ''G'')) (example_url ''live.m3u8'') pull_start)
     \<noteq> Panic"
  using round_tries_in_order [OF example_load_10 _ _ surjective_pairing refl refl] by simp

text \<open>C81: the last sequence number of a playlist is bounded by nothing but the \<open>int64\<close> it is parsed
  into. When it is the greatest one, the counter wraps behind it, the loop goes on, and the
  segment list is indexed out of range: a playlist of the source panics the process.\<close>

theorem last_sequence_number_panics:
  assumes "load_media E (ps_requests st) playlist = Inr m" and "m_segments m \<noteq> []"
    and "0 \<le> m_seq m" and "m_seq m + int (length (m_segments m)) = 2 ^ 63"
    and "is_int64 (ps_next st)"
    and "\<forall>n. \<forall>u \<in> set (m_segments m). \<not> copy_fatal E (Suc n) (snd (copy_segment E n u))"
  shows "fst (pull_round E playlist st) = Panic"
proof -
  have l: "max_int64 = wrap64 (wrap64 (m_seq m + int (length (m_segments m))) - 1)"
    using assms(4) wrap64_wrap_add [of "2 ^ 63" "-1"] by (simp add: is_int64_def)
  let ?start = "rejoin (m_seq m) max_int64 (ps_next st)"
  define st1 where "st1 = st\<lparr>ps_requests := Suc (ps_requests st), ps_failures := 0, ps_next := ?start\<rparr>"
  have "m_seq m \<le> max_int64" using assms(2,4) by (cases "m_segments m") auto
  moreover have "wrap64 (wrap64 (max_int64 - live_edge_window) + 1) = max_int64 - 2"
    by (simp add: live_edge_window_def is_int64_def)
  ultimately have "m_seq m \<le> ps_next st1 \<and> ps_next st1 \<le> max_int64"
    using assms(5) by (auto simp: st1_def rejoin_def Let_def is_int64_def)
  then have "fst (copy_loop E (m_segments m) (m_seq m) max_int64 st1) = Some Panic"
    using assms(3,4,6) by (intro copy_loop_runs_out) auto
  then obtain st2 where "copy_loop E (m_segments m) (m_seq m) max_int64 st1 = (Some Panic, st2)"
    by (metis prod.collapse)
  with pull_round_loaded [OF assms(1) l st1_def] show ?thesis by simp
qed

theorem last_sequence_number_panics_witness:
  "fst (pull_round (example_env (example_playlist ''9223372036854775807'') (replicate 188 CHR ''G''))
     (example_url ''live.m3u8'') pull_start) = Panic"
proof -
  let ?E = "example_env (example_playlist ''9223372036854775807'') (replicate 188 CHR ''G'')"
  have "looks_like_ts (replicate 188 CHR ''G'')" by (simp add: looks_like_ts_def)
  then have "snd (copy_segment ?E n (example_url ''seg.ts'')) = None" for n
    by (simp add: copy_segment_def hls_get_def example_env_def Let_def example_url_def head_size_def)
  then show ?thesis
    by (intro last_sequence_number_panics [OF example_load_top])
      (simp_all add: pull_start_def is_int64_def copy_fatal_def)
qed

lemma pull_round_failed:
  assumes "load_media E (ps_requests st) playlist = Inl e"
    and "EncryptedHls \<notin> set (e_causes e)" and "FMP4Hls \<notin> set (e_causes e)"
    and "pe_cancelled E (Suc (ps_requests st)) = None"
  shows "pull_round E playlist st =
    (if Suc (ps_failures st) \<ge> max_failures then Stop (wrap_error ''hlspull: playlist unavailable'' e)
     else Wait (int (Suc (ps_failures st)) * second),
     st\<lparr>ps_requests := Suc (ps_requests st), ps_failures := Suc (ps_failures st)\<rparr>)"
  using assms by (simp add: pull_round_def Let_def)

text \<open>While the playlist cannot be loaded (and is neither encrypted nor fMP4, which end the
  relay at once), the puller waits four times and gives up at the fifth failure in a row,
  having written nothing.\<close>

theorem gives_up_after_five_failures:
  assumes "\<forall>n. \<exists>e. load_media E n playlist = Inl e \<and>
      EncryptedHls \<notin> set (e_causes e) \<and> FMP4Hls \<notin> set (e_causes e)"
    and "\<forall>n. pe_cancelled E n = None" and "ps_failures st = 0"
  shows "(\<exists>d. fst (pull_rounds E 4 playlist st) = Wait d) \<and>
    (\<exists>e st'. pull_rounds E 5 playlist st = (Stop e, st') \<and> ps_out st' = ps_out st \<and>
       ps_tried st' = ps_tried st)"
proof -
  have step: "\<exists>e. pull_round E playlist st =
      (if Suc (ps_failures st) \<ge> max_failures then Stop e else Wait (int (Suc (ps_failures st)) * second),
       st\<lparr>ps_requests := Suc (ps_requests st), ps_failures := Suc (ps_failures st)\<rparr>)" for st
    using pull_round_failed [of E st playlist] assms(1,2) by blast
  have "\<exists>e d. pull_rounds E k playlist st =
      (if k \<ge> 1 \<and> ps_failures st + k \<ge> max_failures then Stop e else Wait d,
       st\<lparr>ps_requests := ps_requests st + k, ps_failures := ps_failures st + k\<rparr>)"
    if "ps_failures st + k \<le> max_failures" for k st
    using that
  proof (induction k arbitrary: st)
    case (Suc k)
    obtain e where e: "pull_round E playlist st =
      (if Suc (ps_failures st) \<ge> max_failures then Stop e else Wait (int (Suc (ps_failures st)) * second),
       st\<lparr>ps_requests := Suc (ps_requests st), ps_failures := Suc (ps_failures st)\<rparr>)"
      using step by blast
    show ?case
    proof (cases "k = 0")
      case True
      with e assms(2) show ?thesis by auto
    next
      case False
      with Suc.prems have "\<not> Suc (ps_failures st) \<ge> max_failures" by simp
      with e assms(2) Suc.IH [of "st\<lparr>ps_requests := Suc (ps_requests st), ps_failures := Suc (ps_failures st)\<rparr>"]
        Suc.prems False show ?thesis by auto
    qed
  qed simp
  from this [of st 4] this [of st 5] assms(3) show ?thesis by (auto simp: max_failures_def)
qed

theorem gives_up_after_five_failures_witness:
  "\<exists>e st'. pull_rounds (example_env [] []) 5 (example_url ''live.m3u8'') pull_start = (Stop e, st') \<and> ps_out st' = []"
proof -
  have l: "load_media (example_env [] []) n (example_url ''live.m3u8'') = Inl err_no_segments" for n
    by (simp add: load_media_def hls_get_def example_env_def example_url_def scan_lines_small max_line_def
        body_lines_def media_start_def)
  show ?thesis
    using gives_up_after_five_failures [of "example_env [] []" "example_url ''live.m3u8''" pull_start] l
    by (auto simp: err_no_segments_def err_text_def example_env_def pull_start_def)
qed

text \<open>From a master playlist the variant taken is one of those listed, and no listed variant
  has a greater value for the bandwidth the code reads.\<close>

theorem resolve_variant_best:
  assumes "hls_get E n entry = Inr r" and "base = (case hr_url r of None \<Rightarrow> entry | Some u \<Rightarrow> u)"
    and "vs_master (fold (variant_line (pe_ops E) base) (fst (scan_lines r)) variant_start)"
    and "resolve_variant E n entry = Inr u"
  shows "\<exists>bw. (bw, u) \<in> set (variants (pe_ops E) base None (fst (scan_lines r))) \<and>
    (\<forall>(bw', u') \<in> set (variants (pe_ops E) base None (fst (scan_lines r))). bw' \<le> bw)"
proof -
  let ?v = "fold (variant_line (pe_ops E) base) (fst (scan_lines r)) variant_start"
  have "best_of ?v ({} \<union> set (variants (pe_ops E) base None (fst (scan_lines r))))"
    by (rule variant_fold) (simp_all add: pending_matches_def variant_start_def best_of_def)
  moreover have "vs_best ?v = Some u"
    using assms by (auto simp: resolve_variant_def Let_def split: option.splits)
  ultimately show ?thesis by (auto simp: best_of_def)
qed

definition master_body :: bytes where
  "master_body = ''#EXT-X-STREAM-INF:BANDWIDTH=9'' @ newline # ''high.m3u8''"

theorem resolve_variant_best_witness:
  "\<exists>bw. (bw, example_url ''high.m3u8'') \<in>
     set (variants example_ops (example_url ''live.m3u8'') None [''#EXT-X-STREAM-INF:BANDWIDTH=9'', ''high.m3u8''])"
proof -
  let ?E = "example_env master_body []" and ?r = "\<lparr>hr_status = 200, hr_url = None, hr_body = master_body, hr_read_error = None\<rparr>"
  have g: "hls_get ?E 0 (example_url ''live.m3u8'') = Inr ?r"
    by (simp add: hls_get_def example_env_def example_url_def)
  have b: "body_lines master_body = [''#EXT-X-STREAM-INF:BANDWIDTH=9'', ''high.m3u8'']" by code_simp
  have "length master_body < max_line" by (simp add: master_body_def max_line_def)
  then have l: "fst (scan_lines ?r) = [''#EXT-X-STREAM-INF:BANDWIDTH=9'', ''high.m3u8'']"
    by (simp add: scan_lines_small b drop_cr_def)
  have t: "trim_space ''#EXT-X-STREAM-INF:BANDWIDTH=9'' = ''#EXT-X-STREAM-INF:BANDWIDTH=9''"
    "trim_space ''high.m3u8'' = ''high.m3u8''" by code_simp+
  have a: "attr_int ''#EXT-X-STREAM-INF:BANDWIDTH=9'' ''BANDWIDTH'' = 9"
    by (simp add: attr_int_def trim_both_def parse_int64_def parse_uint64_def is_digit_def digit_val_def trim_right_def)
  have f: "fold (variant_line example_ops (example_url ''live.m3u8'')) [''#EXT-X-STREAM-INF:BANDWIDTH=9'', ''high.m3u8'']
      variant_start = \<lparr>vs_best = Some (example_url ''high.m3u8''), vs_best_bw = 9, vs_pending = -2, vs_master = True\<rparr>"
    by (simp add: variant_line_def t a variant_start_def resolve_uri_def example_ops_def example_url_def)
  have o: "pe_ops ?E = example_ops" by (simp add: example_env_def)
  have "resolve_variant ?E 0 (example_url ''live.m3u8'') = Inr (example_url ''high.m3u8'')"
    using f by (simp add: resolve_variant_def g l o del: fold.simps)
  from resolve_variant_best [OF g refl _ this] f l o show ?thesis by auto
qed

text \<open>The value read is not always the BANDWIDTH attribute: on a tag that lists
  AVERAGE-BANDWIDTH first, the average is taken for it, whatever BANDWIDTH says.\<close>

theorem average_bandwidth_taken:
  "attr_int (''#EXT-X-STREAM-INF:AVERAGE-BANDWIDTH=1,'' @ rest) ''BANDWIDTH'' = 1"
  by (simp add: attr_int_def trim_both_def parse_int64_def parse_uint64_def is_digit_def digit_val_def trim_right_def)

end
