(* ===== verification/Remux.thy ===== *)
theory Remux imports Urls "HOL-Library.AList" begin

text \<open>
  \<open>internal/remux/remux.go\<close>: the manager of the shared FFmpeg sessions.

  A \<open>*Session\<close> is an index into the list of all sessions ever started, a \<open>*pendingOpen\<close> an index
  that counts the opens. Each critical section is one operation: \<open>Start\<close> is \<open>start_begin\<close> (up to
  the unlock), the fetch of the source outside the lock, and \<open>start_finish\<close> (the second section
  with the deferred release). The process itself shows as three steps: it may publish its
  playlist, it exits (\<open>watch\<close>), and the directory of a stopped session is removed.

  The random session identifiers and the temporary directories are arguments; the step relation
  takes them fresh, as \<open>crypto/rand\<close> and \<open>os.MkdirTemp\<close> give them.
\<close>

section \<open>Slots\<close>

definition default_slots :: int where "default_slots = 2"
definition max_slots :: int where "max_slots = 32"
definition default_relay_node_slots :: int where "default_relay_node_slots = 16"
definition idle_time :: duration where "idle_time = 90 * second"

text \<open>The argument is the value of \<open>STREAMVAULT_REMUX_SLOTS\<close>, empty when it is not set.\<close>

definition slots_from_env :: "string \<Rightarrow> int \<Rightarrow> int" where
  "slots_from_env env def =
     (case parse_int64 env of
        (n, ParseOk) \<Rightarrow> if n \<ge> 1 \<and> n \<le> max_slots then n else def
      | _ \<Rightarrow> def)"

section \<open>State\<close>

record session =
  rs_id :: string
  rs_stream :: int
  rs_signature :: string
  rs_dir :: string
  rs_last_used :: time
  rs_done :: bool
  rs_pinned :: bool
  rs_cancelled :: bool

record pending_open =
  po_ref :: nat
  po_stream :: int
  po_cancelled :: bool

record manager =
  rm_heap :: "session list"
  rm_sessions :: "(int \<times> nat) list"
  rm_by_id :: "(string \<times> nat) list"
  rm_pending :: "pending_open list"
  rm_next_open :: nat
  rm_closed :: bool
  rm_slots_used :: nat
  rm_slots_cap :: nat
  rm_playlists :: "string list"  \<comment> \<open>the directories that hold an \<open>index.m3u8\<close>\<close>

definition new_manager :: "nat \<Rightarrow> manager" where
  "new_manager slots =
     \<lparr>rm_heap = [], rm_sessions = [], rm_by_id = [], rm_pending = [], rm_next_open = 0,
      rm_closed = False, rm_slots_used = 0, rm_slots_cap = slots, rm_playlists = []\<rparr>"

definition upd_session :: "manager \<Rightarrow> nat \<Rightarrow> (session \<Rightarrow> session) \<Rightarrow> manager" where
  "upd_session m r f = m\<lparr>rm_heap := (rm_heap m)[r := f (rm_heap m ! r)]\<rparr>"

abbreviation session_at :: "manager \<Rightarrow> nat \<Rightarrow> session" where
  "session_at m r \<equiv> rm_heap m ! r"

definition touch_session :: "manager \<Rightarrow> time \<Rightarrow> nat \<Rightarrow> manager" where
  "touch_session m now r = upd_session m r (\<lambda>s. s\<lparr>rs_last_used := now\<rparr>)"

definition has_playlist :: "manager \<Rightarrow> nat \<Rightarrow> bool" where
  "has_playlist m r \<longleftrightarrow> rs_dir (session_at m r) \<in> set (rm_playlists m)"

section \<open>Operations\<close>

definition remux_slots :: "manager \<Rightarrow> nat" where
  "remux_slots m = rm_slots_cap m"

definition stop_locked :: "manager \<Rightarrow> nat \<Rightarrow> manager" where
  "stop_locked m r =
     (let s = session_at m r
      in (upd_session m r (\<lambda>s. s\<lparr>rs_cancelled := True\<rparr>))
           \<lparr>rm_sessions := AList.delete (rs_stream s) (rm_sessions m),
            rm_by_id := AList.delete (rs_id s) (rm_by_id m)\<rparr>)"

definition set_pinned :: "manager \<Rightarrow> time \<Rightarrow> int \<Rightarrow> bool \<Rightarrow> bool \<times> manager" where
  "set_pinned m now stream_id pinned =
     (case map_of (rm_sessions m) stream_id of
        None \<Rightarrow> (False, m)
      | Some r \<Rightarrow> (True, upd_session m r (\<lambda>s. s\<lparr>rs_pinned := pinned, rs_last_used := now\<rparr>)))"

definition pinned_streams :: "manager \<Rightarrow> (int \<times> bool) list" where
  "pinned_streams m =
     map (\<lambda>(i, r). (i, \<not> rs_done (session_at m r)))
       (filter (\<lambda>(i, r). rs_pinned (session_at m r)) (rm_sessions m))"

definition current_session :: "manager \<Rightarrow> int \<Rightarrow> nat option" where
  "current_session m stream_id = map_of (rm_sessions m) stream_id"

definition cancel_opens :: "int \<Rightarrow> pending_open list \<Rightarrow> pending_open list" where
  "cancel_opens stream_id ps = map (\<lambda>p. if po_stream p = stream_id then p\<lparr>po_cancelled := True\<rparr> else p) ps"

definition stop_stream :: "manager \<Rightarrow> int \<Rightarrow> manager" where
  "stop_stream m stream_id =
     (let m1 = m\<lparr>rm_pending := cancel_opens stream_id (rm_pending m)\<rparr>
      in (case map_of (rm_sessions m1) stream_id of None \<Rightarrow> m1 | Some r \<Rightarrow> stop_locked m1 r))"

definition existing :: "manager \<Rightarrow> time \<Rightarrow> int \<Rightarrow> string \<Rightarrow> nat option \<times> manager" where
  "existing m now stream_id signature =
     (case map_of (rm_sessions m) stream_id of
        None \<Rightarrow> (None, m)
      | Some r \<Rightarrow>
          if rs_signature (session_at m r) \<noteq> signature then (None, m)
          else if rs_done (session_at m r) \<and> \<not> has_playlist m r then (None, stop_locked m r)
          else (Some r, touch_session m now r))"

datatype start_result = Joined nat | Failed go_error | Opening nat

text \<open>The first section of \<open>Start\<close>: what it does with a session of the stream.\<close>

definition start_existing :: "manager \<Rightarrow> time \<Rightarrow> int \<Rightarrow> string \<Rightarrow> nat option \<times> manager" where
  "start_existing m now stream_id signature =
     (case map_of (rm_sessions m) stream_id of
        None \<Rightarrow> (None, m)
      | Some r \<Rightarrow>
          if rs_signature (session_at m r) = signature
          then (if has_playlist m r then (Some r, touch_session m now r)
                else if rs_done (session_at m r) then (None, stop_locked m r)
                else (Some r, touch_session m now r))
          else (None, stop_locked m r))"

definition start_begin :: "manager \<Rightarrow> time \<Rightarrow> int \<Rightarrow> string \<Rightarrow> start_result \<times> manager" where
  "start_begin m now stream_id signature =
     (if rm_closed m then (Failed (err_text ''remux manager closed''), m)
      else (case start_existing m now stream_id signature of
              (Some r, m1) \<Rightarrow> (Joined r, m1)
            | (None, m1) \<Rightarrow>
                if rm_slots_used m1 < rm_slots_cap m1
                then (Opening (rm_next_open m1),
                      m1\<lparr>rm_slots_used := Suc (rm_slots_used m1),
                         rm_pending := rm_pending m1 @
                           [\<lparr>po_ref = rm_next_open m1, po_stream = stream_id, po_cancelled = False\<rparr>],
                         rm_next_open := Suc (rm_next_open m1)\<rparr>)
                else (Failed (err_text ''remux session limit reached''), m1)))"

text \<open>What opening the source came to: an error before there was a body, or a body, with the
  identifier and the directory made for the session and whether FFmpeg could be started.\<close>

datatype opened = OpenFailed go_error | OpenReady string string bool

definition release_open :: "manager \<Rightarrow> nat \<Rightarrow> bool \<Rightarrow> manager" where
  "release_open m p started =
     m\<lparr>rm_pending := filter (\<lambda>q. po_ref q \<noteq> p) (rm_pending m),
       rm_slots_used := (if started then rm_slots_used m else rm_slots_used m - 1)\<rparr>"

definition start_finish ::
  "manager \<Rightarrow> time \<Rightarrow> pending_open \<Rightarrow> string \<Rightarrow> opened \<Rightarrow> start_result \<times> manager" where
  "start_finish m now p signature outcome =
     (case outcome of
        OpenFailed e \<Rightarrow> (Failed e, release_open m (po_ref p) False)
      | OpenReady new_id dir spawned \<Rightarrow>
          if po_cancelled p then (Failed (err_text ''remux start cancelled''), release_open m (po_ref p) False)
          else if rm_closed m then (Failed (err_text ''remux manager closed''), release_open m (po_ref p) False)
          else (case map_of (rm_sessions m) (po_stream p) of
                  Some r \<Rightarrow> (Joined r, release_open (touch_session m now r) (po_ref p) False)
                | None \<Rightarrow>
                    if \<not> spawned then (Failed (err_text ''starting ffmpeg''), release_open m (po_ref p) False)
                    else (let r = length (rm_heap m);
                              s = \<lparr>rs_id = new_id, rs_stream = po_stream p, rs_signature = signature,
                                   rs_dir = dir, rs_last_used = now, rs_done = False, rs_pinned = False,
                                   rs_cancelled = False\<rparr>
                          in (Joined r,
                              release_open (m\<lparr>rm_heap := rm_heap m @ [s],
                                rm_sessions := AList.update (po_stream p) r (rm_sessions m),
                                rm_by_id := AList.update new_id r (rm_by_id m)\<rparr>) (po_ref p) True))))"

definition stop_all :: "nat list \<Rightarrow> manager \<Rightarrow> manager" where
  "stop_all rs m = fold (\<lambda>r m. stop_locked m r) rs m"

definition close_manager :: "manager \<Rightarrow> manager" where
  "close_manager m =
     (let m1 = m\<lparr>rm_closed := True, rm_pending := map (\<lambda>p. p\<lparr>po_cancelled := True\<rparr>) (rm_pending m)\<rparr>
      in stop_all (map snd (rm_sessions m1)) m1)"

text \<open>The process of a session exits.\<close>

definition watch_exit :: "manager \<Rightarrow> nat \<Rightarrow> manager" where
  "watch_exit m r =
     (upd_session m r (\<lambda>s. s\<lparr>rs_cancelled := True, rs_done := True\<rparr>))
       \<lparr>rm_slots_used := rm_slots_used m - 1\<rparr>"

definition segment_name :: "string \<Rightarrow> bool" where
  "segment_name s \<longleftrightarrow>
     length s = 12 \<and> take 3 s = ''seg'' \<and> list_all is_digit (take 6 (drop 3 s)) \<and> drop 9 s = ''.ts''"

definition index_name :: string where
  "index_name = ''index.m3u8''"

definition get_path :: "manager \<Rightarrow> time \<Rightarrow> int \<Rightarrow> string \<Rightarrow> string \<Rightarrow> (string \<times> string) option \<times> manager" where
  "get_path m now stream_id sid name =
     (if name \<noteq> index_name \<and> \<not> segment_name name then (None, m)
      else (case map_of (rm_by_id m) sid of
              None \<Rightarrow> (None, m)
            | Some r \<Rightarrow>
                if rs_stream (session_at m r) \<noteq> stream_id then (None, m)
                else (Some (rs_dir (session_at m r), name), touch_session m now r)))"

definition first_segment_timeout :: duration where
  "first_segment_timeout = 35 * second"

text \<open>One turn of \<open>WaitPlaylist\<close>: it ends with a path, with an error, or goes on. The channels are
  looked at after the file, so a session that is done gets one more look at it.\<close>

definition wait_turn ::
  "manager \<Rightarrow> time \<Rightarrow> nat \<Rightarrow> bool \<Rightarrow> (go_error, string \<times> string) result option \<times> manager" where
  "wait_turn m now r deadline_passed =
     (let s = session_at m r;
          look = (\<lambda>m. case get_path m now (rs_stream s) (rs_id s) index_name of
                    (Some (d, n), m') \<Rightarrow> (if d \<in> set (rm_playlists m') then Some (d, n) else None, m')
                  | (None, m') \<Rightarrow> (None, m'))
      in (case look m of
            (Some p, m1) \<Rightarrow> (Some (Inr p), m1)
          | (None, m1) \<Rightarrow>
              if rs_done (session_at m1 r)
              then (case look m1 of
                      (Some p, m2) \<Rightarrow> (Some (Inr p), m2)
                    | (None, m2) \<Rightarrow> (Some (Inl (err_text ''ffmpeg exited before creating a playlist'')), m2))
              else if deadline_passed then (Some (Inl (err_text ''timed out waiting for first HLS segment'')), m1)
              else (None, m1)))"

text \<open>\<open>WaitPlaylist\<close>: the looks before the deadline, each with its time and what others do until the next,
  and a last one when the deadline has passed.\<close>

fun wait_playlist ::
  "(time \<times> (manager \<Rightarrow> manager)) list \<Rightarrow> time \<Rightarrow> nat \<Rightarrow> manager \<Rightarrow> (go_error, string \<times> string) result \<times> manager" where
  "wait_playlist [] deadline r m =
     (case wait_turn m deadline r True of
        (Some res, m1) \<Rightarrow> (res, m1)
      | (None, m1) \<Rightarrow> (Inl (err_text ''timed out waiting for first HLS segment''), m1))"
| "wait_playlist ((now, others) # turns) deadline r m =
     (case wait_turn m now r False of
        (Some res, m1) \<Rightarrow> (res, m1)
      | (None, m1) \<Rightarrow> wait_playlist turns deadline r (others m1))"

definition idle :: "time \<Rightarrow> session \<Rightarrow> bool" where
  "idle now s \<longleftrightarrow> \<not> rs_pinned s \<and> time_sub now (rs_last_used s) > idle_time"

definition reap_idle :: "manager \<Rightarrow> time \<Rightarrow> manager" where
  "reap_idle m now = stop_all (filter (\<lambda>r. idle now (session_at m r)) (map snd (rm_sessions m))) m"

definition looks_like_mpegts :: "bytes \<Rightarrow> bool" where
  "looks_like_mpegts b =
     list_ex (\<lambda>off. off + 376 < length b \<and>
                 b ! off = CHR 0x47 \<and> b ! (off + 188) = CHR 0x47 \<and> b ! (off + 376) = CHR 0x47)
       [0..<188]"

section \<open>Steps\<close>

fun fresh_open :: "manager \<Rightarrow> opened \<Rightarrow> bool" where
  "fresh_open m (OpenFailed e) = True"
| "fresh_open m (OpenReady i d b) \<longleftrightarrow> i \<notin> rs_id ` set (rm_heap m) \<and> d \<notin> rs_dir ` set (rm_heap m)"

inductive rm_step :: "manager \<Rightarrow> manager \<Rightarrow> bool" where
  step_begin: "rm_step m (snd (start_begin m now i sig))"
| step_finish: "p \<in> set (rm_pending m) \<Longrightarrow> fresh_open m out \<Longrightarrow> rm_step m (snd (start_finish m now p sig out))"
| step_existing: "rm_step m (snd (existing m now i sig))"
| step_set_pinned: "rm_step m (snd (set_pinned m now i b))"
| step_stop: "rm_step m (stop_stream m i)"
| step_close: "rm_step m (close_manager m)"
| step_get_path: "rm_step m (snd (get_path m now i sid name))"
| step_reap: "rm_step m (reap_idle m now)"
| step_exit: "r < length (rm_heap m) \<Longrightarrow> \<not> rs_done (session_at m r) \<Longrightarrow> rm_step m (watch_exit m r)"
| step_playlist: "r < length (rm_heap m) \<Longrightarrow> \<not> rs_done (session_at m r) \<Longrightarrow>
    rm_step m (m\<lparr>rm_playlists := rs_dir (session_at m r) # rm_playlists m\<rparr>)"
| step_remove: "r < length (rm_heap m) \<Longrightarrow> rs_done (session_at m r) \<Longrightarrow> r \<notin> snd ` set (rm_sessions m) \<Longrightarrow>
    rm_step m (m\<lparr>rm_playlists := removeAll (rs_dir (session_at m r)) (rm_playlists m)\<rparr>)"

inductive rm_reachable :: "nat \<Rightarrow> manager \<Rightarrow> bool" for cap :: nat where
  reach_new: "rm_reachable cap (new_manager cap)"
| reach_step: "rm_reachable cap m \<Longrightarrow> rm_step m m' \<Longrightarrow> rm_reachable cap m'"

section \<open>Invariant\<close>

text \<open>The two tables name the same sessions, and every process that was not told to end is one of
  them.\<close>

definition tables_ok :: "manager \<Rightarrow> bool" where
  "tables_ok m \<longleftrightarrow>
     distinct (map fst (rm_sessions m)) \<and> distinct (map fst (rm_by_id m)) \<and> distinct (map rs_id (rm_heap m)) \<and>
     (\<forall>i r. (i, r) \<in> set (rm_sessions m) \<longrightarrow>
        r < length (rm_heap m) \<and> rs_stream (session_at m r) = i \<and> (rs_id (session_at m r), r) \<in> set (rm_by_id m)) \<and>
     (\<forall>k r. (k, r) \<in> set (rm_by_id m) \<longrightarrow>
        r < length (rm_heap m) \<and> rs_id (session_at m r) = k \<and> (rs_stream (session_at m r), r) \<in> set (rm_sessions m)) \<and>
     (\<forall>r < length (rm_heap m). \<not> rs_cancelled (session_at m r) \<longrightarrow> (rs_stream (session_at m r), r) \<in> set (rm_sessions m))"

definition running :: "manager \<Rightarrow> session list" where
  "running m = filter (\<lambda>s. \<not> rs_done s) (rm_heap m)"

text \<open>Every slot in use is held by an open in flight or by a process that has not exited.\<close>

definition slots_ok :: "manager \<Rightarrow> bool" where
  "slots_ok m \<longleftrightarrow>
     rm_slots_used m = length (rm_pending m) + length (running m) \<and> rm_slots_used m \<le> rm_slots_cap m \<and>
     distinct (map po_ref (rm_pending m)) \<and> (\<forall>p \<in> set (rm_pending m). po_ref p < rm_next_open m)"

definition closed_ok :: "manager \<Rightarrow> bool" where
  "closed_ok m \<longleftrightarrow> (rm_closed m \<longrightarrow> rm_sessions m = [] \<and> (\<forall>p \<in> set (rm_pending m). po_cancelled p))"

definition rm_inv :: "manager \<Rightarrow> bool" where
  "rm_inv m \<longleftrightarrow> tables_ok m \<and> slots_ok m \<and> closed_ok m"

lemma tables_ok_session:
  "tables_ok m \<Longrightarrow> map_of (rm_sessions m) i = Some r \<Longrightarrow> r < length (rm_heap m) \<and> rs_stream (session_at m r) = i"
  by (auto simp: tables_ok_def dest: map_of_SomeD)

text \<open>An update that leaves the identity of sessions alone keeps the tables in order.\<close>

lemma upd_session_simps [simp]:
  "rm_sessions (upd_session m r f) = rm_sessions m" "rm_by_id (upd_session m r f) = rm_by_id m"
  "rm_pending (upd_session m r f) = rm_pending m" "rm_next_open (upd_session m r f) = rm_next_open m"
  "rm_closed (upd_session m r f) = rm_closed m" "rm_slots_used (upd_session m r f) = rm_slots_used m"
  "rm_slots_cap (upd_session m r f) = rm_slots_cap m" "rm_playlists (upd_session m r f) = rm_playlists m"
  "length (rm_heap (upd_session m r f)) = length (rm_heap m)"
  by (simp_all add: upd_session_def)

lemma upd_session_at:
  "r < length (rm_heap m) \<Longrightarrow> session_at (upd_session m r f) q = (if q = r then f (session_at m r) else session_at m q)"
  by (simp add: upd_session_def)

lemma upd_session_field:
  assumes "g (f (session_at m r)) = g (session_at m r)"
  shows "map g (rm_heap (upd_session m r f)) = map g (rm_heap m)"
    "g (session_at (upd_session m r f) q) = g (session_at m q)"
proof -
  show "map g (rm_heap (upd_session m r f)) = map g (rm_heap m)"
    using assms by (simp add: upd_session_def map_update) (metis list_update_id map_update)
  show "g (session_at (upd_session m r f) q) = g (session_at m q)"
    using assms by (cases "r < length (rm_heap m)") (auto simp: upd_session_def nth_list_update list_update_beyond)
qed

lemma upd_session_tables:
  assumes "tables_ok m"
    and "rs_id (f (session_at m r)) = rs_id (session_at m r)"
    and "rs_stream (f (session_at m r)) = rs_stream (session_at m r)"
    and "rs_cancelled (session_at m r) \<Longrightarrow> rs_cancelled (f (session_at m r))"
  shows "tables_ok (upd_session m r f)"
proof -
  note s = upd_session_field [where g = rs_id and f = f and m = m and r = r, OF assms(2)]
    upd_session_field [where g = rs_stream and f = f and m = m and r = r, OF assms(3)]
  have c: "rs_cancelled (session_at m q) \<Longrightarrow> rs_cancelled (session_at (upd_session m r f) q)" for q
    using assms(4) by (cases "r < length (rm_heap m)") (auto simp: upd_session_def nth_list_update list_update_beyond)
  show ?thesis using assms(1) c unfolding tables_ok_def s upd_session_simps by blast
qed

lemma upd_session_slots:
  assumes "slots_ok m" and "rs_done (f (session_at m r)) = rs_done (session_at m r)"
  shows "slots_ok (upd_session m r f)"
proof -
  have "length (running (upd_session m r f)) = length (filter (\<lambda>b. \<not> b) (map rs_done (rm_heap (upd_session m r f))))"
    by (simp add: running_def filter_map comp_def)
  also have "\<dots> = length (running m)"
    unfolding upd_session_field(1) [where g = rs_done and f = f and m = m and r = r, OF assms(2)] by (simp add: running_def filter_map comp_def)
  finally show ?thesis using assms(1) by (simp add: slots_ok_def)
qed

lemma upd_session_inv:
  assumes "rm_inv m"
    and "rs_id (f (session_at m r)) = rs_id (session_at m r)"
    and "rs_stream (f (session_at m r)) = rs_stream (session_at m r)"
    and "rs_cancelled (session_at m r) \<Longrightarrow> rs_cancelled (f (session_at m r))"
    and "rs_done (f (session_at m r)) = rs_done (session_at m r)"
  shows "rm_inv (upd_session m r f)"
  using assms upd_session_tables upd_session_slots by (simp add: rm_inv_def closed_ok_def)

lemma touch_inv [inv_intros]: "rm_inv m \<Longrightarrow> rm_inv (touch_session m now r)"
  unfolding touch_session_def by (rule upd_session_inv) simp_all

text \<open>Stopping a session takes exactly it out of both tables.\<close>

lemma stop_locked_fields [simp]:
  "rm_pending (stop_locked m r) = rm_pending m" "rm_next_open (stop_locked m r) = rm_next_open m"
  "rm_closed (stop_locked m r) = rm_closed m" "rm_slots_used (stop_locked m r) = rm_slots_used m"
  "rm_slots_cap (stop_locked m r) = rm_slots_cap m" "rm_playlists (stop_locked m r) = rm_playlists m"
  "rm_heap (stop_locked m r) = rm_heap (upd_session m r (\<lambda>s. s\<lparr>rs_cancelled := True\<rparr>))"
  by (simp_all add: stop_locked_def Let_def)

lemma stop_locked_sessions:
  assumes T: "tables_ok m" and r: "r \<in> snd ` set (rm_sessions m)"
  shows "(j, q) \<in> set (rm_sessions (stop_locked m r)) \<longleftrightarrow> (j, q) \<in> set (rm_sessions m) \<and> q \<noteq> r"
    and "(k, q) \<in> set (rm_by_id (stop_locked m r)) \<longleftrightarrow> (k, q) \<in> set (rm_by_id m) \<and> q \<noteq> r"
proof -
  let ?s = "session_at m r"
  from r T have m: "(rs_stream ?s, r) \<in> set (rm_sessions m)" "r < length (rm_heap m)"
    by (force simp: tables_ok_def)+
  have "distinct (map fst (rm_sessions m))" using T by (simp add: tables_ok_def)
  then have i: "(rs_stream ?s, q) \<in> set (rm_sessions m) \<Longrightarrow> q = r"
    using eq_key_imp_eq_value [of "rm_sessions m" "rs_stream ?s" q r] m by simp
  moreover have "(j, q) \<in> set (rm_sessions m) \<Longrightarrow> rs_stream (session_at m q) = j"
    using T by (simp add: tables_ok_def)
  ultimately show "(j, q) \<in> set (rm_sessions (stop_locked m r)) \<longleftrightarrow> (j, q) \<in> set (rm_sessions m) \<and> q \<noteq> r"
    by (auto simp: stop_locked_def Let_def AList.delete_eq)
  have "(k, q) \<in> set (rm_by_id m) \<Longrightarrow> rs_id (session_at m q) = k \<and> q < length (rm_heap m)"
    using T by (simp add: tables_ok_def)
  moreover have "rs_id (session_at m q) = rs_id ?s \<longleftrightarrow> q = r" if "q < length (rm_heap m)"
    using T m(2) that nth_eq_iff_index_eq [of "map rs_id (rm_heap m)" q r] by (simp add: tables_ok_def)
  ultimately show "(k, q) \<in> set (rm_by_id (stop_locked m r)) \<longleftrightarrow> (k, q) \<in> set (rm_by_id m) \<and> q \<noteq> r"
    by (auto simp: stop_locked_def Let_def AList.delete_eq)
qed

lemma stop_locked_tables:
  assumes T: "tables_ok m" and r: "r \<in> snd ` set (rm_sessions m)"
  shows "tables_ok (stop_locked m r)"
proof -
  let ?u = "upd_session m r (\<lambda>s. s\<lparr>rs_cancelled := True\<rparr>)"
  have "r < length (rm_heap m)" using T r by (force simp: tables_ok_def)
  then have F: "rs_id (session_at ?u q) = rs_id (session_at m q)" "rs_stream (session_at ?u q) = rs_stream (session_at m q)"
    "rs_cancelled (session_at ?u q) \<longleftrightarrow> q = r \<or> rs_cancelled (session_at m q)" for q
    by (simp_all add: upd_session_at)
  have u: "tables_ok ?u" by (rule upd_session_tables [OF T]) simp_all
  have D: "distinct (map fst (rm_sessions (stop_locked m r)))" "distinct (map fst (rm_by_id (stop_locked m r)))"
    "distinct (map rs_id (rm_heap ?u))"
    using T u by (auto simp: stop_locked_def Let_def AList.delete_eq tables_ok_def intro: distinct_map_filter)
  show ?thesis
    using T D unfolding tables_ok_def stop_locked_sessions [OF T r] stop_locked_fields F upd_session_simps by blast
qed

lemma stop_locked_slots: "slots_ok m \<Longrightarrow> slots_ok (stop_locked m r)"
  using upd_session_slots [of m "\<lambda>s. s\<lparr>rs_cancelled := True\<rparr>" r] by (simp add: slots_ok_def running_def)

lemma stop_locked_closed: "closed_ok m \<Longrightarrow> closed_ok (stop_locked m r)"
  by (auto simp: closed_ok_def stop_locked_def Let_def)

lemma stop_locked_inv [inv_intros]:
  "rm_inv m \<Longrightarrow> map_of (rm_sessions m) i = Some r \<Longrightarrow> rm_inv (stop_locked m r)"
  using stop_locked_tables stop_locked_slots stop_locked_closed
  by (force simp: rm_inv_def dest: map_of_SomeD)

lemma stop_all_tables:
  assumes "tables_ok m" and "slots_ok m" and "distinct rs" and "set rs \<subseteq> snd ` set (rm_sessions m)"
  shows "tables_ok (stop_all rs m) \<and> slots_ok (stop_all rs m) \<and>
    rm_closed (stop_all rs m) = rm_closed m \<and> rm_pending (stop_all rs m) = rm_pending m \<and>
    (\<forall>j q. (j, q) \<in> set (rm_sessions (stop_all rs m)) \<longleftrightarrow> (j, q) \<in> set (rm_sessions m) \<and> q \<notin> set rs)"
  using assms
proof (induction rs arbitrary: m)
  case (Cons r rs)
  have r: "r \<in> snd ` set (rm_sessions m)" using Cons.prems by simp
  have "set rs \<subseteq> snd ` set (rm_sessions (stop_locked m r))"
  proof
    fix q assume q: "q \<in> set rs"
    then obtain j where "(j, q) \<in> set (rm_sessions m)" using Cons.prems(4) by auto
    with q Cons.prems(3) stop_locked_sessions(1) [OF Cons.prems(1) r, of j q] show "q \<in> snd ` set (rm_sessions (stop_locked m r))"
      by force
  qed
  from Cons.IH [OF stop_locked_tables [OF Cons.prems(1) r] stop_locked_slots [OF Cons.prems(2)] _ this] Cons.prems(3)
    stop_locked_sessions(1) [OF Cons.prems(1) r]
  show ?case by (auto simp: stop_all_def)
qed (simp add: stop_all_def)

lemma session_refs_distinct: "tables_ok m \<Longrightarrow> distinct (map snd (rm_sessions m))"
proof -
  assume T: "tables_ok m"
  then have "distinct (rm_sessions m)" by (simp add: tables_ok_def distinct_map)
  moreover have "inj_on snd (set (rm_sessions m))"
  proof (rule inj_onI)
    fix x y assume xy: "x \<in> set (rm_sessions m)" "y \<in> set (rm_sessions m)" "snd x = snd y"
    with T have "fst x = rs_stream (session_at m (snd x))" "fst y = rs_stream (session_at m (snd y))"
      unfolding tables_ok_def by (metis prod.collapse)+
    with xy show "x = y" by (simp add: prod_eq_iff)
  qed
  ultimately show ?thesis by (simp add: distinct_map)
qed

lemma reap_inv [inv_intros]:
  assumes "rm_inv m"
  shows "rm_inv (reap_idle m now)"
proof -
  have T: "tables_ok m" "slots_ok m" using assms by (simp_all add: rm_inv_def)
  let ?rs = "filter (\<lambda>r. idle now (session_at m r)) (map snd (rm_sessions m))"
  have "distinct ?rs" using session_refs_distinct [OF T(1)] by (rule distinct_filter)
  moreover have "set ?rs \<subseteq> snd ` set (rm_sessions m)" by auto
  ultimately have s: "tables_ok (reap_idle m now) \<and> slots_ok (reap_idle m now) \<and>
      rm_closed (reap_idle m now) = rm_closed m \<and> rm_pending (reap_idle m now) = rm_pending m \<and>
      (\<forall>j q. (j, q) \<in> set (rm_sessions (reap_idle m now)) \<longleftrightarrow> (j, q) \<in> set (rm_sessions m) \<and> q \<notin> set ?rs)"
    unfolding reap_idle_def by (rule stop_all_tables [OF T])
  have "rm_sessions m = [] \<Longrightarrow> rm_sessions (reap_idle m now) = []" by (simp add: reap_idle_def stop_all_def)
  with s assms show ?thesis by (auto simp: rm_inv_def closed_ok_def)
qed

text \<open>The list of opens in flight may change in everything but its references.\<close>

lemma pending_inv:
  assumes "tables_ok m" and "slots_ok m" and "map po_ref ps = map po_ref (rm_pending m)"
  shows "tables_ok (m\<lparr>rm_pending := ps\<rparr>)" and "slots_ok (m\<lparr>rm_pending := ps\<rparr>)"
proof -
  have l: "length ps = length (rm_pending m)" using assms(3) by (metis length_map)
  have "po_ref p < rm_next_open m" if "p \<in> set ps" for p
  proof -
    have "po_ref p \<in> set (map po_ref (rm_pending m))" using that assms(3) by (metis image_eqI set_map)
    with assms(2) show ?thesis by (auto simp: slots_ok_def)
  qed
  with assms(2) l show "slots_ok (m\<lparr>rm_pending := ps\<rparr>)"
    by (simp add: slots_ok_def running_def assms(3))
  show "tables_ok (m\<lparr>rm_pending := ps\<rparr>)" using assms(1) by (simp add: tables_ok_def)
qed

lemma close_inv [inv_intros]:
  assumes "rm_inv m"
  shows "rm_inv (close_manager m)"
proof -
  define n where "n = m\<lparr>rm_closed := True, rm_pending := map (\<lambda>p. p\<lparr>po_cancelled := True\<rparr>) (rm_pending m)\<rparr>"
  have c: "close_manager m = stop_all (map snd (rm_sessions n)) n" by (simp add: close_manager_def n_def)
  have T: "tables_ok n" "slots_ok n"
  proof -
    have "map po_ref (rm_pending n) = map po_ref (rm_pending m)" by (simp add: n_def)
    from pending_inv [OF _ _ this] assms
    have "tables_ok (m\<lparr>rm_pending := rm_pending n\<rparr>)" "slots_ok (m\<lparr>rm_pending := rm_pending n\<rparr>)"
      by (simp_all add: rm_inv_def)
    then show "tables_ok n" "slots_ok n" by (simp_all add: n_def tables_ok_def slots_ok_def running_def)
  qed
  have "set (map snd (rm_sessions n)) \<subseteq> snd ` set (rm_sessions n)" by simp
  note s = stop_all_tables [OF T session_refs_distinct [OF T(1)] this, folded c]
  have "(j, q) \<notin> set (rm_sessions (close_manager m))" for j q
    using s by (metis image_eqI set_map snd_conv)
  then have "rm_sessions (close_manager m) = []" by (metis last_in_set surj_pair)
  moreover have "\<forall>p \<in> set (rm_pending (close_manager m)). po_cancelled p" using s by (simp add: n_def)
  ultimately show ?thesis using s by (simp add: rm_inv_def closed_ok_def)
qed

lemma cancel_opens_refs: "map po_ref (cancel_opens i ps) = map po_ref ps"
  by (simp add: cancel_opens_def)

lemma length_filter_update:
  "r < length xs \<Longrightarrow> P (xs ! r) \<Longrightarrow> \<not> P x \<Longrightarrow> Suc (length (filter P (xs[r := x]))) = length (filter P xs)"
proof (induction xs arbitrary: r)
  case (Cons y ys)
  then show ?case by (cases r) auto
qed simp

lemma length_filter_ref:
  "distinct (map po_ref ps) \<Longrightarrow> p \<in> set ps \<Longrightarrow> Suc (length (filter (\<lambda>q. po_ref q \<noteq> po_ref p) ps)) = length ps"
proof (induction ps)
  case (Cons q ps)
  show ?case
  proof (cases "p = q")
    case True
    with Cons.prems(1) have "filter (\<lambda>q. po_ref q \<noteq> po_ref p) ps = ps"
      by (intro filter_True) (auto simp: image_iff)
    with True show ?thesis by simp
  next
    case False
    with Cons.prems have "po_ref q \<noteq> po_ref p" "p \<in> set ps" by (auto simp: image_iff)
    with Cons show ?thesis by simp
  qed
qed simp

lemma alist_update_new: "k \<notin> fst ` set al \<Longrightarrow> AList.update k v al = al @ [(k, v)]"
  by (induction al) auto

lemma exit_inv [inv_intros]:
  assumes "rm_inv m" and "r < length (rm_heap m)" and "\<not> rs_done (session_at m r)"
  shows "rm_inv (watch_exit m r)"
proof -
  let ?f = "\<lambda>s. s\<lparr>rs_cancelled := True, rs_done := True\<rparr>"
  have "tables_ok (upd_session m r ?f)" using assms(1) by (intro upd_session_tables) (simp_all add: rm_inv_def)
  moreover have "Suc (length (running (upd_session m r ?f))) = length (running m)"
    using assms(2,3) length_filter_update [of r "rm_heap m" "\<lambda>s. \<not> rs_done s"]
    by (simp add: running_def upd_session_def)
  ultimately show ?thesis
    using assms(1) by (auto simp: rm_inv_def tables_ok_def slots_ok_def closed_ok_def watch_exit_def running_def)
qed

text \<open>An open gives its slot back, or hands it over to the process it started.\<close>

lemma release_failed_inv [inv_intros]:
  assumes "rm_inv m" and "p \<in> set (rm_pending m)"
  shows "rm_inv (release_open m (po_ref p) False)"
  using assms length_filter_ref [of "rm_pending m" p]
  by (auto simp: rm_inv_def tables_ok_def slots_ok_def closed_ok_def release_open_def running_def
      intro: distinct_map_filter)

lemma release_started_inv:
  assumes "rm_inv m" and "p \<in> set (rm_pending m)" and "\<not> rm_closed m"
    and "map_of (rm_sessions m) (po_stream p) = None" and "rs_id s \<notin> rs_id ` set (rm_heap m)"
    and "rs_stream s = po_stream p" and "\<not> rs_done s"
  shows "rm_inv (release_open (m\<lparr>rm_heap := rm_heap m @ [s],
    rm_sessions := AList.update (po_stream p) (length (rm_heap m)) (rm_sessions m),
    rm_by_id := AList.update (rs_id s) (length (rm_heap m)) (rm_by_id m)\<rparr>) (po_ref p) True)" (is "rm_inv ?m")
proof -
  let ?r = "length (rm_heap m)"
  have T: "tables_ok m" using assms(1) by (simp add: rm_inv_def)
  have n: "po_stream p \<notin> fst ` set (rm_sessions m)" using assms(4) by (simp add: map_of_eq_None_iff)
  have k: "rs_id s \<notin> fst ` set (rm_by_id m)"
  proof
    assume "rs_id s \<in> fst ` set (rm_by_id m)"
    then obtain q where "(rs_id s, q) \<in> set (rm_by_id m)" by auto
    with T have "q < length (rm_heap m)" "rs_id (session_at m q) = rs_id s" by (simp_all add: tables_ok_def)
    with assms(5) show False by (metis image_eqI nth_mem)
  qed
  have f: "rm_sessions ?m = rm_sessions m @ [(po_stream p, ?r)]" "rm_by_id ?m = rm_by_id m @ [(rs_id s, ?r)]"
    "rm_heap ?m = rm_heap m @ [s]"
    by (simp_all add: release_open_def alist_update_new [OF n] alist_update_new [OF k])
  have at: "session_at ?m q = (if q < ?r then session_at m q else s)" if "q \<le> ?r" for q
    using that assms(6) by (auto simp: f nth_append)
  have T1: "q < ?r \<and> rs_stream (session_at m q) = i \<and> (rs_id (session_at m q), q) \<in> set (rm_by_id m)"
    if "(i, q) \<in> set (rm_sessions m)" for i q using T that by (simp add: tables_ok_def)
  have T2: "q < ?r \<and> rs_id (session_at m q) = k \<and> (rs_stream (session_at m q), q) \<in> set (rm_sessions m)"
    if "(k, q) \<in> set (rm_by_id m)" for k q using T that by (simp add: tables_ok_def)
  have T3: "(rs_stream (session_at m q), q) \<in> set (rm_sessions m)"
    if "q < ?r" "\<not> rs_cancelled (session_at m q)" for q using T that by (simp add: tables_ok_def)
  have "tables_ok ?m"
    unfolding tables_ok_def
  proof (intro conjI allI impI)
    show "distinct (map fst (rm_sessions ?m))" "distinct (map fst (rm_by_id ?m))"
      using T n k unfolding f by (simp_all add: tables_ok_def)
    show "distinct (map rs_id (rm_heap ?m))" using T assms(5) unfolding f by (simp add: tables_ok_def)
  next
    fix i q assume "(i, q) \<in> set (rm_sessions ?m)"
    then consider "(i, q) \<in> set (rm_sessions m)" | "i = po_stream p" "q = ?r" unfolding f by auto
    then have "q \<le> ?r \<and> rs_stream (session_at ?m q) = i \<and> (rs_id (session_at ?m q), q) \<in> set (rm_by_id m @ [(rs_id s, ?r)])"
      using T1 [of i q] at [of q] assms(6) by cases simp_all
    then show "q < length (rm_heap ?m)" "rs_stream (session_at ?m q) = i" "(rs_id (session_at ?m q), q) \<in> set (rm_by_id ?m)"
      unfolding f by simp_all
  next
    fix i q assume "(i, q) \<in> set (rm_by_id ?m)"
    then consider "(i, q) \<in> set (rm_by_id m)" | "i = rs_id s" "q = ?r" unfolding f by auto
    then have "q \<le> ?r \<and> rs_id (session_at ?m q) = i \<and> (rs_stream (session_at ?m q), q) \<in> set (rm_sessions m @ [(po_stream p, ?r)])"
      using T2 [of i q] at [of q] assms(6) by cases simp_all
    then show "q < length (rm_heap ?m)" "rs_id (session_at ?m q) = i" "(rs_stream (session_at ?m q), q) \<in> set (rm_sessions ?m)"
      unfolding f by simp_all
  next
    fix q assume q: "q < length (rm_heap ?m)" "\<not> rs_cancelled (session_at ?m q)"
    then have "q \<le> ?r" unfolding f by simp
    then have "(rs_stream (session_at ?m q), q) \<in> set (rm_sessions m @ [(po_stream p, ?r)])"
      using T3 [of q] at [of q] q(2) assms(6) by (cases "q < ?r") simp_all
    then show "(rs_stream (session_at ?m q), q) \<in> set (rm_sessions ?m)" unfolding f .
  qed
  moreover have "slots_ok ?m"
    using assms(1,2,7) length_filter_ref [of "rm_pending m" p]
    by (auto simp: rm_inv_def slots_ok_def release_open_def running_def intro: distinct_map_filter)
  moreover have "closed_ok ?m" using assms(3) by (simp add: closed_ok_def release_open_def)
  ultimately show ?thesis by (simp add: rm_inv_def)
qed

lemma finish_inv [inv_intros]:
  assumes "rm_inv m" and "p \<in> set (rm_pending m)" and "fresh_open m out"
  shows "rm_inv (snd (start_finish m now p sig out))"
proof (cases out)
  case (OpenFailed e)
  with assms show ?thesis by (simp add: start_finish_def release_failed_inv)
next
  case (OpenReady i d b)
  have t: "rm_inv (release_open (touch_session m now r) (po_ref p) False)" for r
    using assms by (intro release_failed_inv touch_inv) (simp_all add: touch_session_def)
  let ?s = "\<lparr>rs_id = i, rs_stream = po_stream p, rs_signature = sig, rs_dir = d, rs_last_used = now,
    rs_done = False, rs_pinned = False, rs_cancelled = False\<rparr>"
  show ?thesis
    using OpenReady t release_failed_inv [OF assms(1,2)] release_started_inv [OF assms(1,2), of ?s] assms(3)
    by (simp add: start_finish_def Let_def split: option.split)
qed

lemma reachable_step_inv:
  assumes "rm_inv m" and "rm_step m m'"
  shows "rm_inv m'"
  using assms(2,1)
proof cases
  case (step_begin now i sig)
  have e: "rm_inv (snd (start_existing m now i sig)) \<and> rm_closed (snd (start_existing m now i sig)) = rm_closed m"
    using assms(1) by (auto simp: start_existing_def touch_session_def intro: touch_inv [unfolded touch_session_def] stop_locked_inv split: option.splits)
  obtain r m1 where r: "start_existing m now i sig = (r, m1)" by fastforce
  with e have m1: "rm_inv m1" "rm_closed m1 = rm_closed m" by auto
  then have "\<not> rm_closed m \<Longrightarrow> rm_slots_used m1 < rm_slots_cap m1 \<Longrightarrow>
      rm_inv (m1\<lparr>rm_slots_used := Suc (rm_slots_used m1),
         rm_pending := rm_pending m1 @ [\<lparr>po_ref = rm_next_open m1, po_stream = i, po_cancelled = False\<rparr>],
         rm_next_open := Suc (rm_next_open m1)\<rparr>)"
    by (fastforce simp: rm_inv_def tables_ok_def slots_ok_def closed_ok_def running_def)
  with step_begin r m1 assms(1) show ?thesis by (auto simp: start_begin_def split: option.splits)
next
  case (step_existing now i sig)
  with assms(1) show ?thesis by (auto simp: existing_def intro: touch_inv stop_locked_inv split: option.splits)
next
  case (step_set_pinned now i b)
  with assms(1) show ?thesis by (auto simp: set_pinned_def intro!: upd_session_inv split: option.splits)
next
  case (step_stop i)
  let ?m = "m\<lparr>rm_pending := cancel_opens i (rm_pending m)\<rparr>"
  have "closed_ok ?m" using assms(1) by (auto simp: rm_inv_def closed_ok_def cancel_opens_def)
  then have "rm_inv ?m"
    using assms(1) pending_inv [OF _ _ cancel_opens_refs] by (simp add: rm_inv_def)
  with step_stop show ?thesis by (auto simp: stop_stream_def Let_def intro: stop_locked_inv split: option.splits)
next
  case step_close
  with assms(1) show ?thesis by (simp add: close_inv)
next
  case (step_get_path now i sid name)
  with assms(1) show ?thesis by (auto simp: get_path_def intro: touch_inv split: option.splits)
next
  case (step_reap now)
  with assms(1) show ?thesis by (simp add: reap_inv)
next
  case (step_playlist r)
  with assms(1) show ?thesis by (simp add: rm_inv_def tables_ok_def slots_ok_def closed_ok_def running_def)
next
  case (step_remove r)
  with assms(1) show ?thesis by (simp add: rm_inv_def tables_ok_def slots_ok_def closed_ok_def running_def)
next
  case (step_exit r)
  with assms(1) show ?thesis by (simp add: exit_inv)
next
  case (step_finish p out now sig)
  with assms(1) show ?thesis by (simp add: finish_inv)
qed

lemma rm_reachable_inv: "rm_reachable cap m \<Longrightarrow> rm_inv m"
proof (induction rule: rm_reachable.induct)
  case reach_new
  show ?case by (simp add: rm_inv_def tables_ok_def slots_ok_def closed_ok_def running_def new_manager_def)
next
  case (reach_step m m')
  then show ?case by (simp add: reachable_step_inv)
qed

lemma stop_all_cap [simp]: "rm_slots_cap (stop_all rs m) = rm_slots_cap m"
  by (induction rs arbitrary: m) (simp_all add: stop_all_def)

lemma step_cap: "rm_step m m' \<Longrightarrow> rm_slots_cap m' = rm_slots_cap m"
  by (induction rule: rm_step.induct)
    (auto simp: start_begin_def start_existing_def start_finish_def existing_def set_pinned_def stop_stream_def
      close_manager_def get_path_def reap_idle_def watch_exit_def touch_session_def release_open_def Let_def
      split: option.splits opened.splits)

lemma reachable_cap: "rm_reachable cap m \<Longrightarrow> rm_slots_cap m = cap"
  by (induction rule: rm_reachable.induct) (auto simp: new_manager_def dest: step_cap)

section \<open>Properties\<close>

text \<open>A manager with one session, reached by a start.\<close>

definition one_session :: manager where
  "one_session =
     (let m1 = snd (start_begin (new_manager 2) 0 7 ''sig'')
      in snd (start_finish m1 0 \<lparr>po_ref = 0, po_stream = 7, po_cancelled = False\<rparr> ''sig'' (OpenReady ''ab'' ''/tmp/x'' True)))"

lemma one_session_eq:
  "one_session =
     \<lparr>rm_heap = [\<lparr>rs_id = ''ab'', rs_stream = 7, rs_signature = ''sig'', rs_dir = ''/tmp/x'', rs_last_used = 0,
                 rs_done = False, rs_pinned = False, rs_cancelled = False\<rparr>],
      rm_sessions = [(7, 0)], rm_by_id = [(''ab'', 0)], rm_pending = [], rm_next_open = 1,
      rm_closed = False, rm_slots_used = 1, rm_slots_cap = 2, rm_playlists = []\<rparr>"
  by (simp add: one_session_def start_begin_def start_existing_def start_finish_def release_open_def new_manager_def)

lemma one_session_reachable: "rm_reachable 2 one_session"
proof -
  have 1: "rm_reachable 2 (snd (start_begin (new_manager 2) 0 7 ''sig''))" (is "rm_reachable 2 ?m")
    by (intro reach_step [OF reach_new] step_begin)
  have "rm_step ?m (snd (start_finish ?m 0 \<lparr>po_ref = 0, po_stream = 7, po_cancelled = False\<rparr> ''sig''
      (OpenReady ''ab'' ''/tmp/x'' True)))"
    by (rule step_finish) (simp_all add: start_begin_def start_existing_def new_manager_def)
  with reach_step [OF 1] show ?thesis by (simp add: one_session_def Let_def)
qed

text \<open>C12: whatever is started, stopped, reaped or exits, and in whatever order the two halves of
  concurrent starts come, the processes that run and the opens in flight together never exceed
  the configured slots, and every slot in use is held by one of them.\<close>

theorem remux_slots_bounded:
  assumes "rm_reachable cap m"
  shows "length (running m) + length (rm_pending m) \<le> cap \<and>
    rm_slots_used m = length (running m) + length (rm_pending m)"
  using rm_reachable_inv [OF assms] reachable_cap [OF assms] by (simp add: rm_inv_def slots_ok_def)

theorem remux_slots_bounded_witness:
  "length (running one_session) = 1 \<and> length (running one_session) + length (rm_pending one_session) \<le> 2"
  using remux_slots_bounded [OF one_session_reachable] by (simp add: one_session_eq running_def)

text \<open>C22: at most one process of a stream has not been told to end: two sessions of one stream that
  are both not cancelled are the same session.\<close>

theorem one_process_per_stream:
  assumes "rm_reachable cap m" and "r < length (rm_heap m)" and "q < length (rm_heap m)"
    and "\<not> rs_cancelled (session_at m r)" and "\<not> rs_cancelled (session_at m q)"
    and "rs_stream (session_at m r) = rs_stream (session_at m q)"
  shows "r = q"
proof -
  have T: "tables_ok m" using rm_reachable_inv [OF assms(1)] by (simp add: rm_inv_def)
  have live: "(rs_stream (session_at m x), x) \<in> set (rm_sessions m)"
    if "x < length (rm_heap m)" "\<not> rs_cancelled (session_at m x)" for x
    using T that by (simp add: tables_ok_def)
  have "distinct (map fst (rm_sessions m))" using T by (simp add: tables_ok_def)
  from eq_key_imp_eq_value [OF this live [OF assms(2,4)]] live [OF assms(3,5)] assms(6)
  show ?thesis by simp
qed

theorem one_process_per_stream_witness: "(0 :: nat) = 0 \<and> \<not> rs_cancelled (session_at one_session 0)"
  using one_process_per_stream [OF one_session_reachable, of 0 0] by (simp add: one_session_eq)

text \<open>Once the manager is closed it has no session, every process has been told to end, every
  open in flight is cancelled, and neither half of a start can bring a new process up.\<close>

theorem closed_manager_starts_nothing:
  assumes "rm_reachable cap m" and "rm_closed m"
  shows "rm_sessions m = [] \<and> (\<forall>s \<in> set (rm_heap m). rs_cancelled s) \<and>
    start_begin m now i sig = (Failed (err_text ''remux manager closed''), m) \<and>
    (\<forall>p \<in> set (rm_pending m). \<forall>out. rm_heap (snd (start_finish m now p sig out)) = rm_heap m)"
proof -
  have inv: "rm_inv m" by (rule rm_reachable_inv [OF assms(1)])
  then have s: "rm_sessions m = []" "\<forall>p \<in> set (rm_pending m). po_cancelled p"
    using assms(2) by (simp_all add: rm_inv_def closed_ok_def)
  have "rs_cancelled (session_at m r)" if "r < length (rm_heap m)" for r
    using inv s(1) that unfolding rm_inv_def tables_ok_def by force
  then have c: "\<forall>s \<in> set (rm_heap m). rs_cancelled s" by (metis in_set_conv_nth)
  have f: "rm_heap (snd (start_finish m now p sig out)) = rm_heap m" if "p \<in> set (rm_pending m)" for p out
    using s(2) that by (cases out) (simp_all add: start_finish_def release_open_def)
  have "start_begin m now i sig = (Failed (err_text ''remux manager closed''), m)"
    using assms(2) by (simp add: start_begin_def)
  with s(1) c f show ?thesis by blast
qed

theorem closed_manager_starts_nothing_witness:
  "rm_closed (close_manager one_session) \<and> rs_cancelled (session_at (close_manager one_session) 0)"
proof -
  have r: "rm_reachable 2 (close_manager one_session)"
    by (intro reach_step [OF one_session_reachable] step_close)
  have "rm_closed (close_manager one_session)"
    by (simp add: close_manager_def one_session_eq stop_all_def)
  moreover have "session_at (close_manager one_session) 0 \<in> set (rm_heap (close_manager one_session))"
    by (simp add: close_manager_def one_session_eq stop_all_def upd_session_def)
  ultimately show ?thesis using closed_manager_starts_nothing [OF r] by blast
qed

text \<open>The housekeeping stops exactly the sessions that are not pinned and were not used for
  more than 90 seconds; a pinned relay stays however long nobody watches it.\<close>

theorem reap_stops_exactly_idle:
  assumes "rm_reachable cap m"
  shows "(i, r) \<in> set (rm_sessions (reap_idle m now)) \<longleftrightarrow>
    (i, r) \<in> set (rm_sessions m) \<and>
    (rs_pinned (session_at m r) \<or> time_sub now (rs_last_used (session_at m r)) \<le> 90 * second)"
proof -
  let ?rs = "filter (\<lambda>r. idle now (session_at m r)) (map snd (rm_sessions m))"
  have T: "tables_ok m" "slots_ok m" using rm_reachable_inv [OF assms] by (simp_all add: rm_inv_def)
  have "distinct ?rs" using session_refs_distinct [OF T(1)] by (rule distinct_filter)
  moreover have "set ?rs \<subseteq> snd ` set (rm_sessions m)" by auto
  ultimately have "(i, r) \<in> set (rm_sessions (reap_idle m now)) \<longleftrightarrow> (i, r) \<in> set (rm_sessions m) \<and> r \<notin> set ?rs"
    using stop_all_tables [OF T] unfolding reap_idle_def by blast
  moreover have "(i, r) \<in> set (rm_sessions m) \<Longrightarrow> r \<notin> set ?rs \<longleftrightarrow> \<not> idle now (session_at m r)" by force
  ultimately show ?thesis by (auto simp: idle_def idle_time_def)
qed

theorem reap_stops_exactly_idle_witness:
  "(7, 0) \<in> set (rm_sessions (reap_idle one_session (90 * second))) \<and>
   (7, 0) \<notin> set (rm_sessions (reap_idle one_session (91 * second)))"
  using reap_stops_exactly_idle [OF one_session_reachable, of 7 0 "90 * second"]
    reap_stops_exactly_idle [OF one_session_reachable, of 7 0 "91 * second"]
  by (simp add: one_session_eq time_sub_def)

text \<open>A viewer that polls: at each of these times the request looks the session up, and the
  housekeeping runs at the second time.\<close>

fun viewer_polls :: "manager \<Rightarrow> int \<Rightarrow> string \<Rightarrow> (time \<times> time) list \<Rightarrow> nat option list \<times> manager" where
  "viewer_polls m i sig [] = ([], m)"
| "viewer_polls m i sig ((t, tick) # ts) =
     (let (r, m1) = existing m t i sig; (rs, m2) = viewer_polls (reap_idle m1 tick) i sig ts in (r # rs, m2))"

lemma stop_all_other:
  assumes "tables_ok m" and "slots_ok m" and "distinct rs" and "set rs \<subseteq> snd ` set (rm_sessions m)"
    and "r \<notin> set rs"
  shows "session_at (stop_all rs m) r = session_at m r" and "rm_playlists (stop_all rs m) = rm_playlists m"
proof -
  show "session_at (stop_all rs m) r = session_at m r"
    using assms(5)
  proof (induction rs arbitrary: m)
    case (Cons q qs)
    have "session_at (stop_locked m q) r = session_at m r" using Cons.prems by (simp add: upd_session_def)
    with Cons show ?case by (simp add: stop_all_def)
  qed (simp add: stop_all_def)
  show "rm_playlists (stop_all rs m) = rm_playlists m"
    by (induction rs arbitrary: m) (simp_all add: stop_all_def)
qed

text \<open>A session whose FFmpeg has exited but whose playlist file is still there is handed out as
  if it were live, and every lookup counts as use. So as long as one viewer polls at least every
  90 seconds the dead session stays, is answered every time, and is never replaced.\<close>

theorem dead_session_kept_by_polling:
  assumes "rm_inv m" and "map_of (rm_sessions m) i = Some r" and "rs_signature (session_at m r) = sig"
    and "rs_done (session_at m r)" and "has_playlist m r"
    and "\<forall>(t, tick) \<in> set ts. tick - t \<le> 90 * second"
  shows "(\<forall>x \<in> set (fst (viewer_polls m i sig ts)). x = Some r) \<and>
    map_of (rm_sessions (snd (viewer_polls m i sig ts))) i = Some r"
  using assms
proof (induction ts arbitrary: m)
  case (Cons p ts)
  obtain t tick where p: "p = (t, tick)" by fastforce
  let ?m = "touch_session m t r" and ?r = "session_at m r"
  have e: "existing m t i sig = (Some r, ?m)"
    using Cons.prems by (simp add: existing_def)
  have rl: "r < length (rm_heap m)" using Cons.prems(1,2) tables_ok_session by (auto simp: rm_inv_def)
  then have at: "session_at ?m r = ?r\<lparr>rs_last_used := t\<rparr>"
    by (simp add: touch_session_def upd_session_def)
  have inv: "rm_inv ?m" by (rule touch_inv [OF Cons.prems(1)])
  then have T: "tables_ok ?m" "slots_ok ?m" by (simp_all add: rm_inv_def)
  have "time_sub tick t \<le> 90 * second" using Cons.prems(6) p by (simp add: time_sub_le_iff)
  then have n: "\<not> idle tick (session_at ?m r)" by (simp add: at idle_def idle_time_def)
  let ?rs = "filter (\<lambda>r. idle tick (session_at ?m r)) (map snd (rm_sessions ?m))"
  have ds: "distinct ?rs" "set ?rs \<subseteq> snd ` set (rm_sessions ?m)" "r \<notin> set ?rs"
    using session_refs_distinct [OF T(1)] n by (auto intro: distinct_filter)
  note other = stop_all_other [OF T ds, folded reap_idle_def]
  let ?n = "reap_idle ?m tick"
  have inv': "rm_inv ?n" by (rule reap_inv [OF inv])
  have "(i, r) \<in> set (rm_sessions ?n)"
    using stop_all_tables [OF T ds(1,2), folded reap_idle_def] ds(3) Cons.prems(2)
    by (auto simp: touch_session_def dest: map_of_SomeD)
  then have s: "map_of (rm_sessions ?n) i = Some r" using inv' by (simp add: rm_inv_def tables_ok_def)
  have "(\<forall>x \<in> set (fst (viewer_polls ?n i sig ts)). x = Some r) \<and>
      map_of (rm_sessions (snd (viewer_polls ?n i sig ts))) i = Some r"
    using Cons.IH [OF inv' s] Cons.prems at other by (simp add: has_playlist_def touch_session_def)
  then show ?case by (simp add: p e case_prod_beta)
qed simp

definition dead_session :: manager where
  "dead_session = watch_exit (one_session\<lparr>rm_playlists := [''/tmp/x'']\<rparr>) 0"

theorem dead_session_kept_by_polling_witness:
  "map_of (rm_sessions (snd (viewer_polls dead_session 7 ''sig'' (replicate 100 (0, 60 * second))))) 7 = Some 0 \<and>
   rs_done (session_at dead_session 0)"
proof -
  have "rm_inv one_session" by (rule rm_reachable_inv [OF one_session_reachable])
  then have "rm_inv (one_session\<lparr>rm_playlists := [''/tmp/x'']\<rparr>)"
    by (simp add: rm_inv_def tables_ok_def slots_ok_def closed_ok_def running_def)
  then have "rm_inv dead_session"
    unfolding dead_session_def by (rule exit_inv) (simp_all add: one_session_eq)
  then show ?thesis
    using dead_session_kept_by_polling [of dead_session 7 0 "''sig''" "replicate 100 (0, 60 * second)"]
    by (simp add: dead_session_def one_session_eq watch_exit_def upd_session_def has_playlist_def)
qed

text \<open>C75: \<open>GetPath\<close> names only the playlist or a numbered segment, in the directory of the session
  with the given identifier, and only for that session's own stream.\<close>

theorem get_path_confined:
  assumes "fst (get_path m now i sid name) = Some (d, n)"
  shows "n = name \<and> (n = ''index.m3u8'' \<or> segment_name n) \<and> CHR ''/'' \<notin> set n \<and>
    (\<exists>r. map_of (rm_by_id m) sid = Some r \<and> rs_stream (session_at m r) = i \<and> d = rs_dir (session_at m r))"
proof -
  have seg: "CHR ''/'' \<notin> set s" if "segment_name s" for s
  proof -
    have "take 3 s @ take 6 (drop 3 s) @ drop 6 (drop 3 s) = s" by (simp only: append_take_drop_id)
    then have s: "s = take 3 s @ take 6 (drop 3 s) @ drop 9 s" by simp
    have "CHR ''/'' \<notin> set (take 6 (drop 3 s))"
      using that by (auto simp: segment_name_def list_all_iff is_digit_def)
    with that show ?thesis by (subst s) (simp add: segment_name_def)
  qed
  from assms show ?thesis
    using seg by (auto simp: get_path_def index_name_def split: if_splits option.splits)
qed

theorem get_path_confined_witness:
  "fst (get_path one_session 5 7 ''ab'' ''seg000001.ts'') = Some (''/tmp/x'', ''seg000001.ts'') \<and>
   CHR ''/'' \<notin> set ''seg000001.ts''"
proof -
  have "fst (get_path one_session 5 7 ''ab'' ''seg000001.ts'') = Some (''/tmp/x'', ''seg000001.ts'')"
    by (simp add: get_path_def one_session_eq segment_name_def index_name_def is_digit_def)
  with get_path_confined [OF this] show ?thesis by blast
qed

end
