(* ===== verification/NodeControl.thy ===== *)
theory NodeControl imports SourceFetch begin

text \<open>
  \<open>internal/gatewayhttp/nodecontrol.go\<close>: the control-plane side of the relay nodes. The node API
  (authentication, configuration, status, binary, install script) and what the gateway needs to
  reach a stream's node: whether it is online, the signed URL of a stream there, the fetch.

  JSON is a parameter (\<open>status_json\<close>); the configuration document is the record \<open>node_config\<close>. The
  text of the install script, a shell program, is a parameter too.
\<close>

section \<open>Requests\<close>

record http_request =
  hq_method :: string
  hq_path :: string
  hq_header :: "string \<Rightarrow> string"
  hq_host :: string
  hq_remote :: string
  hq_body :: "bytes option"  \<comment> \<open>\<open>None\<close> when reading it fails\<close>

definition node_poll_seconds :: int where "node_poll_seconds = 10"
definition node_online_window :: duration where "node_online_window = 45 * second"
definition node_grant_lifetime :: duration where "node_grant_lifetime = 60 * minute"
definition max_node_status_body :: nat where "max_node_status_body = 65536"

section \<open>Authentication\<close>

text \<open>The row of the node and its secret; every failure is the same refusal.\<close>

definition auth_node :: "hashes \<Rightarrow> bool \<Rightarrow> db \<Rightarrow> http_request \<Rightarrow> (node_row \<times> string) option" where
  "auth_node H up D q =
     (let auth = hq_header q ''Authorization''
      in if \<not> has_prefix auth ''Bearer '' then None
         else (case parse_token (trim_prefix auth ''Bearer '') of
                 None \<Rightarrow> None
               | Some (i, secret) \<Rightarrow>
                   (case store_node_by_id up D i of
                      Inl e \<Rightarrow> None
                    | Inr n \<Rightarrow>
                        if nr_status n = ''disabled'' \<or> \<not> hash_matches H secret (nr_token_hash n) then None
                        else Some (n, secret))))"

section \<open>The configuration of a node\<close>

text \<open>Passwords are sealed again under the node's key; a stream whose password cannot be read or
  sealed is left out. Each sealing draws a nonce.\<close>

fun config_streams ::
  "aead \<Rightarrow> bytes option \<Rightarrow> bytes \<Rightarrow> stream list \<Rightarrow> bytes option list \<Rightarrow> stream_config list \<times> bytes option list" where
  "config_streams A key cfg_key [] rnd = ([], rnd)"
| "config_streams A key cfg_key (st # sts) rnd =
     (let sc = \<lparr>sc_id = s_id st, sc_source_type = s_source_type st, sc_source_url = s_source_url st,
                sc_source_username = [], sc_source_password_enc = [],
                sc_trust_private_source = s_trust_private_source st\<rparr>
      in (case (s_source_username st, s_source_password_enc st) of
            (Some user, Some enc) \<Rightarrow>
              (case key of
                 None \<Rightarrow> config_streams A key cfg_key sts rnd
               | Some k \<Rightarrow>
                   (case sb_decrypt A k enc of
                      Inl e \<Rightarrow> config_streams A key cfg_key sts rnd
                    | Inr pw \<Rightarrow>
                        (let (n, rnd') = (case rnd of [] \<Rightarrow> (None, []) | x # xs \<Rightarrow> (x, xs))
                         in (case sb_encrypt A n cfg_key pw of
                               Inl e \<Rightarrow> config_streams A key cfg_key sts rnd'
                             | Inr sealed \<Rightarrow>
                                 (let (rest, rnd'') = config_streams A key cfg_key sts rnd'
                                  in (sc\<lparr>sc_source_username := user, sc_source_password_enc := sealed\<rparr> # rest,
                                      rnd''))))))
          | _ \<Rightarrow> (let (rest, rnd') = config_streams A key cfg_key sts rnd in (sc # rest, rnd'))))"

datatype api_reply =
    ApiError int string
  | ApiNotFound
  | ApiConfig node_config
  | ApiNoContent
  | ApiBinary
  | ApiHash string
  | ApiScript string

definition serve_node_config ::
  "hashes \<Rightarrow> aead \<Rightarrow> bytes option \<Rightarrow> clock \<Rightarrow> (nat \<Rightarrow> bool) \<Rightarrow> db \<Rightarrow> node_row \<Rightarrow> string \<Rightarrow> bytes option list \<Rightarrow>
   api_reply \<times> bytes option list" where
  "serve_node_config H A key ck up D n secret rnd =
     (case node_streams (up 0) D (nr_id n) of
        Inl e \<Rightarrow> (ApiError 500 ''internal error'', rnd)
      | Inr streams \<Rightarrow>
          (case node_revocations ck (up 1) (up 2) D (nr_id n) of
             Inl e \<Rightarrow> (ApiError 500 ''internal error'', rnd)
           | Inr (aps, tokens) \<Rightarrow>
               (let (scs, rnd') = config_streams A key (config_key H secret) streams rnd
                in (ApiConfig \<lparr>nc_node_id = nr_id n, nc_server_time = ck_now ck div second,
                       nc_poll_seconds = node_poll_seconds, nc_streams = scs,
                       nc_revoked_access_points = aps, nc_revoked_tokens = tokens\<rparr>, rnd'))))"

section \<open>Status reports\<close>

text \<open>\<open>json.Unmarshal\<close> into a \<open>Status\<close>, and \<open>json.Marshal\<close> of one.\<close>

record status_json =
  sj_decode :: "bytes \<Rightarrow> node_status option"
  sj_encode :: "node_status \<Rightarrow> string"

definition accept_node_status ::
  "status_json \<Rightarrow> clock \<Rightarrow> bool \<Rightarrow> db \<Rightarrow> http_request \<Rightarrow> node_row \<Rightarrow> api_reply \<times> db" where
  "accept_node_status J ck up D q n =
     (case hq_body q of
        None \<Rightarrow> (ApiError 400 ''bad status'', D)
      | Some body \<Rightarrow>
          if length body > max_node_status_body then (ApiError 400 ''bad status'', D)
          else (case sj_decode J body of
                  None \<Rightarrow> (ApiError 400 ''bad status'', D)
                | Some st \<Rightarrow>
                    (case record_node_status ck up D (nr_id n) (sj_encode J st) of
                       Inl e \<Rightarrow> (ApiError 500 ''internal error'', D)
                     | Inr D' \<Rightarrow> (ApiNoContent, D'))))"

section \<open>The install script\<close>

definition host_char :: "char \<Rightarrow> bool" where
  "host_char c \<longleftrightarrow>
     (let n = of_char c :: nat
      in 97 \<le> n \<and> n \<le> 122 \<or> 65 \<le> n \<and> n \<le> 90 \<or> is_digit c \<or> c \<in> {CHR ''.'', CHR ''-'', CHR '':'', CHR ''['', CHR '']''})"

definition valid_host :: "string \<Rightarrow> bool" where
  "valid_host h \<longleftrightarrow> h \<noteq> [] \<and> length h \<le> 253 \<and> list_all host_char h"

text \<open>\<open>strings.ReplaceAll\<close> for a non-empty pattern.\<close>

function (sequential) replace_all :: "string \<Rightarrow> string \<Rightarrow> string \<Rightarrow> string" where
  "replace_all pat new [] = []"
| "replace_all pat new (c # s) =
     (if pat \<noteq> [] \<and> has_prefix (c # s) pat then new @ replace_all pat new (drop (length pat) (c # s))
      else c # replace_all pat new s)"
  by pat_completeness auto
termination
  by (relation "measure (\<lambda>(p, n, s). length s)") auto

definition control_url_mark :: string where "control_url_mark = ''@CONTROL_URL@''"

definition serve_node_install_script :: "string \<Rightarrow> http_request \<Rightarrow> api_reply" where
  "serve_node_install_script script q =
     (let p = hq_header q ''X-Forwarded-Proto'';
          scheme = (if p = ''http'' \<or> p = ''https'' then p else ''https'');
          control = scheme @ ''://'' @ hq_host q
      in if \<not> valid_host (hq_host q) then ApiError 400 ''bad host''
         else ApiScript (replace_all control_url_mark control script))"

section \<open>The API\<close>

text \<open>What the gateway knows of its own executable: whether it can be opened, and its hash.\<close>

record api_env =
  ae_clock :: clock
  ae_up :: "nat \<Rightarrow> bool"
  ae_json :: status_json
  ae_script :: string
  ae_binary :: bool
  ae_binary_hash :: "string option"

definition serve_node_binary :: "api_env \<Rightarrow> api_reply" where
  "serve_node_binary E = (if ae_binary E then ApiBinary else ApiError 503 ''binary unavailable'')"

definition serve_node_api ::
  "hashes \<Rightarrow> aead \<Rightarrow> bytes option \<Rightarrow> api_env \<Rightarrow> http_request \<Rightarrow> db \<Rightarrow> bytes option list \<Rightarrow>
   api_reply \<times> db \<times> bytes option list" where
  "serve_node_api H A key E q D rnd =
     (let path = trim_prefix (hq_path q) ''/_sv/node/''; m = hq_method q; up = ae_up E;
          authed = (\<lambda>f. case auth_node H (up 3) D q of
                      None \<Rightarrow> (ApiError 401 ''unauthorized'', D, rnd) | Some (n, secret) \<Rightarrow> f n secret)
      in if path = ''install.sh'' \<and> (m = ''GET'' \<or> m = ''HEAD'')
         then (serve_node_install_script (ae_script E) q, D, rnd)
         else if path = ''binary'' \<and> m = ''GET'' then authed (\<lambda>n s. (serve_node_binary E, D, rnd))
         else if path = ''binary.sha256'' \<and> m = ''GET''
         then authed (\<lambda>n s. (case ae_binary_hash E of
                              None \<Rightarrow> ApiError 503 ''binary unavailable''
                            | Some h \<Rightarrow> ApiHash (h @ [newline]), D, rnd))
         else if path = ''config'' \<and> m = ''GET''
         then authed (\<lambda>n s. let (reply, rnd') = serve_node_config H A key (ae_clock E) up D n s rnd in (reply, D, rnd'))
         else if path = ''status'' \<and> m = ''POST''
         then authed (\<lambda>n s. let (reply, D') = accept_node_status (ae_json E) (ae_clock E) (up 4) D q n in (reply, D', rnd))
         else (ApiNotFound, D, rnd))"

section \<open>Reaching a node\<close>

definition node_online :: "clock \<Rightarrow> node_ref option \<Rightarrow> bool" where
  "node_online ck n =
     (case n of
        None \<Rightarrow> False
      | Some n \<Rightarrow>
          if nf_status n \<noteq> ''active'' \<or> nf_public_url n = [] then False
          else (case nf_last_seen_at n of
                  None \<Rightarrow> False
                | Some t \<Rightarrow>
                    (case ck_parse_stamp ck t of
                       None \<Rightarrow> False
                     | Some seen \<Rightarrow> time_sub (ck_now ck) seen \<le> node_online_window)))"

definition viewer_query :: "hashes \<Rightarrow> string \<Rightarrow> int \<Rightarrow> int \<Rightarrow> int \<Rightarrow> int \<Rightarrow> string \<Rightarrow> string" where
  "viewer_query H secret i ap tok expiry k =
     (if k = ''ap'' then format_int ap else if k = ''tok'' then format_int tok
      else if k = ''exp'' then format_int expiry else if k = ''sig'' then sign H secret i ap tok expiry else [])"

text \<open>\<open>url.Values.Encode\<close> sorts the keys; none of the values needs escaping.\<close>

definition node_viewer_url ::
  "url_lib \<Rightarrow> hashes \<Rightarrow> string \<Rightarrow> string \<Rightarrow> int \<Rightarrow> int \<Rightarrow> int \<Rightarrow> int \<Rightarrow> string option" where
  "node_viewer_url L H public_url secret i ap tok expiry =
     (case url_parse (ul_ops L) (trim_right public_url ''/'') of
        None \<Rightarrow> None
      | Some base \<Rightarrow>
          if u_scheme base \<noteq> ''http'' \<and> u_scheme base \<noteq> ''https'' \<or> u_host base = [] then None
          else (let v = viewer_query H secret i ap tok expiry
                in Some (ul_string L base @ ''/n/'' @ format_int i @ ''/index.m3u8?ap='' @ v ''ap'' @ ''&exp='' @ v ''exp'' @
                         ''&sig='' @ v ''sig'' @ ''&tok='' @ v ''tok'')))"

definition is_node_target :: "url_lib \<Rightarrow> access_point \<Rightarrow> url \<Rightarrow> bool" where
  "is_node_target L ap target =
     (case s_node (a_stream ap) of
        None \<Rightarrow> False
      | Some n \<Rightarrow>
          (case url_parse (ul_ops L) (nf_public_url n) of
             None \<Rightarrow> False
           | Some base \<Rightarrow>
               u_scheme target = u_scheme base \<and> u_host target = u_host base \<and>
               has_prefix (u_path target) (''/n/'' @ format_int (s_id (a_stream ap)) @ ''/'')))"

definition viewer_ip :: "http_request \<Rightarrow> string" where
  "viewer_ip q =
     (let cf = hq_header q ''CF-Connecting-IP''; xff = hq_header q ''X-Forwarded-For''
      in if cf \<noteq> [] then cf
         else if xff \<noteq> [] then trim_space (fst (cut_at CHR '','' xff))
         else hq_remote q)"

text \<open>Redirects are not followed: the redirecting reply itself is returned. The second component is
  the viewer id sent along, the third the request made, if one was.\<close>

definition node_fetch ::
  "url_lib \<Rightarrow> hashes \<Rightarrow> source_reply network \<Rightarrow> transport \<Rightarrow> url \<Rightarrow> http_request \<Rightarrow>
   (go_error, url \<times> source_reply) result \<times> string \<times> (url \<times> remote) list \<times> transport" where
  "node_fetch L H net T target viewer =
     (let vid = viewer_id H (viewer_ip viewer)
      in (case url_parse (ul_ops L) (ul_string L target) of
            None \<Rightarrow> (Inl (err_text ''invalid request URL''), vid, [], T)
          | Some u \<Rightarrow>
              (case transport_connect net 0 False (tr_pool T) u of
                 (Inl e, p) \<Rightarrow> (Inl (as_url_error L u e), vid, [], T\<lparr>tr_pool := p\<rparr>)
               | (Inr r, p) \<Rightarrow>
                   ((case nw_answer net 0 u of
                       Inl e \<Rightarrow> Inl (as_url_error L u e)
                     | Inr (Reply x) \<Rightarrow> Inr (u, x)
                     | Inr (Redirect v) \<Rightarrow>
                         Inr (u, \<lparr>sr_status = 302, sr_content_type = [], sr_body = [], sr_read_failed = False\<rparr>)),
                    vid, [(u, r)], T\<lparr>tr_pool := p\<rparr>))))"

end
