(* ===== verification/SlateText.thy ===== *)
theory SlateText imports Urls begin

text \<open>
  \<open>internal/slate/text.go\<close> and the names \<open>internal/slate/slate.go\<close> accepts: the reasons a stream can
  be replaced for and their texts, the clean-up of an administrator's text, its layout in two
  lines, and the variants, file names and keys of a slate URL.

  Texts are lists of code points; \<open>utf8_runes\<close> is Go's \<open>range\<close> over a string. Character classes are
  those of the \<open>unicode\<close> package. The font size is in \<open>SlateFont\<close>.
\<close>

section \<open>Runes\<close>

definition rune_error :: rune where "rune_error = 0xFFFD"

definition continuation :: "int \<Rightarrow> bool" where
  "continuation b \<longleftrightarrow> 0x80 \<le> b \<and> b \<le> 0xBF"

text \<open>The range of the second byte after a first byte of a three- or four-byte sequence.\<close>

definition second_byte :: "int \<Rightarrow> int \<Rightarrow> bool" where
  "second_byte b0 b \<longleftrightarrow>
     (if b0 = 0xE0 then 0xA0 \<le> b \<and> b \<le> 0xBF
      else if b0 = 0xED then 0x80 \<le> b \<and> b \<le> 0x9F
      else if b0 = 0xF0 then 0x90 \<le> b \<and> b \<le> 0xBF
      else if b0 = 0xF4 then 0x80 \<le> b \<and> b \<le> 0x8F
      else continuation b)"

definition decode_rune :: "int list \<Rightarrow> rune \<times> nat" where
  "decode_rune bs =
     (case bs of
        [] \<Rightarrow> (rune_error, 0)
      | b0 # t \<Rightarrow>
          if b0 < 0x80 then (b0, 1)
          else if 0xC2 \<le> b0 \<and> b0 \<le> 0xDF
          then (case t of
                  b1 # _ \<Rightarrow> if continuation b1 then ((b0 - 0xC0) * 64 + (b1 - 0x80), 2) else (rune_error, 1)
                | _ \<Rightarrow> (rune_error, 1))
          else if 0xE0 \<le> b0 \<and> b0 \<le> 0xEF
          then (case t of
                  b1 # b2 # _ \<Rightarrow>
                    if second_byte b0 b1 \<and> continuation b2
                    then (((b0 - 0xE0) * 64 + (b1 - 0x80)) * 64 + (b2 - 0x80), 3) else (rune_error, 1)
                | _ \<Rightarrow> (rune_error, 1))
          else if 0xF0 \<le> b0 \<and> b0 \<le> 0xF4
          then (case t of
                  b1 # b2 # b3 # _ \<Rightarrow>
                    if second_byte b0 b1 \<and> continuation b2 \<and> continuation b3
                    then ((((b0 - 0xF0) * 64 + (b1 - 0x80)) * 64 + (b2 - 0x80)) * 64 + (b3 - 0x80), 4)
                    else (rune_error, 1)
                | _ \<Rightarrow> (rune_error, 1))
          else (rune_error, 1))"

lemma decode_rune_advances: "bs \<noteq> [] \<Longrightarrow> 0 < snd (decode_rune bs)"
  by (auto simp: decode_rune_def split: list.splits)

function runes_of_bytes :: "int list \<Rightarrow> rune list" where
  "runes_of_bytes bs =
     (if bs = [] then [] else (let (r, n) = decode_rune bs in r # runes_of_bytes (drop n bs)))"
  by pat_completeness auto
termination
proof (relation "measure length")
  fix bs :: "int list" and x r n
  assume "bs \<noteq> []" "x = decode_rune bs" "(r, n) = x"
  then show "(drop n bs, bs) \<in> measure length" using decode_rune_advances [of bs] by (metis diff_less in_measure
      length_drop length_greater_0_conv snd_conv)
qed simp

declare runes_of_bytes.simps [simp del]

definition utf8_runes :: "string \<Rightarrow> rune list" where
  "utf8_runes s = runes_of_bytes (map of_char s)"

definition ascii_runes :: "string \<Rightarrow> rune list" where
  "ascii_runes s = map of_char s"

definition rune_control :: "rune \<Rightarrow> bool" where
  "rune_control r \<longleftrightarrow> 0 \<le> r \<and> r < 0x20 \<or> 0x7F \<le> r \<and> r < 0xA0"

text \<open>The category Cf (format characters).\<close>

definition format_ranges :: "(rune \<times> rune) list" where
  "format_ranges =
     [(0xAD, 0xAD), (0x600, 0x605), (0x61C, 0x61C), (0x6DD, 0x6DD), (0x70F, 0x70F), (0x890, 0x891),
      (0x8E2, 0x8E2), (0x180E, 0x180E), (0x200B, 0x200F), (0x202A, 0x202E), (0x2060, 0x2064),
      (0x2066, 0x206F), (0xFEFF, 0xFEFF), (0xFFF9, 0xFFFB), (0x110BD, 0x110BD), (0x110CD, 0x110CD),
      (0x13430, 0x1343F), (0x1BCA0, 0x1BCA3), (0x1D173, 0x1D17A), (0xE0001, 0xE0001), (0xE0020, 0xE007F)]"

definition rune_format :: "rune \<Rightarrow> bool" where
  "rune_format r = list_ex (\<lambda>(lo, hi). lo \<le> r \<and> r \<le> hi) format_ranges"

definition rune_space :: "rune \<Rightarrow> bool" where
  "rune_space r \<longleftrightarrow>
     9 \<le> r \<and> r \<le> 13 \<or> r = 0x20 \<or> r = 0x85 \<or> r = 0xA0 \<or> r = 0x1680 \<or> 0x2000 \<le> r \<and> r \<le> 0x200A \<or>
     r = 0x2028 \<or> r = 0x2029 \<or> r = 0x202F \<or> r = 0x205F \<or> r = 0x3000"

abbreviation rune_nl :: rune where "rune_nl \<equiv> 10"
abbreviation rune_sp :: rune where "rune_sp \<equiv> 32"

definition trim_runes :: "rune list \<Rightarrow> rune list" where
  "trim_runes s = rev (dropWhile rune_space (rev (dropWhile rune_space s)))"

text \<open>\<open>strings.Fields\<close> and \<open>strings.Join\<close> with a space.\<close>

fun rune_fields_from :: "rune list \<Rightarrow> rune list \<Rightarrow> rune list list" where
  "rune_fields_from acc [] = (if acc = [] then [] else [rev acc])"
| "rune_fields_from acc (c # s) =
     (if rune_space c then (if acc = [] then rune_fields_from [] s else rev acc # rune_fields_from [] s)
      else rune_fields_from (c # acc) s)"

definition rune_fields :: "rune list \<Rightarrow> rune list list" where
  "rune_fields s = rune_fields_from [] s"

fun join_spaces :: "rune list list \<Rightarrow> rune list" where
  "join_spaces [] = []"
| "join_spaces [w] = w"
| "join_spaces (w # v # ws) = w @ rune_sp # join_spaces (v # ws)"

fun split_runes :: "rune \<Rightarrow> rune list \<Rightarrow> rune list list" where
  "split_runes c [] = [[]]"
| "split_runes c (x # xs) =
     (if x = c then [] # split_runes c xs
      else (case split_runes c xs of [] \<Rightarrow> [[x]] | w # ws \<Rightarrow> (x # w) # ws))"

section \<open>Reasons\<close>

record slate_text =
  tx_title :: "rune list"
  tx_subtitle :: "rune list"

definition mk_text :: "string \<Rightarrow> string \<Rightarrow> slate_text" where
  "mk_text t s = \<lparr>tx_title = ascii_runes t, tx_subtitle = ascii_runes s\<rparr>"

definition temporary_reason :: string where
  "temporary_reason = ''temporarily_unavailable''"

definition unauthorized_redistribution :: string where
  "unauthorized_redistribution = ''unauthorized_redistribution''"

definition reasons :: "(string \<times> slate_text) list" where
  "reasons =
     [(''limited_bandwidth'', mk_text ''Capacity limit reached''
         ''This stream is unavailable because its bandwidth limit was reached.''),
      (''not_intended_for_public'', mk_text ''Private stream''
         ''This stream is not intended for public distribution.''),
      (unauthorized_redistribution, mk_text ''Stream unavailable'' ''This access URL has been revoked.''),
      (''access_revoked_by_owner'', mk_text ''Access revoked''
         ''The stream owner has revoked access to this URL.''),
      (''stream_permanently_discontinued'', mk_text ''Stream discontinued''
         ''This stream is permanently unavailable at this address.''),
      (temporary_reason, mk_text ''Temporarily unavailable''
         ''The source is not responding. Please try again shortly.'')]"

definition valid_reason :: "string \<Rightarrow> bool" where
  "valid_reason r = (map_of reasons r \<noteq> None)"

definition default_text :: "string \<Rightarrow> slate_text" where
  "default_text r =
     (case map_of reasons r of Some t \<Rightarrow> t | None \<Rightarrow> the (map_of reasons unauthorized_redistribution))"

section \<open>Normalizing a text\<close>

fun join_crlf :: "rune list \<Rightarrow> rune list" where
  "join_crlf [] = []"
| "join_crlf [c] = [c]"
| "join_crlf (c # d # s) = (if c = 13 \<and> d = rune_nl then rune_nl # join_crlf s else c # join_crlf (d # s))"

definition clean_rune :: "bool \<Rightarrow> rune \<Rightarrow> rune" where
  "clean_rune allow_break r =
     (if r = rune_nl \<and> allow_break then r
      else if rune_control r \<or> rune_format r then rune_sp else r)"

definition clean_text :: "rune list \<Rightarrow> bool \<Rightarrow> rune list" where
  "clean_text s allow_break =
     (let s = trim_runes (map (clean_rune allow_break) (join_crlf s))
      in if \<not> allow_break then join_spaces (rune_fields s) else s)"

definition normalize_text :: "slate_text \<Rightarrow> slate_text option" where
  "normalize_text t =
     (let title = clean_text (tx_title t) False; subtitle = clean_text (tx_subtitle t) True
      in if title = [] \<or> subtitle = [] \<or> length title > 32 \<or> length subtitle > 90 \<or>
            count_list subtitle rune_nl > 1
         then None else Some \<lparr>tx_title = title, tx_subtitle = subtitle\<rparr>)"

section \<open>Layout\<close>

text \<open>The loop from 45 downwards.\<close>

fun find_cut :: "nat \<Rightarrow> rune list \<Rightarrow> nat" where
  "find_cut 0 r = 45"
| "find_cut (Suc i) r =
     (if r ! Suc i = rune_sp \<and> length r - Suc i - 1 \<le> 45 then Suc i else find_cut i r)"

definition wrap_subtitle :: "rune list \<Rightarrow> rune list" where
  "wrap_subtitle s =
     (case split_runes rune_nl s of
        [a, b] \<Rightarrow>
          if length a \<le> 45 \<and> length b \<le> 45 then s
          else (let r = join_spaces (rune_fields s)
                in if length r \<le> 45 then r
                   else (let cut = find_cut 45 r in trim_runes (take cut r) @ rune_nl # trim_runes (drop cut r)))
      | _ \<Rightarrow>
          (let r = join_spaces (rune_fields s)
           in if length r \<le> 45 then r
              else (let cut = find_cut 45 r in trim_runes (take cut r) @ rune_nl # trim_runes (drop cut r))))"

section \<open>Names in a slate URL\<close>

definition unavailable :: string where "unavailable = ''unavailable''"
definition temporary :: string where "temporary = ''temporarily-unavailable''"

definition slate_segment_name :: "string \<Rightarrow> bool" where
  "slate_segment_name s \<longleftrightarrow>
     has_prefix s ''seg'' \<and> has_suffix s ''.ts'' \<and> 12 \<le> length s \<and> length s \<le> 15 \<and>
     list_all is_digit (take (length s - 6) (drop 3 s))"

definition slate_valid_name :: "string \<Rightarrow> bool" where
  "slate_valid_name n \<longleftrightarrow> n = ''index.m3u8'' \<or> slate_segment_name n"

definition valid_key :: "string \<Rightarrow> bool" where
  "valid_key k \<longleftrightarrow> length k = 40 \<and> list_all is_hex_char k"

definition audio_extensions :: "string list" where
  "audio_extensions = [''mp3'', ''ogg'', ''opus'', ''flac'', ''aac'', ''m4a'', ''wav'']"

definition audio_name :: "string \<Rightarrow> bool" where
  "audio_name s \<longleftrightarrow>
     list_all is_hex_char (take 32 s) \<and> length (take 32 s) = 32 \<and>
     (case drop 32 s of c # e \<Rightarrow> c = CHR ''.'' \<and> e \<in> set audio_extensions | [] \<Rightarrow> False)"

definition split_variant :: "string \<Rightarrow> (string \<times> string) option" where
  "split_variant v =
     (let (base, rest) = cut_at CHR '':'' v
      in if base \<noteq> unavailable \<and> base \<noteq> temporary then None
         else (let reason = (case rest of
                     Some r \<Rightarrow> r
                   | None \<Rightarrow> if base = temporary then temporary_reason else unauthorized_redistribution)
               in if \<not> valid_reason reason \<or> base = temporary \<and> reason \<noteq> temporary_reason \<or>
                     base = unavailable \<and> reason = temporary_reason
                  then None else Some (base, reason)))"

definition valid_variant :: "string \<Rightarrow> bool" where
  "valid_variant v = (split_variant v \<noteq> None)"

text \<open>What asking for a slate can end in: \<open>os.ErrNotExist\<close> or another error.\<close>

datatype slate_error = NotExist | SlateFailed string

section \<open>Lemmas\<close>

lemma length_trim_runes: "length (trim_runes s) \<le> length s"
proof -
  have "length (dropWhile P xs) \<le> length xs" for P and xs :: "rune list" by (simp add: length_dropWhile_le)
  then show ?thesis unfolding trim_runes_def length_rev by (metis le_trans length_rev)
qed

lemma find_cut_bounds:
  assumes "45 < length r" and "length r \<le> 90" and "n \<le> 45"
  shows "find_cut n r \<le> 45 \<and>
    (length r - find_cut n r \<le> 45 \<or> r ! find_cut n r = rune_sp \<and> length r - find_cut n r = 46 \<and> find_cut n r < length r)"
  using assms(3)
proof (induction n)
  case 0
  have "length r - 45 \<le> 45" using assms(2) by arith
  then show ?case by simp
next
  case (Suc n)
  show ?case
  proof (cases "r ! Suc n = rune_sp \<and> length r - Suc n - 1 \<le> 45")
    case True
    then have "length r - Suc n \<le> 45 \<or> length r - Suc n = 46" by arith
    with True Suc.prems assms show ?thesis by auto
  next
    case False
    then have "find_cut (Suc n) r = find_cut n r" by (simp only: find_cut.simps if_False)
    with Suc show ?thesis by simp
  qed
qed

lemma set_fields_from: "\<forall>w \<in> set (rune_fields_from acc s). set w \<subseteq> set acc \<union> set s"
proof (induction s arbitrary: acc)
  case (Cons c s)
  from Cons [of "[]"] Cons [of "c # acc"] show ?case by (auto split: if_splits)
qed auto

definition word_ok :: "rune list \<Rightarrow> bool" where
  "word_ok w \<longleftrightarrow> w \<noteq> [] \<and> list_all (\<lambda>c. \<not> rune_space c) w"

lemma fields_from_words:
  "list_all (\<lambda>c. \<not> rune_space c) acc \<Longrightarrow> list_all word_ok (rune_fields_from acc s)"
proof (induction s arbitrary: acc)
  case Nil
  then show ?case by (simp add: word_ok_def)
next
  case (Cons c s)
  then show ?case
    by (cases "rune_space c"; cases "acc = []") (simp_all add: word_ok_def)
qed

lemma set_join_spaces: "set (join_spaces ws) \<subseteq> \<Union> (set ` set ws) \<union> {rune_sp}"
  by (induction ws rule: join_spaces.induct) auto

lemma length_join_spaces_Cons:
  "length (join_spaces (w # ws)) = (if ws = [] then length w else length w + 1 + length (join_spaces ws))"
  by (cases ws) auto

lemma length_fields_from: "length (join_spaces (rune_fields_from acc s)) \<le> length acc + length s"
proof (induction acc s rule: rune_fields_from.induct)
  case (2 acc c s)
  then show ?case by (auto simp: length_join_spaces_Cons)
qed auto

lemma split_runes_count: "length (split_runes c s) = Suc (count_list s c)"
  by (induction s) (auto split: list.splits)

lemma split_runes_append: "c \<notin> set a \<Longrightarrow> split_runes c (a @ c # b) = a # split_runes c b"
  by (induction a) auto

lemma split_runes_none: "c \<notin> set a \<Longrightarrow> split_runes c a = [a]"
  by (induction a) auto

lemma set_trim_runes: "set (trim_runes s) \<subseteq> set s"
  by (auto simp: trim_runes_def dest!: set_dropWhileD)

lemma trim_runes_space: "trim_runes (rune_sp # s) = trim_runes s"
  by (simp add: trim_runes_def rune_space_def)

lemma join_crlf_id: "13 \<notin> set s \<Longrightarrow> join_crlf s = s"
  by (induction s rule: join_crlf.induct) auto

lemma clean_rune_idem [simp]: "clean_rune b (clean_rune b r) = clean_rune b r"
proof -
  have "\<not> rune_format rune_sp" by (simp add: rune_format_def format_ranges_def)
  then show ?thesis by (simp add: clean_rune_def rune_control_def)
qed

lemma clean_rune_sp [simp]: "clean_rune b rune_sp = rune_sp"
  by (simp add: clean_rune_def)

lemma clean_rune_not_cr: "clean_rune b r \<noteq> 13"
  by (auto simp: clean_rune_def rune_control_def)

lemma clean_rune_not_nl: "clean_rune False r \<noteq> rune_nl"
  by (auto simp: clean_rune_def rune_control_def)

definition cleaned :: "bool \<Rightarrow> rune list \<Rightarrow> bool" where
  "cleaned b s \<longleftrightarrow> list_all (\<lambda>r. clean_rune b r = r \<and> r \<noteq> 13) s"

lemma cleaned_map: "cleaned b (map (clean_rune b) s)"
  by (simp add: cleaned_def list_all_iff clean_rune_not_cr)

lemma cleaned_subset: "cleaned b s \<Longrightarrow> set t \<subseteq> set s \<union> {rune_sp} \<Longrightarrow> cleaned b t"
  by (auto simp: cleaned_def list_all_iff)

lemma cleaned_id: "cleaned b s \<Longrightarrow> map (clean_rune b) (join_crlf s) = s"
proof -
  assume c: "cleaned b s"
  then have "13 \<notin> set s" by (auto simp: cleaned_def list_all_iff)
  with c show ?thesis by (simp add: join_crlf_id cleaned_def list_all_iff map_idI)
qed

lemma trim_runes_id: "s = [] \<or> \<not> rune_space (hd s) \<and> \<not> rune_space (last s) \<Longrightarrow> trim_runes s = s"
proof (cases s rule: rev_cases)
  case (snoc t x)
  moreover assume "s = [] \<or> \<not> rune_space (hd s) \<and> \<not> rune_space (last s)"
  ultimately have "\<not> rune_space (hd s)" "\<not> rune_space x" by auto
  then have "dropWhile rune_space s = s" by (cases s) auto
  with snoc \<open>\<not> rune_space x\<close> show ?thesis by (simp add: trim_runes_def)
qed (simp add: trim_runes_def)

lemma trim_runes_ends: "trim_runes s = [] \<or> \<not> rune_space (hd (trim_runes s)) \<and> \<not> rune_space (last (trim_runes s))"
proof (cases "trim_runes s = []")
  case False
  let ?d = "dropWhile rune_space s"
  let ?e = "dropWhile rune_space (rev ?d)"
  have e: "trim_runes s = rev ?e" by (simp add: trim_runes_def)
  with False have ne: "?e \<noteq> []" by simp
  have "?d \<noteq> []" using ne by (metis dropWhile.simps(1) rev.simps(1))
  have "\<not> rune_space (hd ?d)" using \<open>?d \<noteq> []\<close> by (rule hd_dropWhile)
  obtain u where u: "rev ?d = u @ ?e" by (metis takeWhile_dropWhile_id)
  then have "?d = rev ?e @ rev u" by (metis rev_append rev_rev_ident)
  then have "hd ?d = hd (rev ?e)" using ne by (metis hd_append rev_is_Nil_conv)
  moreover have "\<not> rune_space (hd ?e)" using ne by (rule hd_dropWhile)
  ultimately show ?thesis
    using \<open>\<not> rune_space (hd ?d)\<close> ne unfolding e by (simp add: last_rev)
qed simp

lemma trim_runes_idem [simp]: "trim_runes (trim_runes s) = trim_runes s"
  by (rule trim_runes_id [OF trim_runes_ends])

lemma fields_from_word: "list_all (\<lambda>c. \<not> rune_space c) w \<Longrightarrow> rune_fields_from acc (w @ s) = rune_fields_from (rev w @ acc) s"
  by (induction w arbitrary: acc) simp_all

lemma fields_join: "list_all word_ok ws \<Longrightarrow> rune_fields (join_spaces ws) = ws"
proof (induction ws rule: join_spaces.induct)
  case (2 w)
  then have w: "list_all (\<lambda>c. \<not> rune_space c) w" "w \<noteq> []" by (simp_all add: word_ok_def)
  from fields_from_word [OF w(1), of "[]" "[]"] w(2) show ?case by (simp add: rune_fields_def)
next
  case (3 w v ws)
  then have w: "list_all (\<lambda>c. \<not> rune_space c) w" "w \<noteq> []" by (simp_all add: word_ok_def)
  from fields_from_word [OF w(1), of "[]" "rune_sp # join_spaces (v # ws)"] w(2) 3
  show ?case by (simp add: rune_fields_def rune_space_def)
qed (simp add: rune_fields_def)

lemma join_spaces_ends:
  "list_all word_ok ws \<Longrightarrow> join_spaces ws = [] \<or>
     \<not> rune_space (hd (join_spaces ws)) \<and> \<not> rune_space (last (join_spaces ws))"
proof (induction ws rule: join_spaces.induct)
  case (2 w)
  then show ?case by (cases w) (auto simp: word_ok_def list_all_iff)
next
  case (3 w v ws)
  have "join_spaces (v # ws) \<noteq> []" using 3 by (cases ws) (auto simp: word_ok_def)
  with 3 show ?case by (cases w) (auto simp: word_ok_def list_all_iff)
qed simp

lemma cleaned_clean_text: "cleaned b (clean_text s b)"
proof -
  let ?t = "trim_runes (map (clean_rune b) (join_crlf s))"
  have t: "cleaned b ?t" by (rule cleaned_subset [OF cleaned_map]) (use set_trim_runes in blast)
  have "set (join_spaces (rune_fields ?t)) \<subseteq> set ?t \<union> {rune_sp}"
    using set_join_spaces [of "rune_fields ?t"] set_fields_from [of "[]" ?t] by (force simp: rune_fields_def)
  from cleaned_subset [OF t this] t show ?thesis by (cases b) (simp_all add: clean_text_def Let_def)
qed

lemma clean_text_idem: "clean_text (clean_text s b) b = clean_text s b"
proof -
  have c: "map (clean_rune b) (join_crlf (clean_text s b)) = clean_text s b"
    by (rule cleaned_id [OF cleaned_clean_text])
  show ?thesis
  proof (cases b)
    case True
    with c show ?thesis by (simp add: clean_text_def Let_def)
  next
    case False
    let ?ws = "rune_fields (trim_runes (map (clean_rune b) (join_crlf s)))"
    have w: "list_all word_ok ?ws" unfolding rune_fields_def by (rule fields_from_words) simp
    have "clean_text s b = join_spaces ?ws" using False by (simp add: clean_text_def Let_def)
    with trim_runes_id [OF join_spaces_ends [OF w]] fields_join [OF w] c False
    show ?thesis by (simp add: clean_text_def Let_def)
  qed
qed

lemma wrapped_lines:
  assumes "45 < length r" and "length r \<le> 90" and "rune_nl \<notin> set r"
  shows "length (split_runes rune_nl (trim_runes (take (find_cut 45 r) r) @ rune_nl # trim_runes (drop (find_cut 45 r) r))) = 2 \<and>
    (\<forall>l \<in> set (split_runes rune_nl (trim_runes (take (find_cut 45 r) r) @ rune_nl # trim_runes (drop (find_cut 45 r) r))).
       length l \<le> 45)"
proof -
  let ?c = "find_cut 45 r"
  let ?a = "trim_runes (take ?c r)" and ?b = "trim_runes (drop ?c r)"
  note b = find_cut_bounds [OF assms(1,2) order_refl]
  have nl: "rune_nl \<notin> set ?a" "rune_nl \<notin> set ?b"
    using assms(3) set_trim_runes [of "take ?c r"] set_trim_runes [of "drop ?c r"]
    by (auto dest: in_set_takeD in_set_dropD)
  have la: "length ?a \<le> 45" using length_trim_runes [of "take ?c r"] b by simp
  have lb: "length ?b \<le> 45"
  proof (cases "length r - ?c \<le> 45")
    case True
    with length_trim_runes [of "drop ?c r"] show ?thesis by simp
  next
    case False
    with b have d: "drop ?c r = rune_sp # drop (Suc ?c) r" "length r - ?c = 46"
      by (metis Cons_nth_drop_Suc)+
    then have "length (drop (Suc ?c) r) = 45" by simp
    with d(1) length_trim_runes [of "drop (Suc ?c) r"] show ?thesis by (simp add: trim_runes_space)
  qed
  from la lb nl show ?thesis by (simp add: split_runes_append split_runes_none)
qed

definition fits :: "rune list \<Rightarrow> bool" where
  "fits s \<longleftrightarrow> length (split_runes rune_nl s) \<le> 2 \<and> list_all (\<lambda>l. length l \<le> 45) (split_runes rune_nl s)"

lemma flat_fits:
  assumes "length s \<le> 90"
  shows "fits (let r = join_spaces (rune_fields s)
     in if length r \<le> 45 then r
        else (let cut = find_cut 45 r in trim_runes (take cut r) @ rune_nl # trim_runes (drop cut r)))"
proof -
  let ?r = "join_spaces (rune_fields s)"
  have w: "list_all word_ok (rune_fields s)" unfolding rune_fields_def by (rule fields_from_words) simp
  have sp: "rune_space rune_nl" by (simp add: rune_space_def)
  have "rune_nl \<notin> set v" if v: "v \<in> set (rune_fields s)" for v
  proof -
    from w v have "word_ok v" by (simp only: list_all_iff)
    then have "\<forall>c \<in> set v. \<not> rune_space c" unfolding word_ok_def list_all_iff by (rule conjunct2)
    with sp show ?thesis by blast
  qed
  then have "rune_nl \<notin> \<Union> (set ` set (rune_fields s))" by blast
  moreover have "rune_nl \<noteq> rune_sp" by simp
  ultimately have nl: "rune_nl \<notin> set ?r" using set_join_spaces [of "rune_fields s"] by blast
  have "length ?r \<le> 90" using length_fields_from [of "[]" s] assms by (simp add: rune_fields_def)
  note long = wrapped_lines [OF _ this nl]
  show ?thesis
  proof (cases "length ?r \<le> 45")
    case True
    with nl show ?thesis by (simp add: fits_def split_runes_none)
  next
    case False
    then have "45 < length ?r" by simp
    from long [OF this] False show ?thesis unfolding Let_def if_not_P [OF False] fits_def list_all_iff by simp
  qed
qed

section \<open>Properties\<close>

text \<open>A normalized text is a fixed point of the normalization, so it is shown the same however
  often it passes through it (when it is saved, and again when a slate is started).\<close>

theorem normalize_text_idempotent:
  assumes "normalize_text t = Some t'"
  shows "normalize_text t' = Some t'"
  using assms by (auto simp: normalize_text_def clean_text_idem Let_def split: if_splits)

theorem normalize_text_idempotent_witness:
  "normalize_text (mk_text ''  Down  for '' ''Back soon'') = Some (mk_text ''Down for'' ''Back soon'') \<and>
   normalize_text (mk_text ''Down for'' ''Back soon'') = Some (mk_text ''Down for'' ''Back soon'')"
proof -
  have n: "normalize_text (mk_text ''  Down  for '' ''Back soon'') = Some (mk_text ''Down for'' ''Back soon'')"
    by code_simp
  from normalize_text_idempotent [OF n] n show ?thesis by blast
qed

text \<open>The subtitle of a normalized text is laid out in at most two lines of at most 45 runes.\<close>

theorem wrap_subtitle_fits:
  assumes "normalize_text t = Some t'"
  shows "fits (wrap_subtitle (tx_subtitle t'))"
proof -
  have "length (tx_subtitle t') \<le> 90" using assms by (auto simp: normalize_text_def Let_def split: if_splits)
  note f = flat_fits [OF this]
  show ?thesis
  proof (cases "\<exists>a b. split_runes rune_nl (tx_subtitle t') = [a, b] \<and> length a \<le> 45 \<and> length b \<le> 45")
    case True
    then show ?thesis by (auto simp: wrap_subtitle_def fits_def)
  next
    case False
    then have "wrap_subtitle (tx_subtitle t') = (let r = join_spaces (rune_fields (tx_subtitle t'))
       in if length r \<le> 45 then r
          else (let cut = find_cut 45 r in trim_runes (take cut r) @ rune_nl # trim_runes (drop cut r)))"
      unfolding wrap_subtitle_def by (auto split: list.split)
    with f show ?thesis by simp
  qed
qed

theorem wrap_subtitle_fits_witness:
  "normalize_text (mk_text ''Down'' ''The transmitter of this station is being serviced and will be back tomorrow'') =
     Some (mk_text ''Down'' ''The transmitter of this station is being serviced and will be back tomorrow'') \<and>
   fits (wrap_subtitle (ascii_runes ''The transmitter of this station is being serviced and will be back tomorrow''))"
proof -
  have n: "normalize_text (mk_text ''Down'' ''The transmitter of this station is being serviced and will be back tomorrow'') =
     Some (mk_text ''Down'' ''The transmitter of this station is being serviced and will be back tomorrow'')" by code_simp
  from wrap_subtitle_fits [OF n] n show ?thesis by (simp add: mk_text_def)
qed

end
