(* ===== verification/AlwaysOn.thy ===== *)
theory AlwaysOn imports SourceFetch HlsPull Remux begin

text \<open>
  \<open>internal/gatewayhttp/alwayson.go\<close>: the supervisor of the always-on relays.

  \<open>RelayStore\<close>, the interface it gets its streams from and reports to, is the record
  \<open>relay_store\<close>; its contract is the locale \<open>relay_contract\<close>, which the database provides here and
  a relay node's list in \<open>NodeRelay\<close>. Times, what other requests do to the session manager while
  a relay starts, and what became of the source are arguments (\<open>relay_env\<close>). The order in which
  the wanted streams are handled (a Go map) is an argument as well.
\<close>

section \<open>The relay store\<close>

record 's relay_store =
  ry_always_on :: "'s \<Rightarrow> (store_error, stream list) result"
  ry_set_runtime :: "'s \<Rightarrow> int \<Rightarrow> string \<Rightarrow> string \<Rightarrow> (store_error, 's) result"
  ry_clear_runtime :: "'s \<Rightarrow> int list \<Rightarrow> (store_error, 's) result"

text \<open>The handler's \<open>setRuntime\<close> only logs a failure.\<close>

definition report_runtime :: "'s relay_store \<Rightarrow> 's \<Rightarrow> int \<Rightarrow> string \<Rightarrow> string \<Rightarrow> 's" where
  "report_runtime R s i state detail = or_else (ry_set_runtime R s i state detail) s"

section \<open>Backoff\<close>

definition always_on_min_backoff :: duration where "always_on_min_backoff = 30 * second"
definition always_on_max_backoff :: duration where "always_on_max_backoff = 10 * minute"
definition always_on_min_healthy :: duration where "always_on_min_healthy = 2 * minute"

record always_on_state =
  ao_failures :: int
  ao_next_try :: time
  ao_running_since :: time

definition new_always_on_state :: always_on_state where
  "new_always_on_state = \<lparr>ao_failures = 0, ao_next_try = zero_time, ao_running_since = zero_time\<rparr>"

text \<open>\<open>d << k\<close> on a \<open>time.Duration\<close>.\<close>

definition shift_left64 :: "int \<Rightarrow> nat \<Rightarrow> int" where
  "shift_left64 d k = wrap64 (d * 2 ^ k)"

definition backoff_after :: "int \<Rightarrow> duration" where
  "backoff_after failures =
     (let b = shift_left64 always_on_min_backoff (nat (failures - 1))
      in if b > always_on_max_backoff \<or> b \<le> 0 then always_on_max_backoff else b)"

definition fail_state :: "time \<Rightarrow> always_on_state \<Rightarrow> duration \<times> always_on_state" where
  "fail_state now st =
     (let n = wrap64 (ao_failures st + 1); b = backoff_after n
      in (b, \<lparr>ao_failures = n, ao_next_try = now + b, ao_running_since = zero_time\<rparr>))"

text \<open>\<open>Duration.Round\<close>.\<close>

definition round_duration :: "duration \<Rightarrow> duration \<Rightarrow> duration" where
  "round_duration d m =
     (let r = \<bar>d\<bar> mod m
      in if d < 0 then (if r + r < m then d + r else d - m + r)
         else (if r + r < m then d - r else d + m - r))"

section \<open>Opening the source\<close>

datatype relay_source = TsBody bytes | HlsSource url

definition open_relay_source ::
  "url_lib \<Rightarrow> aead \<Rightarrow> bytes option \<Rightarrow> source_reply network \<Rightarrow> time \<Rightarrow> stream \<Rightarrow> transport \<times> trust_cache \<Rightarrow>
   (go_error, relay_source) result \<times> transport \<times> trust_cache" where
  "open_relay_source L A key net now st tc =
     (case source_entry_url L A key st of
        Inl e \<Rightarrow> (Inl (err_text ''unparsable source URL''), tc)
      | Inr entry \<Rightarrow>
          (let (private, cache) = is_source_private (nw_resolve net 0) now (snd tc) (s_id st)
                                    (s_trust_private_source st) entry;
               (out, T) = fetch_with_header_timeout L A key net (fst tc) entry st private (25 * second)
           in (case fo_result out of
                 Inl e \<Rightarrow> (Inl e, T, cache)
               | Inr (final, r) \<Rightarrow>
                   if sr_status r \<ge> 400
                   then (Inl (err_text (''source returned HTTP '' @ format_int (sr_status r))), T, cache)
                   else (let head = take sniff_limit (sr_body r)
                         in if looks_like_mpegts head then (Inr (TsBody (sr_body r)), T, cache)
                            else if \<not> is_playlist head
                            then (Inl (err_text ''source is neither MPEG-TS nor an HLS playlist''), T, cache)
                            else (Inr (HlsSource final), T, cache)))))"

text \<open>The fetcher handed to the HLS puller checks each target before it is fetched.\<close>

definition relay_segment_fetch ::
  "url_lib \<Rightarrow> aead \<Rightarrow> bytes option \<Rightarrow> source_reply network \<Rightarrow> transport \<Rightarrow> stream \<Rightarrow> bool \<Rightarrow> url \<Rightarrow>
   (go_error, url \<times> source_reply) result \<times> transport" where
  "relay_segment_fetch L A key net T st private target =
     (case check_fetch_target (nw_resolve net 0) target private of
        Inl e \<Rightarrow> (Inl (blocked_error (e_msg e)), T)
      | Inr _ \<Rightarrow>
          (let (out, T') = fetch_with_header_timeout L A key net T target st private 0 in (fo_result out, T')))"

definition safe_reasons :: "string list" where
  "safe_reasons =
     [''remux session limit reached'', ''timed out waiting for first HLS segment'',
      ''ffmpeg exited before creating a playlist'', ''source returned HTTP'', ''source is neither'',
      ''unparsable source URL'']"

definition relay_failure_reason :: "url_lib \<Rightarrow> go_error \<Rightarrow> string" where
  "relay_failure_reason L e =
     (if EncryptedHls \<in> set (e_causes e) then ''encrypted HLS is not supported for always-on''
      else if FMP4Hls \<in> set (e_causes e) then ''fMP4 HLS is not supported for always-on''
      else if NotTSHls \<in> set (e_causes e) then ''source segments are not MPEG-TS''
      else if list_ex (str_contains (error_text L e)) safe_reasons then error_text L e
      else fetch_failure_kind e)"

section \<open>One relay\<close>

record relay_env =
  re_now :: time                       \<comment> \<open>when the stream is handled\<close>
  re_after :: time                     \<comment> \<open>after the start\<close>
  re_opened :: "manager \<Rightarrow> opened"      \<comment> \<open>what opening the source came to, with an unused name\<close>
  re_meanwhile :: "manager \<Rightarrow> manager"  \<comment> \<open>what others do to the sessions during the fetch\<close>
  re_turns :: "(time \<times> (manager \<Rightarrow> manager)) list"  \<comment> \<open>the looks for the playlist\<close>
  re_deadline :: time
  re_cancelled :: bool                 \<comment> \<open>the context has ended before this stream\<close>

definition start_relay :: "relay_env \<Rightarrow> manager \<Rightarrow> int \<Rightarrow> string \<Rightarrow> (go_error, unit) result \<times> manager" where
  "start_relay env m stream_id sig =
     (let wait = (\<lambda>r m. case wait_playlist (re_turns env) (re_deadline env) r m of
                    (Inl e, m') \<Rightarrow> (Inl e, stop_stream m' stream_id)
                  | (Inr p, m') \<Rightarrow> (Inr (), snd (set_pinned m' (re_after env) stream_id True)))
      in (case start_begin m (re_now env) stream_id sig of
            (Failed e, m1) \<Rightarrow> (Inl e, m1)
          | (Joined r, m1) \<Rightarrow> wait r m1
          | (Opening p, m1) \<Rightarrow>
              (let m2 = re_meanwhile env m1
               in (case List.find (\<lambda>q. po_ref q = p) (rm_pending m2) of
                     None \<Rightarrow> (Inl (err_text ''remux start cancelled''), m2)
                   | Some q \<Rightarrow>
                       (case start_finish m2 (re_after env) q sig (re_opened env m2) of
                          (Joined r, m3) \<Rightarrow> wait r m3
                        | (Failed e, m3) \<Rightarrow> (Inl e, m3)
                        | (Opening _, m3) \<Rightarrow> (Inl (err_text ''remux start cancelled''), m3))))))"

record 's ao_world =
  aw_states :: "(int \<times> always_on_state) list"
  aw_remux :: manager
  aw_store :: 's

definition put_state :: "int \<Rightarrow> always_on_state \<Rightarrow> 's ao_world \<Rightarrow> 's ao_world" where
  "put_state i st w = w\<lparr>aw_states := AList.update i st (aw_states w)\<rparr>"

definition healthy :: "time \<Rightarrow> always_on_state \<Rightarrow> bool" where
  "healthy now st \<longleftrightarrow>
     ao_running_since st \<noteq> zero_time \<and> \<not> time_sub now (ao_running_since st) < always_on_min_healthy"

definition short_lived :: "time \<Rightarrow> always_on_state \<Rightarrow> bool" where
  "short_lived now st \<longleftrightarrow>
     ao_running_since st \<noteq> zero_time \<and> time_sub now (ao_running_since st) < always_on_min_healthy"

text \<open>The body of the loop over the wanted streams; \<open>fmt\<close> prints a duration.\<close>

definition reconcile_stream ::
  "url_lib \<Rightarrow> (duration \<Rightarrow> string) \<Rightarrow> (stream \<Rightarrow> string) \<Rightarrow> 's relay_store \<Rightarrow> (int \<times> bool) list \<Rightarrow>
   relay_env \<Rightarrow> stream \<Rightarrow> 's ao_world \<Rightarrow> 's ao_world" where
  "reconcile_stream L fmt signature R pinned env st w =
     (let i = s_id st; now = re_now env;
          stt = (case map_of (aw_states w) i of None \<Rightarrow> new_always_on_state | Some s \<Rightarrow> s);
          dead = (map_of pinned i = Some False);
          m = (if dead then stop_stream (aw_remux w) i else aw_remux w)
      in if dead \<and> short_lived now stt
         then (let ran = round_duration (time_sub now (ao_running_since stt)) second;
                   (b, stt') = fail_state now stt
               in put_state i stt' (w\<lparr>aw_remux := m, aw_store := report_runtime R (aw_store w) i ''backoff''
                    (''relay exited after '' @ fmt ran @ ''; retrying in '' @ fmt (round_duration b second))\<rparr>))
         else (let stt = (if dead then stt\<lparr>ao_running_since := zero_time\<rparr> else stt); sig = signature st
               in (case existing m now i sig of
                     (Some _, m1) \<Rightarrow>
                       (let m2 = snd (set_pinned m1 now i True);
                            stt' = (if healthy now stt then stt\<lparr>ao_failures := 0, ao_next_try := zero_time\<rparr> else stt)
                        in put_state i stt' (w\<lparr>aw_remux := m2,
                             aw_store := report_runtime R (aw_store w) i ''running'' []\<rparr>))
                   | (None, m1) \<Rightarrow>
                       if now < ao_next_try stt then put_state i stt (w\<lparr>aw_remux := m1\<rparr>)
                       else (let s1 = report_runtime R (aw_store w) i ''starting'' []
                             in (case start_relay env m1 i sig of
                                   (Inl e, m2) \<Rightarrow>
                                     (let (b, stt') = fail_state (re_after env) stt
                                      in put_state i stt' (w\<lparr>aw_remux := m2, aw_store := report_runtime R s1 i ''backoff''
                                           (relay_failure_reason L e @ ''; retrying in '' @ fmt (round_duration b second))\<rparr>))
                                 | (Inr _, m2) \<Rightarrow>
                                     put_state i (stt\<lparr>ao_next_try := zero_time, ao_running_since := re_after env\<rparr>)
                                       (w\<lparr>aw_remux := m2, aw_store := report_runtime R s1 i ''running'' []\<rparr>))))))"

section \<open>Reconciling\<close>

text \<open>Relays allowed: one slot less than there are, but at least one.\<close>

definition max_relays :: "bool \<Rightarrow> nat \<Rightarrow> int" where
  "max_relays relay_only slots =
     (let n = (if relay_only then int slots else int slots - 1) in if n < 1 then 1 else n)"

text \<open>The wanted streams, keyed by id, and the ids of all listed; streams beyond the limit are
  reported as having no slot.\<close>

fun choose_wanted ::
  "'s relay_store \<Rightarrow> int \<Rightarrow> nat \<Rightarrow> stream list \<Rightarrow> (int \<times> stream) list \<Rightarrow> 's \<Rightarrow> (int \<times> stream) list \<times> 's" where
  "choose_wanted R limit slots [] want s = (want, s)"
| "choose_wanted R limit slots (st # sts) want s =
     (if int (length want) \<ge> limit
      then choose_wanted R limit slots sts want (report_runtime R s (s_id st) ''error''
             (''no free relay slot ('' @ format_int limit @ '' of '' @ format_int (int slots) @
              '' used; raise STREAMVAULT_REMUX_SLOTS)''))
      else choose_wanted R limit slots sts (AList.update (s_id st) st want) s)"

definition unpin_unwanted :: "time \<Rightarrow> (int \<times> bool) list \<Rightarrow> (int \<times> stream) list \<Rightarrow> 's ao_world \<Rightarrow> 's ao_world" where
  "unpin_unwanted now pinned want w =
     fold (\<lambda>(i, alive) w.
             if map_of want i = None
             then w\<lparr>aw_remux := snd (set_pinned (aw_remux w) now i False), aw_states := AList.delete i (aw_states w)\<rparr>
             else w) pinned w"

text \<open>The second component says that the context ended, in which case nothing is cleared.\<close>

fun reconcile_streams ::
  "url_lib \<Rightarrow> (duration \<Rightarrow> string) \<Rightarrow> (stream \<Rightarrow> string) \<Rightarrow> 's relay_store \<Rightarrow> (int \<times> bool) list \<Rightarrow>
   (int \<Rightarrow> relay_env) \<Rightarrow> stream list \<Rightarrow> 's ao_world \<Rightarrow> 's ao_world \<times> bool" where
  "reconcile_streams L fmt signature R pinned env [] w = (w, False)"
| "reconcile_streams L fmt signature R pinned env (st # sts) w =
     (if re_cancelled (env (s_id st)) then (w, True)
      else reconcile_streams L fmt signature R pinned env sts
             (reconcile_stream L fmt signature R pinned (env (s_id st)) st w))"

definition reconcile_always_on ::
  "url_lib \<Rightarrow> (duration \<Rightarrow> string) \<Rightarrow> (stream \<Rightarrow> string) \<Rightarrow> 's relay_store \<Rightarrow> bool \<Rightarrow> time \<Rightarrow>
   ((int \<times> stream) list \<Rightarrow> stream list) \<Rightarrow> (int \<Rightarrow> relay_env) \<Rightarrow> 's ao_world \<Rightarrow> 's ao_world" where
  "reconcile_always_on L fmt signature R relay_only now order env w =
     (case ry_always_on R (aw_store w) of
        Inl e \<Rightarrow> w
      | Inr streams \<Rightarrow>
          (let slots = remux_slots (aw_remux w);
               (want, s) = choose_wanted R (max_relays relay_only slots) slots streams [] (aw_store w);
               pinned = pinned_streams (aw_remux w);
               w1 = unpin_unwanted now pinned want (w\<lparr>aw_store := s\<rparr>);
               (w2, cancelled) = reconcile_streams L fmt signature R pinned env (order want) w1
           in if cancelled then w2
              else w2\<lparr>aw_store := or_else (ry_clear_runtime R (aw_store w2) (map s_id streams)) (aw_store w2)\<rparr>))"

section \<open>What the supervisor leaves of a store\<close>

lemma put_state_store [simp]: "aw_store (put_state i st w) = aw_store w"
  by (simp add: put_state_def)

lemma unpin_store [simp]: "aw_store (unpin_unwanted now pinned want w) = aw_store w"
  unfolding unpin_unwanted_def by (induction pinned arbitrary: w) auto

text \<open>A part of the store that reports and clearing leave alone.\<close>

locale relay_observer =
  fixes R :: "'s relay_store"
    and seen :: "'s \<Rightarrow> 'o"
  assumes set_keeps: "ry_set_runtime R s i state detail = Inr s' \<Longrightarrow> seen s' = seen s"
    and clear_keeps: "ry_clear_runtime R s keep = Inr s' \<Longrightarrow> seen s' = seen s"
begin

lemma report_keeps [simp]: "seen (report_runtime R s i state detail) = seen s"
  using set_keeps by (auto simp: report_runtime_def or_else_def split: sum.splits)

lemma choose_keeps: "seen (snd (choose_wanted R limit slots sts want s)) = seen s"
  by (induction sts arbitrary: want s) (simp_all del: append.simps)

lemma reconcile_stream_keeps: "seen (aw_store (reconcile_stream L fmt sig R pinned env st w)) = seen (aw_store w)"
  by (simp add: reconcile_stream_def Let_def split: prod.splits option.splits sum.splits)

lemma reconcile_streams_keeps: "seen (aw_store (fst (reconcile_streams L fmt sig R pinned env sts w))) = seen (aw_store w)"
  by (induction sts arbitrary: w) (simp_all add: reconcile_stream_keeps)

lemma reconcile_keeps:
  "seen (aw_store (reconcile_always_on L fmt sig R ro now order env w)) = seen (aw_store w)"
proof (cases "ry_always_on R (aw_store w)")
  case (Inr streams)
  obtain want s where c: "choose_wanted R (max_relays ro (remux_slots (aw_remux w))) (remux_slots (aw_remux w)) streams [] (aw_store w) = (want, s)"
    by fastforce
  obtain w2 b where r: "reconcile_streams L fmt sig R (pinned_streams (aw_remux w)) env (order want)
      (unpin_unwanted now (pinned_streams (aw_remux w)) want (w\<lparr>aw_store := s\<rparr>)) = (w2, b)" by fastforce
  have "seen (aw_store w2) = seen s"
    using reconcile_streams_keeps [of L fmt sig "pinned_streams (aw_remux w)" env "order want"
      "unpin_unwanted now (pinned_streams (aw_remux w)) want (w\<lparr>aw_store := s\<rparr>)"] r by simp
  moreover have "seen s = seen (aw_store w)"
    using choose_keeps [of _ _ streams "[]" "aw_store w"] c by (metis snd_conv)
  moreover have "seen (or_else (ry_clear_runtime R t keep) t) = seen t" for t keep
    using clear_keeps by (auto simp: or_else_def split: sum.splits)
  ultimately show ?thesis using Inr c r by (simp add: reconcile_always_on_def Let_def)
qed (simp add: reconcile_always_on_def)

end

section \<open>The contract of a relay store\<close>

text \<open>Reporting a state sets it and clearing keeps exactly the given streams; neither changes what is
  to be relayed.\<close>

locale relay_contract =
  fixes R :: "'s relay_store"
    and runtime_of :: "'s \<Rightarrow> int \<rightharpoonup> string \<times> string"
  assumes set_runtime_of:
      "ry_set_runtime R s i state detail = Inr s' \<Longrightarrow> runtime_of s' = (runtime_of s)(i \<mapsto> (state, detail))"
    and clear_runtime_of:
      "ry_clear_runtime R s keep = Inr s' \<Longrightarrow> runtime_of s' = restrict_keys keep (runtime_of s)"
    and set_keeps_streams: "ry_set_runtime R s i state detail = Inr s' \<Longrightarrow> ry_always_on R s' = ry_always_on R s"
    and clear_keeps_streams: "ry_clear_runtime R s keep = Inr s' \<Longrightarrow> ry_always_on R s' = ry_always_on R s"

text \<open>A pass never changes which streams are wanted, and one that runs to its end leaves states of
  listed streams only.\<close>

sublocale relay_contract \<subseteq> wanted: relay_observer R "ry_always_on R"
  by unfold_locales (rule set_keeps_streams clear_keeps_streams, assumption)+

context relay_contract begin

lemma reconcile_runtime_listed:
  assumes "ry_always_on R (aw_store w) = Inr streams"
    and "\<And>i. \<not> re_cancelled (env i)"
    and "\<And>s keep. \<exists>s'. ry_clear_runtime R s keep = Inr s'"
  shows "dom (runtime_of (aw_store (reconcile_always_on L fmt sig R ro now order env w))) \<subseteq> s_id ` set streams"
proof -
  have "snd (reconcile_streams L fmt sig R pinned env sts w) = False" for pinned sts w
    using assms(2) by (induction sts arbitrary: w) simp_all
  moreover have "dom (runtime_of (or_else (ry_clear_runtime R s (map s_id streams)) s)) \<subseteq> s_id ` set streams" for s
  proof -
    obtain s' where c: "ry_clear_runtime R s (map s_id streams) = Inr s'" using assms(3) by blast
    have "dom (runtime_of s') \<subseteq> s_id ` set streams"
      unfolding clear_runtime_of [OF c] dom_restrict_keys by auto
    with c show ?thesis by (simp add: or_else_def)
  qed
  ultimately show ?thesis
    using assms(1) by (simp add: reconcile_always_on_def Let_def case_prod_beta)
qed

end

section \<open>The database as a relay store\<close>

definition db_relay_store :: "clock \<Rightarrow> bool \<Rightarrow> db relay_store" where
  "db_relay_store ck up =
     \<lparr>ry_always_on = always_on_streams up, ry_set_runtime = set_runtime ck up, ry_clear_runtime = clear_runtime up\<rparr>"

definition db_runtime_of :: "db \<Rightarrow> int \<rightharpoonup> string \<times> string" where
  "db_runtime_of D i =
     map_option (\<lambda>r. (rt_state r, rt_detail r)) (List.find (\<lambda>r. rt_stream_id r = i) (db_runtime D))"

lemma find_put_runtime:
  "List.find (\<lambda>x. rt_stream_id x = i) (put_runtime r rs) =
     (if i = rt_stream_id r then Some r else List.find (\<lambda>x. rt_stream_id x = i) rs)"
proof (cases "rt_stream_id r \<in> rt_stream_id ` set rs")
  case True
  have "List.find (\<lambda>x. rt_stream_id x = i) (map (\<lambda>x. if rt_stream_id x = rt_stream_id r then r else x) xs) =
      (if i = rt_stream_id r then (if i \<in> rt_stream_id ` set xs then Some r else None)
       else List.find (\<lambda>x. rt_stream_id x = i) xs)" for xs
    by (induction xs) auto
  with True show ?thesis by (simp add: put_runtime_def)
next
  case False
  then have "List.find (\<lambda>x. rt_stream_id x = rt_stream_id r) rs = None"
    unfolding find_None_iff by (metis image_eqI)
  with False show ?thesis by (auto simp: put_runtime_def find_append split: option.splits)
qed

lemma find_filter_keys:
  "List.find (\<lambda>x. k x = i) (filter (\<lambda>x. k x \<in> S) xs) = (if i \<in> S then List.find (\<lambda>x. k x = i) xs else None)"
  by (induction xs) auto

interpretation db_relays: relay_contract "db_relay_store ck up" db_runtime_of
proof
  fix D D' i state detail
  assume "ry_set_runtime (db_relay_store ck up) D i state detail = Inr D'"
  then have D': "D' = D\<lparr>db_runtime := put_runtime \<lparr>rt_stream_id = i, rt_state = state, rt_detail = detail,
      rt_updated_at = ck_stamp ck\<rparr> (db_runtime D)\<rparr>"
    by (auto simp: db_relay_store_def set_runtime_def split: if_splits)
  show "db_runtime_of D' = (db_runtime_of D)(i \<mapsto> (state, detail))"
    by (auto simp: D' db_runtime_of_def find_put_runtime)
  show "ry_always_on (db_relay_store ck up) D' = ry_always_on (db_relay_store ck up) D"
    by (simp add: D' db_relay_store_def always_on_streams_def owner_of_def operator_by_id_def cong: option.case_cong)
next
  fix D D' keep
  assume c: "ry_clear_runtime (db_relay_store ck up) D keep = Inr D'"
  then have D': "D' = D\<lparr>db_runtime := filter (\<lambda>r. rt_stream_id r \<in> set keep) (db_runtime D)\<rparr>"
    by (auto simp: db_relay_store_def clear_runtime_def split: if_splits)
  show "db_runtime_of D' = restrict_keys keep (db_runtime_of D)"
    by (auto simp: D' db_runtime_of_def find_filter_keys restrict_keys_def)
  show "ry_always_on (db_relay_store ck up) D' = ry_always_on (db_relay_store ck up) D"
    by (simp add: D' db_relay_store_def always_on_streams_def owner_of_def operator_by_id_def cong: option.case_cong)
qed

section \<open>Properties\<close>

lemma backoff_small: "\<forall>k < 30. backoff_after (int k + 1) = min (30 * second * 2 ^ k) (10 * minute)"
proof -
  have "list_all (\<lambda>k. backoff_after (int k + 1) = min (30 * second * 2 ^ k) (10 * minute)) [0..<30]" by code_simp
  then show ?thesis by (simp add: list_all_iff)
qed

lemma wrap64_multiple: "2 ^ 40 dvd x \<Longrightarrow> 2 ^ 40 dvd wrap64 x"
proof -
  assume "2 ^ 40 dvd x"
  then have "(2 :: int) ^ 40 dvd x + 2 ^ 63" by (intro dvd_add) simp_all
  then have "(2 :: int) ^ 40 dvd (x + 2 ^ 63) mod 2 ^ 64" by (intro dvd_mod) simp_all
  then show ?thesis by (simp add: wrap64_def)
qed

lemma backoff_large:
  assumes "30 \<le> k"
  shows "backoff_after (int k + 1) = 10 * minute"
proof -
  have "(2 :: int) ^ k = 2 ^ 30 * 2 ^ (k - 30)" using assms by (subst power_add [symmetric]) simp
  then have "30 * second * 2 ^ k = 2 ^ 40 * (29296875 * 2 ^ (k - 30))" by simp
  then have "2 ^ 40 dvd 30 * second * 2 ^ k" by (metis dvd_triv_left)
  then have "2 ^ 40 dvd shift_left64 always_on_min_backoff k"
    unfolding shift_left64_def always_on_min_backoff_def by (rule wrap64_multiple)
  then have "shift_left64 always_on_min_backoff k > 0 \<Longrightarrow> shift_left64 always_on_min_backoff k \<ge> 2 ^ 40"
    by (simp add: zdvd_imp_le)
  then show ?thesis by (auto simp: backoff_after_def Let_def always_on_max_backoff_def)
qed

text \<open>C60: the wait after the \<open>n\<close>th failure in a row is 30 seconds doubled \<open>n - 1\<close> times and capped at
  10 minutes, for every \<open>n\<close>: where the 64-bit shift overflows, its result is never a short wait.\<close>

theorem backoff_schedule:
  assumes "1 \<le> n"
  shows "backoff_after n = min (30 * second * 2 ^ nat (n - 1)) (10 * minute)"
proof -
  obtain k where n: "n = int k + 1" using assms by (metis add.commute nonneg_int_cases diff_ge_0_iff_ge diff_add_cancel)
  show ?thesis
  proof (cases "k < 30")
    case True
    with backoff_small n show ?thesis by simp
  next
    case False
    then have "(2 :: int) ^ 30 \<le> 2 ^ k" by (intro power_increasing) simp_all
    with backoff_large [of k] False n show ?thesis by simp
  qed
qed

theorem backoff_schedule_witness: "backoff_after 100 = 10 * minute \<and> backoff_after 2 = 60 * second"
  using backoff_schedule [of 100] backoff_schedule [of 2] by simp

text \<open>A pass of the supervisor that runs to its end leaves relay states in the database only for
  streams that are to be relayed; the others are cleared.\<close>

theorem relay_states_only_for_relays:
  assumes "always_on_streams True (aw_store w) = Inr streams" and "\<forall>i. \<not> re_cancelled (env i)"
  shows "dom (db_runtime_of (aw_store (reconcile_always_on L fmt sig (db_relay_store ck True) ro now order env w)))
    \<subseteq> s_id ` set streams"
  using assms
  by (intro db_relays.reconcile_runtime_listed) (simp_all add: db_relay_store_def clear_runtime_def)

definition idle_env :: relay_env where
  "idle_env =
     \<lparr>re_now = 5, re_after = 6, re_opened = (\<lambda>m. OpenFailed (err_text ''closed'')), re_meanwhile = (\<lambda>m. m),
      re_turns = [], re_deadline = 40, re_cancelled = False\<rparr>"

definition stale_db :: db where
  "stale_db = empty_db\<lparr>db_runtime := [\<lparr>rt_stream_id = 4, rt_state = ''running'', rt_detail = [], rt_updated_at = []\<rparr>]\<rparr>"

theorem relay_states_only_for_relays_witness:
  "db_runtime_of stale_db 4 = Some (''running'', []) \<and>
   db_runtime_of (aw_store (reconcile_always_on plain_lib (\<lambda>d. []) s_source_url
     (db_relay_store \<lparr>ck_now = 5, ck_stamp = [], ck_parse_rfc3339 = (\<lambda>s. None), ck_parse_stamp = (\<lambda>s. None)\<rparr> True)
     False 5 (map snd) (\<lambda>i. idle_env)
     \<lparr>aw_states = [], aw_remux = new_manager 2, aw_store = stale_db\<rparr>)) 4 = None"
proof -
  have a: "always_on_streams True stale_db = Inr []"
    by (simp add: always_on_streams_def stale_db_def empty_db_def)
  have d: "db_runtime_of stale_db 4 = Some (''running'', [])"
    by (simp add: db_runtime_of_def stale_db_def)
  let ?w = "\<lparr>aw_states = [], aw_remux = new_manager 2, aw_store = stale_db\<rparr>"
  have "\<forall>i :: int. \<not> re_cancelled ((\<lambda>i. idle_env) i)" by (simp add: idle_env_def)
  from relay_states_only_for_relays [of ?w "[]", OF _ this] a
  have "dom (db_runtime_of (aw_store (reconcile_always_on L fmt sig (db_relay_store ck True) ro now order (\<lambda>i. idle_env) ?w))) \<subseteq> {}"
    for L fmt sig ck ro now order by simp
  then show ?thesis using d by (simp add: dom_eq_empty_conv)
qed

text \<open>With more than one slot the supervisor wants at most all but one of them, so viewers of
  other streams find one; with a single slot it wants that one too.\<close>

theorem relay_slots_reserved:
  "int (length (fst (choose_wanted R (max_relays False slots) slots streams [] s))) \<le>
     (if slots \<le> 1 then 1 else int slots - 1)"
proof -
  have "int (length (fst (choose_wanted R limit slots streams want s))) \<le> max limit (int (length want))" for limit want s
  proof (induction streams arbitrary: want s)
    case (Cons st sts)
    show ?case
    proof (cases "int (length want) \<ge> limit")
      case True
      show ?thesis unfolding choose_wanted.simps if_P [OF True] by (rule Cons.IH)
    next
      case False
      have "length (AList.update k v want) \<le> Suc (length want)" for k and v :: stream
        by (induction want) auto
      from this [of "s_id st" st] False Cons [of "AList.update (s_id st) st want" s] show ?thesis by simp
    qed
  qed simp
  from this [of "max_relays False slots" "[]" s] show ?thesis by (simp add: max_relays_def split: if_splits)
qed

text \<open>With the smallest setting nothing is left over.\<close>

lemma single_slot_not_reserved: "max_relays False 1 = 1"
  by (simp add: max_relays_def)

end
