(* ===== verification/Gateway.thy ===== *)
theory Gateway imports NodeControl SlateText AlwaysOn begin

text \<open>
  \<open>internal/gatewayhttp/handler.go\<close> and the viewer side of \<open>nodecontrol.go\<close>: the request handler.

  \<open>gateway\<close> is everything a request can read or change: the database, the shared transport, the
  trust cache, the remux sessions, the token stamps, the slate provider's state, the nonces the
  codec will draw, and a log of the requests sent out (\<open>gw_sent\<close>), which the program does not keep
  but the properties speak of. \<open>gw_env\<close> is what the outside does during the request. A reply is
  its status and body; the cache and retry headers are left out.
\<close>

section \<open>State\<close>

record gw_config =
  gc_lib :: url_lib
  gc_aead :: aead
  gc_hashes :: hashes
  gc_key :: "bytes option"
  gc_codec :: codec
  gc_valid_utf8 :: "bytes \<Rightarrow> bool"

text \<open>\<open>slate.Provider\<close>, over a state of its own.\<close>

record 'p slate_provider =
  sp_get_path :: "'p \<Rightarrow> string \<Rightarrow> string \<Rightarrow> string \<Rightarrow> (slate_error, string \<times> string) result \<times> 'p"
  sp_prepare :: "'p \<Rightarrow> string \<Rightarrow> int \<Rightarrow> int \<Rightarrow> time \<Rightarrow> string \<times> 'p"

record 'p gateway =
  gw_db :: db
  gw_transport :: transport
  gw_trust :: trust_cache
  gw_remux :: manager
  gw_last_touch :: "int \<rightharpoonup> time"
  gw_slate :: 'p
  gw_random :: "bytes option list"
  gw_sent :: "(url \<times> remote) list"

datatype query = QResolve | QResolveBase | QToken | QTouch | QText

record 'p gw_env =
  ge_clock :: clock
  ge_up :: "query \<Rightarrow> bool"
  ge_network :: "source_reply network"
  ge_retry_network :: "source_reply network"
  ge_node_network :: "source_reply network"
  ge_relay :: relay_env
  ge_files :: "string \<times> string \<Rightarrow> string option"
  ge_provider :: "'p slate_provider"
  ge_late :: "bool list"  \<comment> \<open>whether the deadline has passed, at each look at the temporary slate; after the last it has\<close>
  ge_api :: api_env

datatype reply =
    HttpError int string
  | NotFound
  | HtmlPage int "rune list"
  | MediaPlaylist string
  | MediaBody string bytes
  | MediaFile string string
  | SlatePlaylist string
  | SlateFile string string
  | NoticeImage
  | Api api_reply

definition max_playlist_size :: nat where "max_playlist_size = 4 * 1024 * 1024"
definition entry_header_timeout :: duration where "entry_header_timeout = 25 * second"
definition entry_retry_header_timeout :: duration where "entry_retry_header_timeout = 15 * second"
definition finite_slate_min_segments :: nat where "finite_slate_min_segments = 3"
definition finite_slate_max_wait :: duration where "finite_slate_max_wait = 8 * second"

section \<open>Routing\<close>

fun strip_first_ext :: "string list \<Rightarrow> string \<Rightarrow> string" where
  "strip_first_ext [] p = p"
| "strip_first_ext (ext # exts) p = (if has_suffix p ext then trim_suffix p ext else strip_first_ext exts p)"

definition strip_known_ext :: "string \<Rightarrow> string" where
  "strip_known_ext p = strip_first_ext [''.m3u8'', ''.ts''] p"

text \<open>The prefix of a request path and the remainder \<open>r/<blob>\<close>, empty for an entry request.\<close>

definition split_request :: "string \<Rightarrow> string \<times> string" where
  "split_request p =
     (case str_index p ''/r/'' of
        Some i \<Rightarrow> (take i p, drop (Suc i) p)
      | None \<Rightarrow> (strip_known_ext p, []))"

definition blob_of :: "string \<Rightarrow> string" where
  "blob_of remainder =
     (let blob = trim_prefix remainder ''r/''
      in (case last_index_byte blob CHR ''.'' of None \<Rightarrow> blob | Some i \<Rightarrow> take i blob))"

definition resolve_prefix :: "(query \<Rightarrow> bool) \<Rightarrow> db \<Rightarrow> string \<Rightarrow> (store_error, access_point \<times> string) result" where
  "resolve_prefix up D prefix =
     (let with_token =
        (case last_index_byte prefix CHR ''/'' of
           None \<Rightarrow> Inl ErrNotFound
         | Some idx \<Rightarrow>
             if idx = 0 \<or> idx = length prefix - 1 then Inl ErrNotFound
             else (case resolve_access_point (up QResolveBase) D (take idx prefix) of
                     Inl e \<Rightarrow> Inl e
                   | Inr ap \<Rightarrow>
                       if a_visibility ap \<noteq> ''private'' then Inl ErrNotFound
                       else Inr (ap, drop (Suc idx) prefix)))
      in (case resolve_access_point (up QResolve) D prefix of
            Inr ap \<Rightarrow> if a_visibility ap = ''public'' then Inr (ap, []) else with_token
          | Inl ErrNotFound \<Rightarrow> with_token
          | Inl e \<Rightarrow> Inl e))"

section \<open>References handed to viewers\<close>

definition ref_ext :: "url \<Rightarrow> string" where
  "ref_ext target = (let ext = path_ext (u_path target) in if length ext > 8 then [] else ext)"

definition encode_ref :: "gw_config \<Rightarrow> string \<Rightarrow> int \<Rightarrow> (url, bytes option list) encoder" where
  "encode_ref C prefix aid target rnd =
     (case rnd of
        [] \<Rightarrow> None
      | n # ns \<Rightarrow>
          (case bc_encode (gc_codec C) n (ul_string (gc_lib C) target) (format_int aid) of
             Inl e \<Rightarrow> None
           | Inr blob \<Rightarrow> Some (CHR ''/'' # prefix @ ''/r/'' @ blob @ ref_ext target, ns)))"

section \<open>Small operations\<close>

definition touch_token_throttled :: "'p gw_env \<Rightarrow> int \<Rightarrow> 'p gateway \<Rightarrow> 'p gateway" where
  "touch_token_throttled E token_id g =
     (let now = ck_now (ge_clock E);
          should = (case gw_last_touch g token_id of None \<Rightarrow> True | Some seen \<Rightarrow> time_sub now seen > minute)
      in if should
         then g\<lparr>gw_last_touch := (gw_last_touch g)(token_id \<mapsto> now),
                gw_db := touch_token (ge_clock E) (ge_up E QTouch) (gw_db g) token_id\<rparr>
         else g)"

text \<open>\<open>isSourcePrivate\<close> on the handler's cache.\<close>

definition source_private :: "'p gw_env \<Rightarrow> stream \<Rightarrow> url \<Rightarrow> 'p gateway \<Rightarrow> bool \<times> 'p gateway" where
  "source_private E st entry g =
     (let (private, cache) = is_source_private (nw_resolve (ge_network E) 0) (ck_now (ge_clock E)) (gw_trust g)
                               (s_id st) (s_trust_private_source st) entry
      in (private, g\<lparr>gw_trust := cache\<rparr>))"

definition gw_fetch ::
  "gw_config \<Rightarrow> source_reply network \<Rightarrow> url \<Rightarrow> stream \<Rightarrow> bool \<Rightarrow> duration \<Rightarrow> 'p gateway \<Rightarrow>
   (go_error, url \<times> source_reply) result \<times> 'p gateway" where
  "gw_fetch C net target st private header_timeout g =
     (let (out, T) = fetch_with_header_timeout (gc_lib C) (gc_aead C) (gc_key C) net (gw_transport g) target st
                       private header_timeout
      in (fo_result out, g\<lparr>gw_transport := T, gw_sent := gw_sent g @ fo_trace out\<rparr>))"

section \<open>Error pages and slates\<close>

fun html_escape :: "rune list \<Rightarrow> rune list" where
  "html_escape [] = []"
| "html_escape (r # s) =
     (if r = 0x26 then ascii_runes ''&amp;'' else if r = 0x27 then ascii_runes ''&#39;''
      else if r = 0x3C then ascii_runes ''&lt;'' else if r = 0x3E then ascii_runes ''&gt;''
      else if r = 0x22 then ascii_runes ''&#34;'' else [r]) @ html_escape s"

definition page_style :: string where
  "page_style =
     ''<style>body{font-family:system-ui,sans-serif;background:#0b0d12;color:#e6e8ee;display:flex;align-items:center;justify-content:center;height:100vh;margin:0}'' @ [newline] @
     ''.card{max-width:32rem;padding:2rem;text-align:center}h1{font-size:1.5rem;margin-bottom:.5rem}p{color:#9aa2b1}</style>'' @ [newline]"

definition error_html :: "slate_text \<Rightarrow> rune list" where
  "error_html t =
     ascii_runes (''<!doctype html><html><head><meta charset=\"utf-8\"><title>'') @ html_escape (tx_title t) @
     ascii_runes (''</title>'' @ [newline] @ page_style @ ''</head><body><div class=\"card\"><h1>'') @
     html_escape (tx_title t) @ ascii_runes (''</h1>'' @ [newline] @ ''<p>'') @ html_escape (tx_subtitle t) @
     ascii_runes (''</p>'' @ [newline] @ ''</div></body></html>'')"

definition write_error_html :: "http_request \<Rightarrow> slate_text \<Rightarrow> int \<Rightarrow> reply" where
  "write_error_html q copy status = HtmlPage status (if hq_method q = ''HEAD'' then [] else error_html copy)"

definition wants_slate :: "http_request \<Rightarrow> bool" where
  "wants_slate q = (\<not> str_contains (to_lower (hq_header q ''Accept'')) ''text/html'')"

definition slate_route_parts :: "string \<Rightarrow> string \<times> string" where
  "slate_route_parts v =
     (case cut_at CHR '':'' v of
        (b, Some r) \<Rightarrow> (b, r)
      | (_, None) \<Rightarrow> if v = temporary then (v, temporary_reason) else (v, unauthorized_redistribution))"

definition write_slate_playlist_key :: "http_request \<Rightarrow> string \<Rightarrow> string \<Rightarrow> reply" where
  "write_slate_playlist_key q variant key =
     (let (base, reason) = slate_route_parts variant; key = (if key \<noteq> [] then key @ ''/'' else key)
      in SlatePlaylist (if hq_method q = ''HEAD'' then []
           else ''#EXTM3U'' @ [newline] @ ''#EXT-X-VERSION:3'' @ [newline] @
                ''#EXT-X-STREAM-INF:BANDWIDTH=600000,RESOLUTION=1920x1080'' @ [newline] @
                ''/_sv/slate/'' @ base @ ''/'' @ reason @ ''/'' @ key @ ''index.m3u8'' @ [newline]))"

definition loaded_text :: "bool \<Rightarrow> db \<Rightarrow> string \<Rightarrow> slate_text" where
  "loaded_text up D reason =
     (case slate_text_row up D reason of
        Inl e \<Rightarrow> default_text reason
      | Inr (title, subtitle) \<Rightarrow>
          (case normalize_text \<lparr>tx_title = utf8_runes title, tx_subtitle = utf8_runes subtitle\<rparr> of
             None \<Rightarrow> default_text reason
           | Some clean \<Rightarrow> clean))"

definition shown_reason :: "string \<Rightarrow> string" where
  "shown_reason reason =
     (if \<not> valid_reason reason \<or> reason = temporary_reason then unauthorized_redistribution else reason)"

definition replacement_text :: "bool \<Rightarrow> db \<Rightarrow> string \<Rightarrow> slate_text" where
  "replacement_text up D reason = loaded_text up D (shown_reason reason)"

text \<open>The time from which the viewer was cut off, as it was recorded.\<close>

definition no_token :: token_info where
  "no_token = \<lparr>ti_id = 0, ti_status = TokenInvalid, ti_revoked_at = None, ti_expires_at = None\<rparr>"

definition cutoff_stamp :: "access_point \<Rightarrow> token_info \<Rightarrow> string" where
  "cutoff_stamp ap token =
     (if ti_revoked_at token \<noteq> None then null_string (ti_revoked_at token)
      else if ti_status token = TokenExpired \<and> ti_expires_at token \<noteq> None then null_string (ti_expires_at token)
      else if a_revoked_at ap \<noteq> None then null_string (a_revoked_at ap)
      else null_string (s_disabled_at (a_stream ap)))"

definition write_replacement ::
  "'p gw_env \<Rightarrow> http_request \<Rightarrow> access_point \<Rightarrow> token_info \<Rightarrow> bool \<Rightarrow> 'p gateway \<Rightarrow> reply \<times> 'p gateway" where
  "write_replacement E q ap token entry g =
     (let reason = shown_reason (s_replacement_reason (a_stream ap))
      in if entry \<and> wants_slate q
         then (let variant = unavailable @ '':'' @ reason
               in (case ck_parse_rfc3339 (ge_clock E) (cutoff_stamp ap token) of
                     None \<Rightarrow> (write_slate_playlist_key q variant [], g)
                   | Some cutoff \<Rightarrow>
                       (let (key, p) = sp_prepare (ge_provider E) (gw_slate g) variant (a_id ap) (ti_id token) cutoff
                        in (write_slate_playlist_key q variant key, g\<lparr>gw_slate := p\<rparr>))))
         else (write_error_html q (replacement_text (ge_up E QText) (gw_db g) reason) 410, g))"

definition write_temporary_html :: "'p gw_env \<Rightarrow> http_request \<Rightarrow> 'p gateway \<Rightarrow> reply" where
  "write_temporary_html E q g =
     write_error_html q (loaded_text (ge_up E QText) (gw_db g) temporary_reason) 503"

text \<open>One line of the temporary slate's playlist: what is copied, and whether it is a segment.\<close>

definition finite_line :: "string \<Rightarrow> string \<Rightarrow> string \<times> nat" where
  "finite_line prefix line =
     (let line = trim_space line
      in if line = [] \<or> line = ''#EXT-X-ENDLIST'' then ([], 0)
         else if has_prefix line ''#'' then (line @ [newline], 0)
         else if slate_valid_name line \<and> line \<noteq> ''index.m3u8'' then (prefix @ line @ [newline], 1)
         else ([], 0))"

definition finite_playlist :: "string \<Rightarrow> string \<Rightarrow> string \<times> nat" where
  "finite_playlist prefix data =
     (let ls = map (finite_line prefix) (split_on newline data)
      in (concat (map fst ls) @ ''#EXT-X-ENDLIST'' @ [newline], sum_list (map snd ls)))"

definition read_finite_slate ::
  "'p gw_env \<Rightarrow> string \<Rightarrow> string \<Rightarrow> 'p \<Rightarrow> (slate_error, string \<times> nat) result \<times> 'p" where
  "read_finite_slate E base reason p =
     (case sp_get_path (ge_provider E) p (base @ '':'' @ reason) [] ''index.m3u8'' of
        (Inl e, p') \<Rightarrow> (Inl e, p')
      | (Inr path, p') \<Rightarrow>
          (case ge_files E path of
             None \<Rightarrow> (Inl (SlateFailed ''unreadable''), p')
           | Some data \<Rightarrow> (Inr (finite_playlist (''/_sv/slate/'' @ base @ ''/'' @ reason @ ''/'') data), p')))"

fun finite_temporary_slate :: "'p gw_env \<Rightarrow> bool list \<Rightarrow> 'p \<Rightarrow> (slate_error, string) result \<times> 'p" where
  "finite_temporary_slate E late p =
     (let (base, reason) = slate_route_parts temporary
      in (case read_finite_slate E base reason p of
            (Inl e, p') \<Rightarrow> (Inl e, p')
          | (Inr (body, segments), p') \<Rightarrow>
              (case late of
                 False # rest \<Rightarrow>
                   if segments \<ge> finite_slate_min_segments then (Inr body, p')
                   else finite_temporary_slate E rest p'
               | _ \<Rightarrow> if segments = 0 then (Inl (SlateFailed ''temporary slate has no segments yet''), p')
                     else (Inr body, p'))))"

declare finite_temporary_slate.simps [simp del]

definition write_temporary_failure :: "'p gw_env \<Rightarrow> http_request \<Rightarrow> 'p gateway \<Rightarrow> reply \<times> 'p gateway" where
  "write_temporary_failure E q g =
     (if \<not> wants_slate q then (write_temporary_html E q g, g)
      else (case finite_temporary_slate E (ge_late E) (gw_slate g) of
              (Inl e, p) \<Rightarrow> (HttpError 503 ''temporarily unavailable'', g\<lparr>gw_slate := p\<rparr>)
            | (Inr body, p) \<Rightarrow>
                (SlatePlaylist (if hq_method q = ''HEAD'' then [] else body), g\<lparr>gw_slate := p\<rparr>)))"

definition slate_request :: "string \<Rightarrow> (string \<times> string \<times> string) option" where
  "slate_request p =
     (let parts = split_on CHR ''/'' (trim_prefix p ''/''); n = length parts
      in if n < 4 \<or> n > 6 \<or> parts ! 0 \<noteq> ''_sv'' \<or> parts ! 1 \<noteq> ''slate'' \<or> \<not> valid_variant (parts ! 2) then None
         else (let name = last parts;
                   (reason, key) =
                     (if n = 4 then (snd (slate_route_parts (parts ! 2)), [])
                      else if n = 5
                      then (if valid_reason (parts ! 3) then (parts ! 3, [])
                            else (snd (slate_route_parts (parts ! 2)), parts ! 3))
                      else (parts ! 3, parts ! 4));
                   variant = parts ! 2 @ '':'' @ reason
               in if \<not> valid_variant variant then None
                  else if \<not> slate_valid_name name \<or> key \<noteq> [] \<and> \<not> valid_key key then None
                  else Some (variant, key, name)))"

definition serve_slate :: "'p gw_env \<Rightarrow> http_request \<Rightarrow> 'p gateway \<Rightarrow> reply \<times> 'p gateway" where
  "serve_slate E q g =
     (case slate_request (hq_path q) of
        None \<Rightarrow> (NotFound, g)
      | Some (variant, key, name) \<Rightarrow>
          (case sp_get_path (ge_provider E) (gw_slate g) variant key name of
             (Inl NotExist, p) \<Rightarrow> (NotFound, g\<lparr>gw_slate := p\<rparr>)
           | (Inl (SlateFailed e), p) \<Rightarrow> (HttpError 503 ''slate unavailable'', g\<lparr>gw_slate := p\<rparr>)
           | (Inr path, p) \<Rightarrow>
               (case ge_files E path of
                  None \<Rightarrow> NotFound
                | Some data \<Rightarrow>
                    SlateFile (if name = ''index.m3u8'' then ''application/vnd.apple.mpegurl'' else ''video/mp2t'') data,
                g\<lparr>gw_slate := p\<rparr>)))"

section \<open>Remux sessions\<close>

text \<open>\<open>Manager.Start\<close> with what others do to the sessions between its two sections.\<close>

definition remux_start :: "relay_env \<Rightarrow> manager \<Rightarrow> int \<Rightarrow> string \<Rightarrow> (go_error, nat) result \<times> manager" where
  "remux_start env m i sig =
     (case start_begin m (re_now env) i sig of
        (Failed e, m1) \<Rightarrow> (Inl e, m1)
      | (Joined r, m1) \<Rightarrow> (Inr r, m1)
      | (Opening p, m1) \<Rightarrow>
          (let m2 = re_meanwhile env m1
           in (case List.find (\<lambda>q. po_ref q = p) (rm_pending m2) of
                 None \<Rightarrow> (Inl (err_text ''remux start cancelled''), m2)
               | Some q \<Rightarrow>
                   (case start_finish m2 (re_after env) q sig (re_opened env m2) of
                      (Joined r, m3) \<Rightarrow> (Inr r, m3)
                    | (Failed e, m3) \<Rightarrow> (Inl e, m3)
                    | (Opening _, m3) \<Rightarrow> (Inl (err_text ''remux start cancelled''), m3)))))"

definition remux_base :: "string \<Rightarrow> url" where
  "remux_base sid =
     \<lparr>u_scheme = ''sv-remux'', u_user = None, u_host = sid, u_path = ''/index.m3u8'', u_raw_query = [], u_fragment = []\<rparr>"

definition write_remux_playlist ::
  "gw_config \<Rightarrow> 'p gw_env \<Rightarrow> access_point \<Rightarrow> nat \<Rightarrow> string \<Rightarrow> 'p gateway \<Rightarrow> reply \<times> 'p gateway" where
  "write_remux_playlist C E ap r prefix g =
     (case wait_playlist (re_turns (ge_relay E)) (re_deadline (ge_relay E)) r (gw_remux g) of
        (Inl e, m) \<Rightarrow> (HttpError 503 ''remux unavailable'', g\<lparr>gw_remux := m\<rparr>)
      | (Inr p, m) \<Rightarrow>
          (let g = g\<lparr>gw_remux := m\<rparr>; s = session_at m r
           in (case ge_files E p of
                 None \<Rightarrow> (HttpError 503 ''remux playlist unavailable'', g)
               | Some data \<Rightarrow>
                   if length data > max_playlist_size then (HttpError 503 ''remux playlist unavailable'', g)
                   else (case rewrite_playlist (ul_ops (gc_lib C)) data (remux_base (rs_id s))
                                (encode_ref C prefix (a_id ap)) (gw_random g) of
                           None \<Rightarrow> (HttpError 503 ''remux playlist invalid'', g)
                         | Some (out, rnd) \<Rightarrow> (MediaPlaylist out, g\<lparr>gw_random := rnd\<rparr>)))))"

definition gw_signature :: "gw_config \<Rightarrow> stream \<Rightarrow> string" where
  "gw_signature C st = source_signature (gc_hashes C) (gc_aead C) (gc_key C) st"

definition serve_remux_entry ::
  "gw_config \<Rightarrow> 'p gw_env \<Rightarrow> access_point \<Rightarrow> string \<Rightarrow> 'p gateway \<Rightarrow> reply \<times> 'p gateway" where
  "serve_remux_entry C E ap prefix g =
     (case remux_start (ge_relay E) (gw_remux g) (s_id (a_stream ap)) (gw_signature C (a_stream ap)) of
        (Inl e, m) \<Rightarrow> (HttpError 503 ''remux unavailable'', g\<lparr>gw_remux := m\<rparr>)
      | (Inr r, m) \<Rightarrow> write_remux_playlist C E ap r prefix (g\<lparr>gw_remux := m\<rparr>))"

definition serve_remux_resource ::
  "'p gw_env \<Rightarrow> access_point \<Rightarrow> url \<Rightarrow> 'p gateway \<Rightarrow> reply \<times> 'p gateway" where
  "serve_remux_resource E ap target g =
     (if u_raw_query target \<noteq> [] \<or> u_user target \<noteq> None \<or> u_fragment target \<noteq> [] then (NotFound, g)
      else (let name = trim_prefix (u_path target) ''/''
            in if name = ''index.m3u8'' then (NotFound, g)
               else (case get_path (gw_remux g) (ck_now (ge_clock E)) (s_id (a_stream ap)) (u_host target) name of
                       (None, m) \<Rightarrow> (NotFound, g\<lparr>gw_remux := m\<rparr>)
                     | (Some p, m) \<Rightarrow>
                         (case ge_files E p of None \<Rightarrow> NotFound | Some data \<Rightarrow> MediaFile name data,
                          g\<lparr>gw_remux := m\<rparr>))))"

section \<open>Sniffing and serving a reply of the source\<close>

definition sniff_and_serve ::
  "gw_config \<Rightarrow> 'p gw_env \<Rightarrow> http_request \<Rightarrow> source_reply \<Rightarrow> url \<Rightarrow> string \<Rightarrow> access_point \<Rightarrow> bool \<Rightarrow> 'p gateway \<Rightarrow>
   reply \<times> 'p gateway" where
  "sniff_and_serve C E q resp manifest_url prefix ap entry g =
     (let body = sr_body resp; head = take sniff_limit body
      in if sr_read_failed resp \<and> length body < sniff_limit then (HttpError 502 ''upstream read error'', g)
         else if entry \<and> looks_like_mpegts head
         then (if \<not> s_allow_remux (a_stream ap) then write_temporary_failure E q g
               else serve_remux_entry C E ap prefix g)
         else if is_playlist head
         then (if sr_read_failed resp \<and> length body \<le> max_playlist_size
               then (HttpError 502 ''upstream read error'', g)
               else if length body > max_playlist_size then (HttpError 502 ''upstream playlist too large'', g)
               else (case rewrite_playlist (ul_ops (gc_lib C)) body manifest_url
                            (encode_ref C prefix (a_id ap)) (gw_random g) of
                       None \<Rightarrow> (HttpError 500 ''internal error'', g)
                     | Some (out, rnd) \<Rightarrow> (MediaPlaylist out, g\<lparr>gw_random := rnd\<rparr>)))
         else if uses_credential_placeholders (s_source_url (a_stream ap)) \<and>
                 (entry \<or> looks_like_document (gc_valid_utf8 C) (sr_content_type resp) head)
         then write_temporary_failure E q g
         else (MediaBody (sr_content_type resp) body, g))"

definition serve_entry ::
  "gw_config \<Rightarrow> 'p gw_env \<Rightarrow> http_request \<Rightarrow> access_point \<Rightarrow> url \<Rightarrow> string \<Rightarrow> 'p gateway \<Rightarrow> reply \<times> 'p gateway" where
  "serve_entry C E q ap source_entry prefix g =
     (let st = a_stream ap; i = s_id st; sig = gw_signature C st; now = ck_now (ge_clock E);
          (refused, m1) = (if \<not> s_allow_remux st then existing (gw_remux g) now i sig else (None, gw_remux g))
      in if refused \<noteq> None then write_temporary_failure E q (g\<lparr>gw_remux := m1\<rparr>)
         else (case existing m1 now i sig of
                 (Some r, m2) \<Rightarrow> write_remux_playlist C E ap r prefix (g\<lparr>gw_remux := m2\<rparr>)
               | (None, m2) \<Rightarrow>
                   (let (private, g1) = source_private E st source_entry (g\<lparr>gw_remux := m2\<rparr>);
                        (res, g2) = gw_fetch C (ge_network E) source_entry st private entry_header_timeout g1;
                        (res, g3) = (case res of
                            Inl e \<Rightarrow>
                              if fetch_failure_kind e = ''timeout''
                              then gw_fetch C (ge_retry_network E) source_entry st private entry_retry_header_timeout g2
                              else (res, g2)
                          | Inr _ \<Rightarrow> (res, g2))
                    in (case res of
                          Inl e \<Rightarrow> write_temporary_failure E q g3
                        | Inr (final, resp) \<Rightarrow>
                            if sr_status resp \<ge> 400 then write_temporary_failure E q g3
                            else sniff_and_serve C E q resp final prefix ap True g3))))"

definition serve_resource ::
  "gw_config \<Rightarrow> 'p gw_env \<Rightarrow> http_request \<Rightarrow> access_point \<Rightarrow> url \<Rightarrow> url \<Rightarrow> string \<Rightarrow> 'p gateway \<Rightarrow> reply \<times> 'p gateway" where
  "serve_resource C E q ap source_entry target prefix g =
     (let (private, g1) = source_private E (a_stream ap) source_entry g;
          (res, g2) = gw_fetch C (ge_network E) target (a_stream ap) private 0 g1
      in (case res of
            Inl e \<Rightarrow> (write_temporary_html E q g2, g2)
          | Inr (final, resp) \<Rightarrow>
              if sr_status resp \<ge> 400 then (HttpError 502 ''upstream error'', g2)
              else sniff_and_serve C E q resp final prefix ap False g2))"

section \<open>Serving from a relay node\<close>

definition gw_node_fetch ::
  "gw_config \<Rightarrow> 'p gw_env \<Rightarrow> url \<Rightarrow> http_request \<Rightarrow> 'p gateway \<Rightarrow> (go_error, url \<times> source_reply) result \<times> 'p gateway" where
  "gw_node_fetch C E target q g =
     (let (res, vid, sent, T) = node_fetch (gc_lib C) (gc_hashes C) (ge_node_network E) (gw_transport g) target q
      in (res, g\<lparr>gw_transport := T, gw_sent := gw_sent g @ sent\<rparr>))"

text \<open>\<open>None\<close>: serve locally.\<close>

definition serve_from_node ::
  "gw_config \<Rightarrow> 'p gw_env \<Rightarrow> http_request \<Rightarrow> access_point \<Rightarrow> string \<Rightarrow> 'p gateway \<Rightarrow> reply option \<times> 'p gateway" where
  "serve_from_node C E q ap prefix g =
     (case (s_node (a_stream ap), gc_key C) of
        (Some n, Some key) \<Rightarrow>
          if \<not> node_online (ge_clock E) (Some n) then (None, g)
          else (case sb_decrypt (gc_aead C) key (nf_secret_enc n) of
                  Inl e \<Rightarrow> (None, g)
                | Inr secret \<Rightarrow>
                    (case node_viewer_url (gc_lib C) (gc_hashes C) (nf_public_url n) secret (s_id (a_stream ap)) 0 0
                            ((ck_now (ge_clock E) + node_grant_lifetime) div second) of
                       None \<Rightarrow> (None, g)
                     | Some raw \<Rightarrow>
                         (case url_parse (ul_ops (gc_lib C)) raw of
                            None \<Rightarrow> (None, g)
                          | Some target \<Rightarrow>
                              (case gw_node_fetch C E target q g of
                                 (Inl e, g1) \<Rightarrow> (None, g1)
                               | (Inr (final, resp), g1) \<Rightarrow>
                                   if sr_status resp \<noteq> 200 then (None, g1)
                                   else (let (reply, g2) = sniff_and_serve C E q resp final prefix ap True g1
                                         in (Some reply, g2))))))
      | _ \<Rightarrow> (None, g))"

definition serve_node_resource ::
  "gw_config \<Rightarrow> 'p gw_env \<Rightarrow> http_request \<Rightarrow> access_point \<Rightarrow> url \<Rightarrow> string \<Rightarrow> 'p gateway \<Rightarrow> reply \<times> 'p gateway" where
  "serve_node_resource C E q ap target prefix g =
     (case gw_node_fetch C E target q g of
        (Inl e, g1) \<Rightarrow> (HttpError 503 ''temporarily unavailable'', g1)
      | (Inr (final, resp), g1) \<Rightarrow>
          if sr_status resp \<noteq> 200 then (HttpError 503 ''temporarily unavailable'', g1)
          else sniff_and_serve C E q resp final prefix ap False g1)"

section \<open>The request handler\<close>

text \<open>What the token check says: go on with this token, or answer at once.\<close>

datatype admission = Admitted token_info | Refused reply | Replaced token_info

definition admit_token :: "gw_config \<Rightarrow> 'p gw_env \<Rightarrow> db \<Rightarrow> access_point \<Rightarrow> string \<Rightarrow> admission" where
  "admit_token C E D ap token_raw =
     (if a_visibility ap \<noteq> ''private'' then Admitted no_token
      else (case validate_token (gc_hashes C) (ge_clock E) (ge_up E QToken) D (a_id ap) token_raw of
              Inl e \<Rightarrow> Refused (HttpError 500 ''internal error'')
            | Inr info \<Rightarrow>
                (case ti_status info of
                   TokenInvalid \<Rightarrow> Refused NotFound
                 | TokenRevoked \<Rightarrow> Replaced info
                 | TokenExpired \<Rightarrow> Replaced info
                 | TokenValid \<Rightarrow> Admitted info)))"

text \<open>What an admitted request gets: the entry, or the resource its blob names.\<close>

definition serve_admitted ::
  "gw_config \<Rightarrow> 'p gw_env \<Rightarrow> http_request \<Rightarrow> access_point \<Rightarrow> string \<Rightarrow> string \<Rightarrow> 'p gateway \<Rightarrow> reply \<times> 'p gateway" where
  "serve_admitted C E q ap prefix remainder g =
     (case source_entry_url (gc_lib C) (gc_aead C) (gc_key C) (a_stream ap) of
        Inl e \<Rightarrow> (HttpError 500 ''internal error'', g)
      | Inr source_entry \<Rightarrow>
          if remainder = []
          then (case serve_from_node C E q ap prefix g of
                  (Some reply, g1) \<Rightarrow> (reply, g1)
                | (None, g1) \<Rightarrow> serve_entry C E q ap source_entry prefix g1)
          else (case bc_decode (gc_codec C) (blob_of remainder) (format_int (a_id ap)) of
                  Inl e \<Rightarrow> (NotFound, g)
                | Inr raw \<Rightarrow>
                    (case url_parse (ul_ops (gc_lib C)) raw of
                       None \<Rightarrow> (NotFound, g)
                     | Some target \<Rightarrow>
                         if u_scheme target = ''sv-remux''
                         then (if \<not> s_allow_remux (a_stream ap) then write_temporary_failure E q g
                               else serve_remux_resource E ap target g)
                         else if is_node_target (gc_lib C) ap target
                         then serve_node_resource C E q ap target prefix g
                         else (let (private, g1) = source_private E (a_stream ap) source_entry g
                               in (case check_fetch_target (nw_resolve (ge_network E) 0) target private of
                                     Inl e \<Rightarrow> (HttpError 403 ''forbidden'', g1)
                                   | Inr _ \<Rightarrow> serve_resource C E q ap source_entry target prefix g1)))))"

definition serve_stream ::
  "gw_config \<Rightarrow> 'p gw_env \<Rightarrow> http_request \<Rightarrow> string \<Rightarrow> 'p gateway \<Rightarrow> reply \<times> 'p gateway" where
  "serve_stream C E q req_path g =
     (let (prefix, remainder) = split_request req_path
      in (case resolve_prefix (ge_up E) (gw_db g) prefix of
            Inl ErrNotFound \<Rightarrow> (NotFound, g)
          | Inl e \<Rightarrow> (HttpError 500 ''internal error'', g)
          | Inr (ap, token_raw) \<Rightarrow>
              (case admit_token C E (gw_db g) ap token_raw of
                 Refused r \<Rightarrow> (r, g)
               | Replaced info \<Rightarrow> write_replacement E q ap info (remainder = []) g
               | Admitted info \<Rightarrow>
                   (let g1 = (if a_visibility ap = ''private'' then touch_token_throttled E (ti_id info) g else g)
                    in if s_status (a_stream ap) = ''disabled'' \<or> a_status ap = ''revoked''
                       then write_replacement E q ap info (remainder = []) g1
                       else serve_admitted C E q ap prefix remainder g1))))"

definition serve_http :: "gw_config \<Rightarrow> 'p gw_env \<Rightarrow> http_request \<Rightarrow> 'p gateway \<Rightarrow> reply \<times> 'p gateway" where
  "serve_http C E q g =
     (if has_prefix (hq_path q) ''/_sv/node/''
      then (let (reply, D, rnd) = serve_node_api (gc_hashes C) (gc_aead C) (gc_key C) (ge_api E) q (gw_db g) (gw_random g)
            in (Api reply, g\<lparr>gw_db := D, gw_random := rnd\<rparr>))
      else if hq_method q \<noteq> ''GET'' \<and> hq_method q \<noteq> ''HEAD'' then (HttpError 405 ''method not allowed'', g)
      else (let req_path = trim_prefix (hq_path q) ''/''
            in if req_path = ''_sv/notice.png'' then (NoticeImage, g)
               else if req_path = ''_sv'' \<or> has_prefix req_path ''_sv/'' then serve_slate E q g
               else serve_stream C E q req_path g))"

end
