(* ===== verification/NodeRelay.thy ===== *)
theory NodeRelay imports AlwaysOn begin

text \<open>
  \<open>internal/node/node.go\<close>: the relay node. It holds the configuration it was last given, serves
  viewers that bring a grant signed by the control plane, and is the relay store of its own
  always-on supervisor.

  The decoded configuration document, the request's query values and headers, address parsing and
  the files FFmpeg wrote are arguments. The HTTP exchange itself, the loops around the timers and
  the load average (a floating-point number) are not modelled.
\<close>

section \<open>State\<close>

record node =
  nd_id :: int
  nd_secret :: string
  nd_streams :: "stream list"
  nd_assigned :: "int list"
  nd_revoked_aps :: "int list"
  nd_revoked_tokens :: "int list"
  nd_poll_every :: duration
  nd_runtime :: "(int \<times> stream_status) list"
  nd_viewers :: "(int \<times> (string \<times> time) list) list"
  nd_have_config :: bool
  nd_last_config_at :: time
  nd_remux :: manager

definition config_max_age :: duration where
  "config_max_age = 5 * minute"

definition new_node :: "url_lib \<Rightarrow> nat \<Rightarrow> string \<Rightarrow> string \<Rightarrow> (string, node) result" where
  "new_node L slots token control_url =
     (case parse_token token of
        None \<Rightarrow> Inl ''STREAMVAULT_NODE_TOKEN is missing or malformed''
      | Some (i, secret) \<Rightarrow>
          (case url_parse (ul_ops L) (trim_right control_url ''/'') of
             None \<Rightarrow> Inl ''STREAMVAULT_CONTROL_URL must be an http(s) URL''
           | Some u \<Rightarrow>
               if (u_scheme u \<noteq> ''https'' \<and> u_scheme u \<noteq> ''http'') \<or> u_host u = []
               then Inl ''STREAMVAULT_CONTROL_URL must be an http(s) URL''
               else Inr \<lparr>nd_id = i, nd_secret = secret, nd_streams = [], nd_assigned = [], nd_revoked_aps = [],
                         nd_revoked_tokens = [], nd_poll_every = 10 * second, nd_runtime = [], nd_viewers = [],
                         nd_have_config = False, nd_last_config_at = zero_time, nd_remux = new_manager slots\<rparr>))"

section \<open>The node as a relay store\<close>

definition node_always_on :: "node \<Rightarrow> (store_error, stream list) result" where
  "node_always_on n = Inr (if \<not> nd_have_config n then [] else nd_streams n)"

definition node_set_runtime :: "node \<Rightarrow> int \<Rightarrow> string \<Rightarrow> string \<Rightarrow> (store_error, node) result" where
  "node_set_runtime n i state detail =
     Inr (n\<lparr>nd_runtime := AList.update i
              \<lparr>ss_id = i, ss_state = state, ss_detail = detail, ss_viewers = 0\<rparr> (nd_runtime n)\<rparr>)"

definition node_clear_runtime :: "node \<Rightarrow> int list \<Rightarrow> (store_error, node) result" where
  "node_clear_runtime n keep = Inr (n\<lparr>nd_runtime := filter (\<lambda>(i, s). i \<in> set keep) (nd_runtime n)\<rparr>)"

section \<open>Configuration\<close>

definition config_stream :: "stream_config \<Rightarrow> stream" where
  "config_stream sc =
     (let creds = sc_source_username sc \<noteq> [] \<and> sc_source_password_enc sc \<noteq> []
      in \<lparr>s_id = sc_id sc, s_name = [], s_source_type = sc_source_type sc, s_source_url = sc_source_url sc,
          s_source_username = (if creds then Some (sc_source_username sc) else None),
          s_source_password_enc = (if creds then Some (sc_source_password_enc sc) else None),
          s_status = ''active'', s_disabled_at = None, s_replacement_reason = [], s_replacement_message = None,
          s_allow_remux = True, s_trust_private_source = sc_trust_private_source sc, s_node = None\<rparr>)"

definition apply_config :: "time \<Rightarrow> node_config \<Rightarrow> node \<Rightarrow> node" where
  "apply_config now cfg n =
     (let poll = wrap64 (nc_poll_seconds cfg * second);
          poll = (if poll < 5 * second \<or> poll > minute then 10 * second else poll)
      in n\<lparr>nd_streams := map config_stream (nc_streams cfg), nd_assigned := map sc_id (nc_streams cfg),
           nd_revoked_aps := nc_revoked_access_points cfg, nd_revoked_tokens := nc_revoked_tokens cfg,
           nd_poll_every := poll, nd_have_config := True, nd_last_config_at := now\<rparr>)"

definition clear_config :: "node \<Rightarrow> node" where
  "clear_config n =
     (if \<not> nd_have_config n then n
      else n\<lparr>nd_streams := [], nd_assigned := [], nd_revoked_aps := [], nd_revoked_tokens := [],
             nd_viewers := [], nd_have_config := False\<rparr>)"

definition expire_config :: "time \<Rightarrow> node \<Rightarrow> node" where
  "expire_config now n =
     (if nd_have_config n \<and> time_sub now (nd_last_config_at n) \<ge> config_max_age then clear_config n else n)"

text \<open>What the control plane answered: nothing, or a status with the document if it decodes.\<close>

datatype poll_reply = Unreachable | Replied int "node_config option"

definition poll_once :: "time \<Rightarrow> poll_reply \<Rightarrow> node \<Rightarrow> string option \<times> node" where
  "poll_once now reply n =
     (case reply of
        Unreachable \<Rightarrow> (Some ''control plane unreachable'', n)
      | Replied status doc \<Rightarrow>
          if status = 401 \<or> status = 403
          then (Some ''control plane rejected node credentials'', clear_config n)
          else if status \<noteq> 200 then (Some (''control plane returned HTTP '' @ format_int status), n)
          else (case doc of
                  None \<Rightarrow> (Some ''invalid config document'', n)
                | Some cfg \<Rightarrow>
                    if nc_node_id cfg \<noteq> nd_id n then (Some ''config is for a different node'', n)
                    else (None, apply_config now cfg n)))"

text \<open>One turn of the poll loop.\<close>

definition poll_turn :: "time \<Rightarrow> time \<Rightarrow> poll_reply \<Rightarrow> node \<Rightarrow> duration \<times> node" where
  "poll_turn now later reply n =
     (let n' = expire_config later (snd (poll_once now reply n)) in (nd_poll_every n', n'))"

section \<open>Viewers\<close>

definition record_viewer :: "time \<Rightarrow> int \<Rightarrow> string \<Rightarrow> node \<Rightarrow> node" where
  "record_viewer now i key n =
     n\<lparr>nd_viewers := AList.update i
         (AList.update key now (case map_of (nd_viewers n) i of None \<Rightarrow> [] | Some vs \<Rightarrow> vs)) (nd_viewers n)\<rparr>"

definition is_hex :: "string \<Rightarrow> bool" where
  "is_hex s = list_all is_hex_char s"

record viewer_request =
  vq_method :: string
  vq_path :: string
  vq_raw_query :: string
  vq_query :: "string \<Rightarrow> string"
  vq_remote :: string
  vq_header :: "string \<Rightarrow> string"

text \<open>\<open>net.SplitHostPort\<close> and \<open>net.ParseIP\<close>.\<close>

record addr_lib =
  al_split_host :: "string \<Rightarrow> string option"
  al_parse_ip :: "string \<Rightarrow> ip option"

definition viewer_key :: "addr_lib \<Rightarrow> viewer_request \<Rightarrow> bool \<Rightarrow> string" where
  "viewer_key N q via_control =
     (let hid = vq_header q viewer_header
      in if via_control \<and> length hid = 16 \<and> is_hex hid then ''v:'' @ hid
         else (let peer = (case al_split_host N (vq_remote q) of None \<Rightarrow> vq_remote q | Some h \<Rightarrow> h);
                   xff = trim_space (fst (cut_at CHR '','' (vq_header q ''X-Forwarded-For'')))
               in (case al_parse_ip N peer of
                     Some a \<Rightarrow> if ip_loopback a \<and> al_parse_ip N xff \<noteq> None then xff else peer
                   | None \<Rightarrow> peer)))"

definition note_viewer :: "addr_lib \<Rightarrow> time \<Rightarrow> int \<Rightarrow> viewer_request \<Rightarrow> bool \<Rightarrow> node \<Rightarrow> node" where
  "note_viewer N now i q via_control n = record_viewer now i (viewer_key N q via_control) n"

text \<open>The streams part of a status report; viewers not seen for 30 seconds are dropped.\<close>

definition fresh_viewers :: "time \<Rightarrow> (string \<times> time) list \<Rightarrow> (string \<times> time) list" where
  "fresh_viewers now vs = filter (\<lambda>(k, seen). \<not> seen < now - 30 * second) vs"

definition collect_streams :: "time \<Rightarrow> node \<Rightarrow> stream_status list \<times> node" where
  "collect_streams now n =
     (let live = (\<lambda>i. case map_of (nd_viewers n) i of None \<Rightarrow> [] | Some vs \<Rightarrow> fresh_viewers now vs)
      in (map (\<lambda>(i, s). s\<lparr>ss_viewers := int (length (live i))\<rparr>) (nd_runtime n),
          n\<lparr>nd_viewers := map (\<lambda>(i, vs). if map_of (nd_runtime n) i = None then (i, vs) else (i, fresh_viewers now vs))
                             (nd_viewers n)\<rparr>))"

section \<open>Serving\<close>

definition valid_name :: "string \<Rightarrow> bool" where
  "valid_name name =
     (if name = ''index.m3u8'' then True
      else if \<not> has_prefix name ''seg'' \<or> \<not> has_suffix name ''.ts'' \<or> length name \<noteq> length ''seg000000.ts'' then False
      else list_all is_digit (take 6 (drop 3 name)))"

text \<open>The scanner's default buffer holds lines shorter than 64 KiB; the first longer one ends it.\<close>

definition sign_line :: "string \<Rightarrow> string \<Rightarrow> string" where
  "sign_line raw_query raw =
     (let line = trim_space raw
      in (if line \<noteq> [] \<and> \<not> has_prefix line ''#'' \<and> valid_name line then line @ CHR ''?'' # raw_query else line)
         @ [newline])"

definition sign_segments :: "string \<Rightarrow> string \<Rightarrow> string" where
  "sign_segments playlist raw_query =
     concat (map (\<lambda>l. sign_line raw_query (drop_cr l))
       (takeWhile (\<lambda>l. length l < 2 ^ 16) (body_lines playlist)))"

datatype node_response =
    NodeHealthy
  | NodeError int
  | NodePlaylist string
  | NodeSegment string string

definition int_param :: "viewer_request \<Rightarrow> string \<Rightarrow> int option" where
  "int_param q name = (case parse_int64 (vq_query q name) of (v, ParseOk) \<Rightarrow> Some v | _ \<Rightarrow> None)"

text \<open>The path \<open>/n/<stream>/<file>\<close>.\<close>

definition viewer_path :: "string \<Rightarrow> (int \<times> string) option" where
  "viewer_path p =
     (case split_on CHR ''/'' (trim_prefix p ''/'') of
        [a, b, name] \<Rightarrow>
          if a \<noteq> ''n'' then None
          else (case parse_int64 b of
                  (i, ParseOk) \<Rightarrow> if i \<le> 0 \<or> \<not> valid_name name then None else Some (i, name)
                | _ \<Rightarrow> None)
      | _ \<Rightarrow> None)"

text \<open>The stream, access point, token and expiry of a request whose grant holds at this time.\<close>

definition viewer_grant :: "hashes \<Rightarrow> time \<Rightarrow> node \<Rightarrow> viewer_request \<Rightarrow> int \<Rightarrow> (int \<times> int \<times> int) option" where
  "viewer_grant H now n q i =
     (case (int_param q ''ap'', int_param q ''tok'', int_param q ''exp'') of
        (Some ap, Some tok, Some expiry) \<Rightarrow>
          if now div second > expiry \<or> \<not> verify H (nd_secret n) i ap tok expiry (vq_query q ''sig'') then None
          else Some (ap, tok, expiry)
      | _ \<Rightarrow> None)"

text \<open>The file of the stream's current session; serving the playlist notes the viewer.\<close>

definition serve_session ::
  "addr_lib \<Rightarrow> (string \<times> string \<Rightarrow> string option) \<Rightarrow> time \<Rightarrow> viewer_request \<Rightarrow> int \<Rightarrow> string \<Rightarrow> bool \<Rightarrow> node \<Rightarrow>
   node_response \<times> node" where
  "serve_session N files now q i name via_control n =
     (case current_session (nd_remux n) i of
        None \<Rightarrow> (NodeError 503, n)
      | Some r \<Rightarrow>
          (case get_path (nd_remux n) now i (rs_id (session_at (nd_remux n) r)) name of
             (None, m) \<Rightarrow> (NodeError 404, n\<lparr>nd_remux := m\<rparr>)
           | (Some p, m) \<Rightarrow>
               if name = ''index.m3u8''
               then (case files p of None \<Rightarrow> NodeError 503 | Some data \<Rightarrow> NodePlaylist (sign_segments data (vq_raw_query q)),
                     note_viewer N now i q via_control (n\<lparr>nd_remux := m\<rparr>))
               else (case files p of None \<Rightarrow> NodeError 404 | Some data \<Rightarrow> NodeSegment name data, n\<lparr>nd_remux := m\<rparr>)))"

definition serve_node ::
  "hashes \<Rightarrow> addr_lib \<Rightarrow> (string \<times> string \<Rightarrow> string option) \<Rightarrow> time \<Rightarrow> viewer_request \<Rightarrow> node \<Rightarrow> node_response \<times> node" where
  "serve_node H N files now q n0 =
     (if vq_path q = ''/healthz'' then (NodeHealthy, n0)
      else if vq_method q \<noteq> ''GET'' \<and> vq_method q \<noteq> ''HEAD'' then (NodeError 405, n0)
      else (let n = expire_config now n0
            in (case viewer_path (vq_path q) of
                  None \<Rightarrow> (NodeError 404, n)
                | Some (i, name) \<Rightarrow>
                    (case viewer_grant H now n q i of
                       None \<Rightarrow> (NodeError 403, n)
                     | Some (ap, tok, expiry) \<Rightarrow>
                         if \<not> (i \<in> set (nd_assigned n) \<and> ap \<notin> set (nd_revoked_aps n) \<and>
                              (tok = 0 \<or> tok \<notin> set (nd_revoked_tokens n)))
                         then (NodeError 410, n)
                         else serve_session N files now q i name (ap = 0 \<and> tok = 0) n))))"

section \<open>Host metrics\<close>

text \<open>\<open>strings.Fields\<close> on the ASCII text of \<open>/proc\<close>.\<close>

fun fields_from :: "string \<Rightarrow> string \<Rightarrow> string list" where
  "fields_from acc [] = (if acc = [] then [] else [rev acc])"
| "fields_from acc (c # s) =
     (if ascii_space c then (if acc = [] then fields_from [] s else rev acc # fields_from [] s)
      else fields_from (c # acc) s)"

definition str_fields :: "string \<Rightarrow> string list" where
  "str_fields = fields_from []"

definition mem_line :: "string \<Rightarrow> int \<times> int \<Rightarrow> int \<times> int" where
  "mem_line line acc =
     (case str_fields line of
        k # v # _ \<Rightarrow>
          (let x = fst (parse_int64 v)
           in if k = ''MemTotal:'' then (x, snd acc) else if k = ''MemAvailable:'' then (fst acc, x) else acc)
      | _ \<Rightarrow> acc)"

definition read_mem :: "string option \<Rightarrow> int \<times> int" where
  "read_mem file = (case file of None \<Rightarrow> (0, 0) | Some s \<Rightarrow> fold mem_line (map drop_cr (body_lines s)) (0, 0))"

definition net_line :: "string \<Rightarrow> int \<times> int \<Rightarrow> int \<times> int" where
  "net_line line acc =
     (case cut_at CHR '':'' line of
        (iface, Some rest) \<Rightarrow>
          (let f = str_fields rest
           in if trim_space iface = ''lo'' \<or> length f < 9 then acc
              else (wrap64 (fst acc + fst (parse_int64 (f ! 0))), wrap64 (snd acc + fst (parse_int64 (f ! 8)))))
      | (_, None) \<Rightarrow> acc)"

definition read_net :: "string option \<Rightarrow> int \<times> int" where
  "read_net file = (case file of None \<Rightarrow> (0, 0) | Some s \<Rightarrow> fold net_line (map drop_cr (body_lines s)) (0, 0))"

section \<open>The status report\<close>

text \<open>The load average is a parameter; a node that cannot hash its own binary reports no hash.\<close>

definition collect_status ::
  "string \<Rightarrow> string option \<Rightarrow> real \<Rightarrow> int \<Rightarrow> duration \<Rightarrow> string option \<Rightarrow> string option \<Rightarrow> time \<Rightarrow> node \<Rightarrow>
   node_status \<times> node" where
  "collect_status version binary load1 cpus uptime meminfo netdev now n =
     (let (total, avail) = read_mem meminfo; (rx, tx) = read_net netdev; (streams, n') = collect_streams now n
      in (\<lparr>ns_version = version, ns_binary_sha256 = (case binary of None \<Rightarrow> [] | Some h \<Rightarrow> h),
           ns_uptime_seconds = (if uptime < 0 then - (- uptime div second) else uptime div second),
           ns_load1 = load1, ns_cpus = cpus, ns_mem_total_kb = total, ns_mem_available_kb = avail,
           ns_net_rx_bytes = rx, ns_net_tx_bytes = tx, ns_streams = streams\<rparr>, n'))"

section \<open>The node provides the relay contract\<close>

definition node_relay_store :: "node relay_store" where
  "node_relay_store =
     \<lparr>ry_always_on = node_always_on, ry_set_runtime = node_set_runtime, ry_clear_runtime = node_clear_runtime\<rparr>"

definition node_runtime_of :: "node \<Rightarrow> int \<rightharpoonup> string \<times> string" where
  "node_runtime_of n i = map_option (\<lambda>s. (ss_state s, ss_detail s)) (map_of (nd_runtime n) i)"

lemma map_of_filter_keys: "map_of (filter (\<lambda>(i, s). i \<in> S) al) i = (if i \<in> S then map_of al i else None)"
  by (induction al) auto

interpretation node_relays: relay_contract node_relay_store node_runtime_of
proof
  fix n n' i state detail
  assume "ry_set_runtime node_relay_store n i state detail = Inr n'"
  then have n': "n' = n\<lparr>nd_runtime := AList.update i
      \<lparr>ss_id = i, ss_state = state, ss_detail = detail, ss_viewers = 0\<rparr> (nd_runtime n)\<rparr>"
    by (auto simp: node_relay_store_def node_set_runtime_def)
  show "node_runtime_of n' = (node_runtime_of n)(i \<mapsto> (state, detail))"
    by (auto simp: n' node_runtime_of_def update_conv')
  show "ry_always_on node_relay_store n' = ry_always_on node_relay_store n"
    by (simp add: n' node_relay_store_def node_always_on_def)
next
  fix n n' keep
  assume "ry_clear_runtime node_relay_store n keep = Inr n'"
  then have n': "n' = n\<lparr>nd_runtime := filter (\<lambda>(i, s). i \<in> set keep) (nd_runtime n)\<rparr>"
    by (auto simp: node_relay_store_def node_clear_runtime_def)
  show "node_runtime_of n' = restrict_keys keep (node_runtime_of n)"
    by (auto simp: n' node_runtime_of_def restrict_keys_def map_of_filter_keys)
  show "ry_always_on node_relay_store n' = ry_always_on node_relay_store n"
    by (simp add: n' node_relay_store_def node_always_on_def)
qed

section \<open>States a node can be in\<close>

text \<open>What the loops, the viewers and the supervisor do to the node.\<close>

inductive node_reachable :: "node \<Rightarrow> bool" where
  started: "new_node L slots token control = Inr n \<Longrightarrow> node_reachable n"
| polled: "node_reachable n \<Longrightarrow> node_reachable (snd (poll_turn now later reply n))"
| served: "node_reachable n \<Longrightarrow> node_reachable (snd (serve_node H N files now q n))"
| reported: "node_reachable n \<Longrightarrow> node_reachable (snd (collect_streams now n))"
| runtime_set: "node_reachable n \<Longrightarrow> node_set_runtime n i state detail = Inr n' \<Longrightarrow> node_reachable n'"
| runtime_cleared: "node_reachable n \<Longrightarrow> node_clear_runtime n keep = Inr n' \<Longrightarrow> node_reachable n'"
| sessions_changed: "node_reachable n \<Longrightarrow> node_reachable (n\<lparr>nd_remux := m\<rparr>)"

text \<open>Without a configuration nothing is assigned; with one, what is assigned is what is relayed, and
  the poll interval stays between five seconds and a minute.\<close>

definition node_inv :: "node \<Rightarrow> bool" where
  "node_inv n \<longleftrightarrow>
     nd_assigned n = map s_id (nd_streams n) \<and> (\<not> nd_have_config n \<longrightarrow> nd_streams n = []) \<and>
     5 * second \<le> nd_poll_every n \<and> nd_poll_every n \<le> minute"

lemma clear_config_inv [inv_intros]: "node_inv n \<Longrightarrow> node_inv (clear_config n)"
  by (auto simp: node_inv_def clear_config_def)

lemma expire_config_inv [inv_intros]: "node_inv n \<Longrightarrow> node_inv (expire_config now n)"
  by (simp add: expire_config_def clear_config_inv)

lemma apply_config_inv [inv_intros]: "node_inv (apply_config now cfg n)"
  by (simp add: node_inv_def apply_config_def Let_def config_stream_def)

lemma poll_once_inv [inv_intros]: "node_inv n \<Longrightarrow> node_inv (snd (poll_once now reply n))"
  by (auto simp: poll_once_def clear_config_inv apply_config_inv split: poll_reply.splits option.splits)

text \<open>Serving only expires the configuration, touches sessions and notes viewers.\<close>

lemma serve_session_inv: "node_inv n \<Longrightarrow> node_inv (snd (serve_session N files now q i name vc n))"
  by (simp add: serve_session_def node_inv_def note_viewer_def record_viewer_def split: option.splits prod.splits)

lemma serve_node_inv [inv_intros]: "node_inv n \<Longrightarrow> node_inv (snd (serve_node H N files now q n))"
  by (simp add: serve_node_def Let_def serve_session_inv expire_config_inv split: option.splits prod.splits)

lemma node_reachable_inv: "node_reachable n \<Longrightarrow> node_inv n"
proof (induction rule: node_reachable.induct)
  case (started L slots token control n)
  then show ?case
    by (auto simp: new_node_def node_inv_def split: option.splits prod.splits if_splits)
next
  case (polled n now later reply)
  then show ?case by (simp add: poll_turn_def Let_def inv_intros)
next
  case (served n H N files now q)
  then show ?case by (simp add: serve_node_inv)
qed (auto simp: node_inv_def collect_streams_def Let_def node_set_runtime_def node_clear_runtime_def)

lemma expired_fresh:
  "nd_have_config (expire_config now n) \<Longrightarrow>
     nd_have_config n \<and> expire_config now n = n \<and> time_sub now (nd_last_config_at n) < config_max_age"
  by (auto simp: expire_config_def clear_config_def split: if_splits)

section \<open>Properties\<close>

fun serves_media :: "node_response \<Rightarrow> bool" where
  "serves_media (NodePlaylist p) = True"
| "serves_media (NodeSegment name data) = True"
| "serves_media _ = False"

lemma serving_granted:
  assumes "serves_media (fst (serve_node H N files now q n))"
  shows "\<exists>i name ap tok expiry. viewer_path (vq_path q) = Some (i, name) \<and>
     viewer_grant H now (expire_config now n) q i = Some (ap, tok, expiry) \<and>
     i \<in> set (nd_assigned (expire_config now n)) \<and> ap \<notin> set (nd_revoked_aps (expire_config now n)) \<and>
     (tok = 0 \<or> tok \<notin> set (nd_revoked_tokens (expire_config now n)))"
proof (cases "viewer_path (vq_path q)")
  case None
  with assms show ?thesis by (simp add: serve_node_def Let_def split: if_splits)
next
  case (Some p)
  obtain i name where p: "p = (i, name)" by fastforce
  show ?thesis
  proof (cases "viewer_grant H now (expire_config now n) q i")
    case None
    with assms Some p show ?thesis by (simp add: serve_node_def Let_def split: if_splits)
  next
    case g: (Some g)
    obtain ap tok expiry where "g = (ap, tok, expiry)" by (cases g)
    with assms Some p g show ?thesis by (simp add: serve_node_def Let_def split: if_splits)
  qed
qed

lemma viewer_path_valid: "viewer_path p = Some (i, name) \<Longrightarrow> valid_name name"
  by (auto simp: viewer_path_def split: list.splits prod.splits parse_status.splits if_splits)

text \<open>C6: a node answers with media only under a configuration less than five minutes old, for a
  stream assigned to it in there, to a viewer whose grant for exactly that stream verifies under the
  node's secret, has not expired, and names no revoked access point or token.\<close>

theorem node_serves_only_granted:
  assumes "node_reachable n" and "serves_media (fst (serve_node H N files now q n))"
  shows "\<exists>i name ap tok expiry. viewer_path (vq_path q) = Some (i, name) \<and> valid_name name \<and>
     nd_have_config n \<and> time_sub now (nd_last_config_at n) < config_max_age \<and>
     i \<in> s_id ` set (nd_streams n) \<and> ap \<notin> set (nd_revoked_aps n) \<and>
     (tok = 0 \<or> tok \<notin> set (nd_revoked_tokens n)) \<and>
     verify H (nd_secret n) i ap tok expiry (vq_query q ''sig'') \<and> now div second \<le> expiry"
proof -
  let ?n = "expire_config now n"
  have inv: "node_inv ?n" by (intro expire_config_inv node_reachable_inv assms(1))
  obtain i name ap tok expiry where g: "viewer_path (vq_path q) = Some (i, name)"
      "viewer_grant H now ?n q i = Some (ap, tok, expiry)"
      "i \<in> set (nd_assigned ?n)" "ap \<notin> set (nd_revoked_aps ?n)" "tok = 0 \<or> tok \<notin> set (nd_revoked_tokens ?n)"
    using serving_granted [OF assms(2)] by blast
  from g(3) inv have "nd_have_config ?n" by (auto simp: node_inv_def)
  note fresh = expired_fresh [OF this]
  have "verify H (nd_secret n) i ap tok expiry (vq_query q ''sig'') \<and> now div second \<le> expiry"
    using g(2) fresh by (auto simp: viewer_grant_def split: option.splits if_splits)
  moreover have "i \<in> s_id ` set (nd_streams n)" using g(3) inv fresh by (simp add: node_inv_def)
  moreover have "ap \<notin> set (nd_revoked_aps n)" "tok = 0 \<or> tok \<notin> set (nd_revoked_tokens n)"
    using g(4,5) fresh by simp_all
  ultimately show ?thesis using g(1) viewer_path_valid [OF g(1)] fresh by blast
qed

lemma unconfigured_silent:
  assumes "node_inv n" and "\<not> nd_have_config n"
  shows "node_always_on n = Inr [] \<and> \<not> serves_media (fst (serve_node H N files t q n))"
proof -
  have "node_inv (expire_config t n)" by (rule expire_config_inv [OF assms(1)])
  moreover have "\<not> nd_have_config (expire_config t n)" using assms(2) by (simp add: expire_config_def)
  ultimately have "nd_assigned (expire_config t n) = []" by (simp add: node_inv_def)
  with serving_granted [of H N files t q n] assms(2) show ?thesis by (auto simp: node_always_on_def)
qed

text \<open>C21: once the control plane has answered 401 or 403, or a poll yields no configuration for this
  node - no answer, another HTTP status, an undecodable document, another node's document - and the last
  configuration is five minutes old, a node relays nothing and answers no request with media until it
  is configured again.\<close>

theorem node_fails_closed:
  assumes "node_reachable n"
    and "reply \<in> {Replied 401 doc, Replied 403 doc} \<or>
         (\<nexists>cfg. reply = Replied 200 (Some cfg) \<and> nc_node_id cfg = nd_id n) \<and>
         config_max_age \<le> time_sub later (nd_last_config_at n)"
  shows "node_always_on (snd (poll_turn now later reply n)) = Inr [] \<and>
    \<not> serves_media (fst (serve_node H N files t q (snd (poll_turn now later reply n))))"
proof (rule unconfigured_silent)
  show "node_inv (snd (poll_turn now later reply n))" by (intro node_reachable_inv polled assms(1))
  have "snd (poll_once now reply n) \<in> {n, clear_config n}"
    if "\<nexists>cfg. reply = Replied 200 (Some cfg) \<and> nc_node_id cfg = nd_id n"
    using that by (auto simp: poll_once_def split: poll_reply.split option.split)
  with assms(2) show "\<not> nd_have_config (snd (poll_turn now later reply n))"
    by (auto simp: poll_turn_def poll_once_def Let_def expire_config_def clear_config_def split: if_splits)
qed

text \<open>A node with one assigned stream and a session serving it, as the witnesses use it.\<close>

definition toy_hashes :: hashes where
  "toy_hashes = \<lparr>sha256 = (\<lambda>m. replicate 32 CHR ''h''), hmac256 = (\<lambda>k m. m)\<rparr>"

definition one_stream_config :: node_config where
  "one_stream_config =
     \<lparr>nc_node_id = 4, nc_server_time = 0, nc_poll_seconds = 10,
      nc_streams = [\<lparr>sc_id = 7, sc_source_type = ''hls'', sc_source_url = ''http://src.example/live.m3u8'',
        sc_source_username = [], sc_source_password_enc = [], sc_trust_private_source = False\<rparr>],
      nc_revoked_access_points = [], nc_revoked_tokens = [5]\<rparr>"

definition fresh_node :: node where
  "fresh_node =
     \<lparr>nd_id = 4, nd_secret = replicate 64 CHR ''a'', nd_streams = [], nd_assigned = [], nd_revoked_aps = [],
      nd_revoked_tokens = [], nd_poll_every = 10 * second, nd_runtime = [], nd_viewers = [],
      nd_have_config = False, nd_last_config_at = zero_time, nd_remux = new_manager 2\<rparr>"

definition serving_node :: node where
  "serving_node = (snd (poll_turn 1000 2000 (Replied 200 (Some one_stream_config)) fresh_node))\<lparr>nd_remux := one_session\<rparr>"

lemma parse_node_token: "parse_token (''svn_4_'' @ replicate 64 CHR ''a'') = Some (4, replicate 64 CHR ''a'')"
proof -
  have "format_int 4 = ''4''" by code_simp
  then have 1: "parse_int64 ''4'' = (4, ParseOk)" using parse_format_int [of 4] by simp
  have 2: "hex64 (replicate 64 CHR ''a'')" by (simp add: hex64_def is_hex_char_def list_all_iff)
  have 3: "has_prefix (''svn_4_'' @ replicate 64 CHR ''a'') token_prefix"
    "takeWhile is_digit (drop (length token_prefix) (''svn_4_'' @ replicate 64 CHR ''a'')) = ''4''"
    "dropWhile is_digit (drop (length token_prefix) (''svn_4_'' @ replicate 64 CHR ''a'')) = CHR ''_'' # replicate 64 CHR ''a''"
    by (simp_all add: token_prefix_def has_prefix_def is_digit_def)
  show ?thesis by (simp only: parse_token_def Let_def 3) (simp add: 1 2)
qed

lemma fresh_node_started: "new_node plain_lib 2 (''svn_4_'' @ replicate 64 CHR ''a'') ''https://cp.example'' = Inr fresh_node"
proof -
  have "trim_right ''https://cp.example'' ''/'' = ''https://cp.example''" by code_simp
  with parse_node_token show ?thesis by (simp add: new_node_def fresh_node_def plain_lib_def)
qed

lemma serving_node_reachable: "node_reachable serving_node"
  unfolding serving_node_def by (intro sessions_changed polled started [OF fresh_node_started])

lemma serving_node_fields:
  "nd_have_config serving_node \<and> nd_last_config_at serving_node = 1000 \<and> nd_assigned serving_node = [7] \<and>
   nd_revoked_aps serving_node = [] \<and> nd_revoked_tokens serving_node = [5] \<and>
   nd_remux serving_node = one_session \<and> nd_secret serving_node = replicate 64 CHR ''a''"
  by (simp add: serving_node_def poll_turn_def poll_once_def apply_config_def one_stream_config_def fresh_node_def
      expire_config_def config_max_age_def time_sub_def Let_def)

text \<open>A viewer of stream 7 through access point 1 with token 2, valid until second 99.\<close>

definition granted_viewer :: viewer_request where
  "granted_viewer =
     \<lparr>vq_method = ''GET'', vq_path = ''/n/7/index.m3u8'', vq_raw_query = ''grant'',
      vq_query = (\<lambda>k. if k = ''ap'' then ''1'' else if k = ''tok'' then ''2'' else if k = ''exp'' then ''99''
                     else sign toy_hashes (replicate 64 CHR ''a'') 7 1 2 99),
      vq_remote = ''192.0.2.1:5000'', vq_header = (\<lambda>h. [])\<rparr>"

lemma granted_viewer_path: "viewer_path (vq_path granted_viewer) = Some (7, ''index.m3u8'')"
proof -
  have "format_int 7 = ''7''" by code_simp
  then have 1: "parse_int64 ''7'' = (7, ParseOk)" using parse_format_int [of 7] by simp
  have "split_on CHR ''/'' (trim_prefix ''/n/7/index.m3u8'' ''/'') = [''n'', ''7'', ''index.m3u8'']" by code_simp
  then show ?thesis by (simp add: viewer_path_def granted_viewer_def valid_name_def 1)
qed

lemma granted_viewer_params:
  "int_param granted_viewer ''ap'' = Some 1 \<and> int_param granted_viewer ''tok'' = Some 2 \<and>
   int_param granted_viewer ''exp'' = Some 99"
proof -
  have "format_int 1 = ''1''" "format_int 2 = ''2''" "format_int 99 = ''99''" by code_simp+
  with parse_format_int [of 1] parse_format_int [of 2] parse_format_int [of 99]
  have "parse_int64 ''1'' = (1, ParseOk)" "parse_int64 ''2'' = (2, ParseOk)" "parse_int64 ''99'' = (99, ParseOk)"
    by simp_all
  then show ?thesis by (simp add: int_param_def granted_viewer_def)
qed

lemma granted_viewer_served:
  assumes "now div second \<le> 99" and "0 \<le> now"
  shows "fst (serve_node toy_hashes \<lparr>al_split_host = (\<lambda>s. None), al_parse_ip = (\<lambda>s. None)\<rparr>
     (\<lambda>p. Some ''seg000001.ts'') now granted_viewer serving_node) = NodePlaylist (sign_segments ''seg000001.ts'' ''grant'')"
proof -
  have m: "vq_method granted_viewer = ''GET'' \<and> vq_path granted_viewer = ''/n/7/index.m3u8'' \<and>
      vq_raw_query granted_viewer = ''grant'' \<and> vq_query granted_viewer ''sig'' = sign toy_hashes (replicate 64 CHR ''a'') 7 1 2 99"
    by (simp add: granted_viewer_def)
  have e: "expire_config now serving_node = serving_node"
    using assms serving_node_fields by (simp add: expire_config_def time_sub_def config_max_age_def)
  have g: "viewer_grant toy_hashes now serving_node granted_viewer 7 = Some (1, 2, 99)"
    using granted_viewer_params assms m serving_node_fields by (simp add: viewer_grant_def verify_sign)
  show ?thesis
    using m g serving_node_fields granted_viewer_path
    by (simp add: serve_node_def serve_session_def Let_def e current_session_def get_path_def one_session_eq index_name_def)
qed

theorem node_serves_only_granted_witness:
  "viewer_path (vq_path granted_viewer) = Some (7, ''index.m3u8'') \<and> nd_have_config serving_node \<and>
   7 \<in> s_id ` set (nd_streams serving_node)"
proof -
  have "serves_media (fst (serve_node toy_hashes \<lparr>al_split_host = (\<lambda>s. None), al_parse_ip = (\<lambda>s. None)\<rparr>
     (\<lambda>p. Some ''seg000001.ts'') 5 granted_viewer serving_node))"
    by (simp add: granted_viewer_served)
  from node_serves_only_granted [OF serving_node_reachable this] granted_viewer_path show ?thesis by auto
qed

theorem node_fails_closed_witness:
  "serves_media (fst (serve_node toy_hashes \<lparr>al_split_host = (\<lambda>s. None), al_parse_ip = (\<lambda>s. None)\<rparr>
     (\<lambda>p. Some ''seg000001.ts'') 5 granted_viewer serving_node)) \<and>
   \<not> serves_media (fst (serve_node toy_hashes \<lparr>al_split_host = (\<lambda>s. None), al_parse_ip = (\<lambda>s. None)\<rparr>
     (\<lambda>p. Some ''seg000001.ts'') 5 granted_viewer (snd (poll_turn 3 4 (Replied 403 None) serving_node)))) \<and>
   \<not> serves_media (fst (serve_node toy_hashes \<lparr>al_split_host = (\<lambda>s. None), al_parse_ip = (\<lambda>s. None)\<rparr>
     (\<lambda>p. Some ''seg000001.ts'') 5 granted_viewer (snd (poll_turn 3 (1000 + config_max_age) (Replied 500 None) serving_node))))"
proof -
  have "config_max_age \<le> time_sub (1000 + config_max_age) (nd_last_config_at serving_node)"
    using serving_node_fields by (simp add: time_sub_def config_max_age_def)
  with node_fails_closed [OF serving_node_reachable, of "Replied 403 None" None]
    node_fails_closed [OF serving_node_reachable, of "Replied 500 None" None "1000 + config_max_age"]
  show ?thesis by (simp add: granted_viewer_served)
qed

end
