(* ===== verification/GatewaySafety.thy ===== *)
theory GatewaySafety imports Gateway NodeRelay begin

text \<open>
  What a request to the gateway can reach: nothing of a stream without admission, only what its own
  blob names, and, for a stream that is not trusted to be on a private network, public addresses
  only. And the references handed to viewers come back as what they were minted for.
\<close>

section \<open>Replies with media\<close>

fun is_media :: "reply \<Rightarrow> bool" where
  "is_media (MediaPlaylist p) = True"
| "is_media (MediaBody ct b) = True"
| "is_media (MediaFile n b) = True"
| "is_media r = False"

text \<open>Neither a request sent nor a change to the sessions, the transport or the trust cache.\<close>

definition no_contact :: "'p gateway \<Rightarrow> 'p gateway \<Rightarrow> bool" where
  "no_contact g g' \<longleftrightarrow>
     gw_sent g' = gw_sent g \<and> gw_remux g' = gw_remux g \<and> gw_transport g' = gw_transport g \<and> gw_trust g' = gw_trust g"

lemma no_contact_refl [simp]: "no_contact g g"
  by (simp add: no_contact_def)

lemma no_contact_trans: "no_contact a b \<Longrightarrow> no_contact b c \<Longrightarrow> no_contact a c"
  by (simp add: no_contact_def)

lemma touch_no_contact [simp]: "no_contact g (touch_token_throttled E i g)"
  by (simp add: no_contact_def touch_token_throttled_def Let_def)

lemma touch_fields [simp]:
  "gw_sent (touch_token_throttled E i g) = gw_sent g" "gw_transport (touch_token_throttled E i g) = gw_transport g"
  "gw_trust (touch_token_throttled E i g) = gw_trust g" "gw_remux (touch_token_throttled E i g) = gw_remux g"
  by (simp_all add: touch_token_throttled_def Let_def)

lemma not_media_page [simp]: "\<not> is_media (write_error_html q t s)" "\<not> is_media (write_slate_playlist_key q v k)"
  by (simp_all add: write_error_html_def write_slate_playlist_key_def Let_def split: prod.splits)

lemma replacement_inert:
  assumes "write_replacement E q ap token entry g = (r, g')"
  shows "\<not> is_media r \<and> no_contact g g'"
  using assms by (auto simp: write_replacement_def Let_def no_contact_def split: if_splits option.splits prod.splits)

lemma temporary_inert:
  assumes "write_temporary_failure E q g = (r, g')"
  shows "\<not> is_media r \<and> no_contact g g'"
  using assms
  by (auto simp: write_temporary_failure_def write_temporary_html_def no_contact_def split: if_splits sum.splits prod.splits)

lemma slate_inert:
  assumes "serve_slate E q g = (r, g')"
  shows "\<not> is_media r \<and> no_contact g g'"
  using assms
  by (auto simp: serve_slate_def no_contact_def split: option.splits prod.splits sum.splits slate_error.splits)

text \<open>The admission a request needs.\<close>

definition admitted :: "gw_config \<Rightarrow> 'p gw_env \<Rightarrow> db \<Rightarrow> access_point \<Rightarrow> string \<Rightarrow> bool" where
  "admitted C E D ap token_raw \<longleftrightarrow>
     s_status (a_stream ap) \<noteq> ''disabled'' \<and> a_status ap \<noteq> ''revoked'' \<and>
     (a_visibility ap = ''private'' \<longrightarrow>
        (\<exists>info. validate_token (gc_hashes C) (ge_clock E) (ge_up E QToken) D (a_id ap) token_raw = Inr info \<and>
                ti_status info = TokenValid))"

lemma admit_tokenD:
  "admit_token C E D ap token_raw = Admitted info \<Longrightarrow> a_visibility ap = ''private'' \<Longrightarrow>
     validate_token (gc_hashes C) (ge_clock E) (ge_up E QToken) D (a_id ap) token_raw = Inr info \<and> ti_status info = TokenValid"
  by (auto simp: admit_token_def split: if_splits sum.splits token_status.splits)

lemma admit_token_refused: "admit_token C E D ap token_raw = Refused r \<Longrightarrow> \<not> is_media r"
  by (auto simp: admit_token_def split: if_splits sum.splits token_status.splits)

text \<open>A request for a stream, step by step.\<close>

lemma serve_stream_cases:
  assumes "serve_stream C E q p g = (r, g')"
  obtains (inert) "\<not> is_media r" "no_contact g g'"
  | (served) prefix remainder ap token g1 where "split_request p = (prefix, remainder)"
      "resolve_prefix (ge_up E) (gw_db g) prefix = Inr (ap, token)" "admitted C E (gw_db g) ap token"
      "no_contact g g1" "gw_slate g1 = gw_slate g" "gw_random g1 = gw_random g"
      "serve_admitted C E q ap prefix remainder g1 = (r, g')"
proof -
  obtain prefix remainder where s: "split_request p = (prefix, remainder)" by fastforce
  show thesis
  proof (cases "resolve_prefix (ge_up E) (gw_db g) prefix")
    case (Inl e)
    with assms s show ?thesis by (cases e) (auto simp: serve_stream_def intro!: inert)
  next
    case (Inr x)
    obtain ap token where x: "x = (ap, token)" by fastforce
    show ?thesis
    proof (cases "admit_token C E (gw_db g) ap token")
      case (Refused r')
      with assms s Inr x admit_token_refused [OF Refused] show ?thesis
        by (auto simp: serve_stream_def intro!: inert)
    next
      case (Replaced info)
      with assms s Inr x have "write_replacement E q ap info (remainder = []) g = (r, g')"
        by (simp add: serve_stream_def)
      from replacement_inert [OF this] show ?thesis by (auto intro: inert)
    next
      case (Admitted info)
      let ?g = "if a_visibility ap = ''private'' then touch_token_throttled E (ti_id info) g else g"
      have c: "no_contact g ?g" "gw_slate ?g = gw_slate g" "gw_random ?g = gw_random g"
        by (simp_all add: touch_token_throttled_def Let_def no_contact_def)
      show ?thesis
      proof (cases "s_status (a_stream ap) = ''disabled'' \<or> a_status ap = ''revoked''")
        case True
        with assms s Inr x Admitted have "write_replacement E q ap info (remainder = []) ?g = (r, g')"
          by (simp add: serve_stream_def Let_def)
        from replacement_inert [OF this] c(1) no_contact_trans show ?thesis by (blast intro: inert)
      next
        case False
        with assms s Inr x Admitted have a: "serve_admitted C E q ap prefix remainder ?g = (r, g')"
          by (simp add: serve_stream_def Let_def)
        have "admitted C E (gw_db g) ap token"
          using False admit_tokenD [OF Admitted] by (auto simp: admitted_def)
        with served [OF s _ _ c a] Inr x show ?thesis by simp
      qed
    qed
  qed
qed

lemma serve_http_cases:
  assumes "serve_http C E q g = (r, g')"
  obtains (inert) "\<not> is_media r" "no_contact g g'" | (stream) "serve_stream C E q (trim_prefix (hq_path q) ''/'') g = (r, g')"
proof -
  let ?p = "trim_prefix (hq_path q) ''/''"
  consider (api) "has_prefix (hq_path q) ''/_sv/node/''"
    | (plain) "\<not> has_prefix (hq_path q) ''/_sv/node/''"
        "hq_method q \<noteq> ''GET'' \<and> hq_method q \<noteq> ''HEAD'' \<or> ?p = ''_sv/notice.png''"
    | (slate) "\<not> has_prefix (hq_path q) ''/_sv/node/''" "\<not> (hq_method q \<noteq> ''GET'' \<and> hq_method q \<noteq> ''HEAD'')"
        "?p \<noteq> ''_sv/notice.png''" "?p = ''_sv'' \<or> has_prefix ?p ''_sv/''"
    | (other) "\<not> has_prefix (hq_path q) ''/_sv/node/''" "\<not> (hq_method q \<noteq> ''GET'' \<and> hq_method q \<noteq> ''HEAD'')"
        "?p \<noteq> ''_sv/notice.png''" "\<not> (?p = ''_sv'' \<or> has_prefix ?p ''_sv/'')"
    by blast
  then show thesis
  proof cases
    case api
    with assms show ?thesis by (intro inert) (auto simp: serve_http_def no_contact_def split: prod.splits)
  next
    case plain
    with assms show ?thesis by (intro inert) (auto simp: serve_http_def Let_def split: if_splits)
  next
    case slate
    then have "serve_slate E q g = (r, g')" using assms unfolding serve_http_def Let_def by (simp only: if_True if_False)
    from slate_inert [OF this] show ?thesis by (auto intro: inert)
  next
    case other
    then have "serve_stream C E q ?p g = (r, g')" using assms unfolding serve_http_def Let_def by (simp only: if_True if_False)
    then show ?thesis by (rule stream)
  qed
qed

section \<open>What an admitted request reaches\<close>

definition fetches_same :: "'p gateway \<Rightarrow> 'p gateway \<Rightarrow> bool" where
  "fetches_same g g' \<longleftrightarrow> gw_sent g' = gw_sent g \<and> gw_transport g' = gw_transport g"

lemma fetches_sameI: "no_contact g g' \<Longrightarrow> fetches_same g g'"
  by (simp add: no_contact_def fetches_same_def)

lemma write_remux_same: "write_remux_playlist C E ap r prefix g = (out, g') \<Longrightarrow> fetches_same g g'"
  by (auto simp: write_remux_playlist_def fetches_same_def Let_def split: sum.splits prod.splits option.splits if_splits)

lemma remux_entry_same: "serve_remux_entry C E ap prefix g = (out, g') \<Longrightarrow> fetches_same g g'"
  by (auto simp: serve_remux_entry_def fetches_same_def split: prod.splits sum.splits dest: write_remux_same)

lemma temporary_same: "write_temporary_failure E q g = (out, g') \<Longrightarrow> fetches_same g g'"
  by (rule fetches_sameI [OF conjunct2 [OF temporary_inert]])

lemma fetches_same_random: "fetches_same g (g\<lparr>gw_random := rnd\<rparr>)" "fetches_same g (g\<lparr>gw_remux := m\<rparr>)" "fetches_same g g"
  by (simp_all add: fetches_same_def)

lemma sniff_same: "sniff_and_serve C E q resp u prefix ap entry g = (out, g') \<Longrightarrow> fetches_same g g'"
  by (auto simp: sniff_and_serve_def Let_def fetches_same_random split: if_splits option.splits
      dest: temporary_same remux_entry_same)

definition public_step :: "'p gateway \<Rightarrow> 'p gateway \<Rightarrow> bool" where
  "public_step g g' \<longleftrightarrow>
     (pool_public (tr_pool (gw_transport g)) \<longrightarrow>
        pool_public (tr_pool (gw_transport g')) \<and>
        (\<exists>xs. gw_sent g' = gw_sent g @ xs \<and> (\<forall>(u, a) \<in> set xs. \<not> remote_private a)))"

lemma public_step_same: "fetches_same g g' \<Longrightarrow> public_step g g'"
  by (simp add: public_step_def fetches_same_def)

lemma public_step_trans: "public_step a b \<Longrightarrow> public_step b c \<Longrightarrow> public_step a c"
  unfolding public_step_def by fastforce

lemma gw_fetch_public:
  assumes "\<not> s_trust_private_source st" and "gw_fetch C net target st pr ht g = (res, g')"
  shows "public_step g g'"
proof (cases rule: fetch_cases [of "gc_lib C" "gc_aead C" "gc_key C" st target net "gw_transport g" pr ht])
  case (refused e)
  with assms(2) show ?thesis by (auto simp: gw_fetch_def public_step_def)
next
  case (sent u auth f)
  let ?p = "if clone_needed (gw_transport g) ht then [] else tr_pool (gw_transport g)"
  have "pool_public (tr_pool (gw_transport g)) \<Longrightarrow> pool_public ?p" by simp
  from client_do_public [OF this, of net pr 0 u] sent assms show ?thesis
    by (auto simp: gw_fetch_def public_step_def)
qed

lemma source_private_same: "source_private E st u g = (b, g') \<Longrightarrow> fetches_same g g'"
  by (auto simp: source_private_def fetches_same_def split: prod.splits)

lemma fetches_same_trans: "fetches_same a b \<Longrightarrow> fetches_same b c \<Longrightarrow> fetches_same a c"
  by (simp add: fetches_same_def)

lemmas public_same = temporary_same [THEN public_step_same] sniff_same [THEN public_step_same]
  source_private_same [THEN public_step_same] write_remux_same [THEN public_step_same]

lemma serve_entry_public:
  assumes "\<not> s_trust_private_source (a_stream ap)" and "serve_entry C E q ap entry prefix g = (r, g')"
  shows "public_step g g'"
proof -
  let ?st = "a_stream ap" and ?now = "ck_now (ge_clock E)"
  obtain ref m1 where r: "(if \<not> s_allow_remux ?st then existing (gw_remux g) ?now (s_id ?st) (gw_signature C ?st)
      else (None, gw_remux g)) = (ref, m1)" by fastforce
  obtain ex m2 where e: "existing m1 ?now (s_id ?st) (gw_signature C ?st) = (ex, m2)" by fastforce
  obtain pr g1 where p: "source_private E ?st entry (g\<lparr>gw_remux := m2\<rparr>) = (pr, g1)" by fastforce
  obtain res g2 where f: "gw_fetch C (ge_network E) entry ?st pr entry_header_timeout g1 = (res, g2)" by fastforce
  obtain res' g3 where f': "(case res of Inl e \<Rightarrow> if fetch_failure_kind e = ''timeout''
        then gw_fetch C (ge_retry_network E) entry ?st pr entry_retry_header_timeout g2 else (res, g2)
      | Inr _ \<Rightarrow> (res, g2)) = (res', g3)" by fastforce
  have same: "public_step g (g\<lparr>gw_remux := m\<rparr>)" for m by (intro public_step_same fetches_same_random)
  have "public_step g g1" using public_step_trans [OF same public_same(3) [OF p]] .
  moreover have "public_step g1 g2" by (rule gw_fetch_public [OF assms(1) f])
  moreover have "public_step g2 g3"
    using f' gw_fetch_public [OF assms(1)] public_step_same [OF fetches_same_random(3)]
    by (auto split: sum.splits if_splits)
  ultimately have s3: "public_step g g3" by (blast intro: public_step_trans)
  consider (refused) "ref \<noteq> None" "write_temporary_failure E q (g\<lparr>gw_remux := m1\<rparr>) = (r, g')"
    | (joined) t where "write_remux_playlist C E ap t prefix (g\<lparr>gw_remux := m2\<rparr>) = (r, g')"
    | (failed) "write_temporary_failure E q g3 = (r, g')"
    | (sniffed) resp final where "sniff_and_serve C E q resp final prefix ap True g3 = (r, g')"
    using assms(2) r e p f f' unfolding serve_entry_def Let_def
    by (auto split: if_splits option.splits sum.splits)
  then show ?thesis
  proof cases
    case refused
    from public_step_trans [OF same public_same(1) [OF refused(2)]] show ?thesis .
  next
    case (joined t)
    from public_step_trans [OF same public_same(4) [OF joined]] show ?thesis .
  next
    case failed
    from public_step_trans [OF s3 public_same(1) [OF failed]] show ?thesis .
  next
    case (sniffed resp final)
    from public_step_trans [OF s3 public_same(2) [OF sniffed]] show ?thesis .
  qed
qed

lemma serve_resource_public:
  assumes "\<not> s_trust_private_source (a_stream ap)" and "serve_resource C E q ap entry target prefix g = (r, g')"
  shows "public_step g g'"
proof -
  obtain pr g1 where p: "source_private E (a_stream ap) entry g = (pr, g1)" by fastforce
  obtain res g2 where f: "gw_fetch C (ge_network E) target (a_stream ap) pr 0 g1 = (res, g2)" by fastforce
  have "public_step g g2" by (rule public_step_trans [OF public_same(3) [OF p] gw_fetch_public [OF assms(1) f]])
  moreover have "g' = g2 \<or> (\<exists>resp final. sniff_and_serve C E q resp final prefix ap False g2 = (r, g'))"
    using assms(2) p f by (auto simp: serve_resource_def split: sum.splits if_splits)
  ultimately show ?thesis by (blast intro: public_step_trans public_same)
qed

lemma serve_admitted_public:
  assumes "\<not> s_trust_private_source (a_stream ap)" and "s_node (a_stream ap) = None"
    and "serve_admitted C E q ap prefix remainder g = (r, g')"
  shows "public_step g g'"
proof (cases "source_entry_url (gc_lib C) (gc_aead C) (gc_key C) (a_stream ap)")
  case (Inl e)
  with assms(3) public_step_same [OF fetches_same_random(3)] show ?thesis by (simp add: serve_admitted_def)
next
  case (Inr entry)
  have n: "serve_from_node C E q ap prefix g = (None, g)" "\<not> is_node_target (gc_lib C) ap target" for target
    using assms(2) by (simp_all add: serve_from_node_def is_node_target_def)
  have "serve_entry C E q ap entry prefix g = (r, g') \<or> fetches_same g g' \<or>
      (\<exists>target pr g1. source_private E (a_stream ap) entry g = (pr, g1) \<and>
         (g' = g1 \<or> serve_resource C E q ap entry target prefix g1 = (r, g')))"
    using assms(3) Inr n
    by (auto simp: serve_admitted_def serve_remux_resource_def Let_def fetches_same_random split: if_splits sum.splits option.splits
        prod.splits dest: temporary_same)
  then show ?thesis
    using serve_entry_public [OF assms(1)] serve_resource_public [OF assms(1)]
    by (blast intro: public_step_trans public_step_same public_same)
qed

section \<open>References\<close>

text \<open>What the administration accepts as a public path: no segment is the reserved \<open>r\<close>.\<close>

definition good_prefix :: "string \<Rightarrow> bool" where
  "good_prefix prefix \<longleftrightarrow> list_all (\<lambda>seg. seg \<noteq> ''r'') (split_on CHR ''/'' prefix)"

lemma split_on_hd_r: "has_prefix (p @ ''/r/'' @ rest) ''r/'' \<Longrightarrow> hd (split_on CHR ''/'' p) = ''r''"
proof -
  assume h: "has_prefix (p @ ''/r/'' @ rest) ''r/''"
  then obtain t where p: "p = CHR ''r'' # t" by (cases p) (auto simp: has_prefix_def)
  with h have "t = [] \<or> (\<exists>u. t = CHR ''/'' # u)" by (cases t) (auto simp: has_prefix_def)
  with p show ?thesis by auto
qed

lemma str_index_prefix:
  "list_all (\<lambda>seg. seg \<noteq> ''r'') (tl (split_on CHR ''/'' prefix)) \<Longrightarrow>
     str_index (prefix @ ''/r/'' @ rest) ''/r/'' = Some (length prefix)"
proof (induction prefix)
  case Nil
  have "has_prefix (''/r/'' @ rest) ''/r/''" by (rule has_prefix_append)
  then show ?case by simp
next
  case (Cons c p)
  obtain w ws where sp: "split_on CHR ''/'' p = w # ws" by (cases "split_on CHR ''/'' p") auto
  have n: "\<not> has_prefix (c # p @ ''/r/'' @ rest) ''/r/''"
  proof
    assume h: "has_prefix (c # p @ ''/r/'' @ rest) ''/r/''"
    then have c: "c = CHR ''/''" "has_prefix (p @ ''/r/'' @ rest) ''r/''" by simp_all
    from split_on_hd_r [OF c(2)] Cons.prems c(1) sp show False by simp
  qed
  have "list_all (\<lambda>seg. seg \<noteq> ''r'') (tl (split_on CHR ''/'' p))"
    using Cons.prems sp by (cases "c = CHR ''/''") auto
  from Cons.IH [OF this] n show ?case by (simp del: append.simps(2) add: append.simps(2) [of c])
qed

lemma good_prefix_index:
  "good_prefix prefix \<Longrightarrow> str_index (prefix @ ''/r/'' @ rest) ''/r/'' = Some (length prefix)"
proof (rule str_index_prefix)
  assume "good_prefix prefix"
  then show "list_all (\<lambda>seg. seg \<noteq> ''r'') (tl (split_on CHR ''/'' prefix))"
    unfolding good_prefix_def by (cases "split_on CHR ''/'' prefix") simp_all
qed

lemma ref_ext_dot: "ref_ext u = [] \<or> (\<exists>e. ref_ext u = CHR ''.'' # e \<and> CHR ''.'' \<notin> set e)"
proof -
  have "path_ext p = [] \<or> (\<exists>e. path_ext p = CHR ''.'' # e \<and> CHR ''.'' \<notin> set e)" for p
  proof (cases "last_index_byte p CHR ''.''")
    case (Some i)
    then obtain a b where "p = a @ CHR ''.'' # b" "length a = i" "CHR ''.'' \<notin> set b"
      by (auto dest: last_index_byte_Some)
    then have "drop i p = CHR ''.'' # b" by auto
    with Some \<open>CHR ''.'' \<notin> set b\<close> show ?thesis by (simp add: path_ext_def)
  next
    case None
    then show ?thesis unfolding path_ext_def by (simp only: option.case simp_thms)
  qed
  then show ?thesis by (auto simp: ref_ext_def Let_def)
qed

lemma blob_of_ref:
  assumes "CHR ''.'' \<notin> set blob"
  shows "blob_of (''r/'' @ blob @ ref_ext u) = blob"
proof -
  have t: "trim_prefix (''r/'' @ blob @ ref_ext u) ''r/'' = blob @ ref_ext u" by (rule trim_prefix_append)
  show ?thesis
  proof (cases "ref_ext u = []")
    case True
    then have b: "blob @ ref_ext u = blob" by simp
    have n: "last_index_byte blob CHR ''.'' = None" using assms by simp
    show ?thesis unfolding blob_of_def Let_def t unfolding b n by (simp only: option.case)
  next
    case False
    with ref_ext_dot [of u] obtain e where e: "ref_ext u = CHR ''.'' # e" "CHR ''.'' \<notin> set e" by auto
    from last_index_byte_append [OF e(2), of blob] t e show ?thesis by (simp add: blob_of_def del: append_Cons append_Nil)
  qed
qed

lemma encode_ref_Some:
  assumes "encode_ref C prefix i target rnd = Some (out, rnd')"
  obtains nonce blob where "rnd = Some nonce # rnd'"
    "bc_encode (gc_codec C) (Some nonce) (ul_string (gc_lib C) target) (format_int i) = Inr blob"
    "out = CHR ''/'' # prefix @ ''/r/'' @ blob @ ref_ext target"
proof -
  obtain n where n: "rnd = n # rnd'" using assms by (auto simp: encode_ref_def split: list.splits sum.splits)
  with assms obtain blob where b: "bc_encode (gc_codec C) n (ul_string (gc_lib C) target) (format_int i) = Inr blob"
    and o: "out = CHR ''/'' # prefix @ ''/r/'' @ blob @ ref_ext target"
    by (auto simp: encode_ref_def split: sum.splits)
  from b obtain nonce where "n = Some nonce" by (auto simp: bc_encode_def split: option.splits)
  with n b o that show thesis by blast
qed

lemma encode_ref_routes:
  assumes "good_prefix prefix" and "encode_ref C prefix i target (Some nonce # rnd) = Some (out, rnd')"
  shows "\<exists>remainder. split_request (trim_prefix out ''/'') = (prefix, remainder) \<and> remainder \<noteq> [] \<and>
    bc_encode (gc_codec C) (Some nonce) (ul_string (gc_lib C) target) (format_int i) = Inr (blob_of remainder)"
proof -
  from assms(2) obtain blob where
    b: "bc_encode (gc_codec C) (Some nonce) (ul_string (gc_lib C) target) (format_int i) = Inr blob" and
    o: "out = CHR ''/'' # prefix @ ''/r/'' @ blob @ ref_ext target"
    by (auto elim: encode_ref_Some)
  have dot: "CHR ''.'' \<notin> set blob" using bc_encode_safe [OF b, of "CHR ''.''"] by blast
  have "trim_prefix out ''/'' = prefix @ ''/r/'' @ blob @ ref_ext target" by (simp add: o trim_prefix_def)
  moreover have "drop (Suc (length prefix)) (prefix @ ''/r/'' @ blob @ ref_ext target) = ''r/'' @ blob @ ref_ext target" by simp
  ultimately have "split_request (trim_prefix out ''/'') = (prefix, ''r/'' @ blob @ ref_ext target)"
    using good_prefix_index [OF assms(1), of "blob @ ref_ext target"] by (simp add: split_request_def)
  with b blob_of_ref [OF dot, of target] show ?thesis by simp
qed

lemma encode_ref_opens:
  assumes "aead_ok (codec_aead (gc_codec C))" and "length (codec_key (gc_codec C)) = key_size"
    and "length nonce = nonce_size" and "good_prefix prefix"
    and "encode_ref C prefix i target (Some nonce # rnd) = Some (out, rnd')"
  shows "\<exists>remainder. split_request (trim_prefix out ''/'') = (prefix, remainder) \<and> remainder \<noteq> [] \<and>
     bc_decode (gc_codec C) (blob_of remainder) (format_int i) = Inr (ul_string (gc_lib C) target)"
proof -
  obtain remainder where r: "split_request (trim_prefix out ''/'') = (prefix, remainder)" "remainder \<noteq> []"
    "bc_encode (gc_codec C) (Some nonce) (ul_string (gc_lib C) target) (format_int i) = Inr (blob_of remainder)"
    using encode_ref_routes [OF assms(4,5)] by blast
  from blobcodec.unseal_seal [of "gc_codec C" nonce, OF _ r(3)] r assms(1-3) show ?thesis
    by (auto simp: bc_ready_def)
qed

text \<open>The references the encoder makes stay on their line and inside their quotes, and are nothing but a path, when
  the prefix and the copied extension are.\<close>

lemma blob_plain:
  assumes "bc_encode c rnd p a = Inr blob"
  shows "CHR ''%'' \<notin> set blob" and "CHR ''?'' \<notin> set blob" and "CHR ''#'' \<notin> set blob"
  using bc_encode_chars [OF assms] by (auto simp: url_alphabet_def)

definition plain_ref_chars :: "string \<Rightarrow> bool" where
  "plain_ref_chars s \<longleftrightarrow> set s \<inter> {quote, newline, carriage_return, CHR ''%'', CHR ''?'', CHR ''#''} = {}"

definition ref_admissible :: "gw_config \<times> string \<times> int \<Rightarrow> url \<Rightarrow> bool" where
  "ref_admissible c u \<longleftrightarrow> plain_ref_chars (fst (snd c)) \<and> plain_ref_chars (ref_ext u)"

interpretation refs: encode_func "\<lambda>(C, prefix, i). encode_ref C prefix i" ref_admissible
proof
  fix c u rnd r rnd'
  assume a: "ref_admissible c u" and e: "(case c of (C, prefix, i) \<Rightarrow> encode_ref C prefix i) u rnd = Some (r, rnd')"
  obtain C prefix i where c: "c = (C, prefix, i)" by (cases c)
  with e obtain nonce blob where
    b: "bc_encode (gc_codec C) (Some nonce) (ul_string (gc_lib C) u) (format_int i) = Inr blob" and
    o: "r = CHR ''/'' # prefix @ ''/r/'' @ blob @ ref_ext u" by (auto elim: encode_ref_Some)
  have "plain_ref_chars blob" using bc_encode_safe [OF b] blob_plain [OF b] by (auto simp: plain_ref_chars_def)
  with a c o show "safe_ref r" by (auto simp: safe_ref_def ref_admissible_def plain_ref_chars_def)
qed

text \<open>The prefixes the administration accepts (\<open>sv_validate_public_path\<close>; the token is a segment of
  hexadecimal digits).\<close>

definition path_char :: "char \<Rightarrow> bool" where
  "path_char c \<longleftrightarrow> is_digit c \<or> of_char c \<in> {97..122 :: nat} \<or> of_char c \<in> {65..90 :: nat} \<or> c = CHR ''_'' \<or> c = CHR ''-''"

definition accepted_prefix :: "string \<Rightarrow> bool" where
  "accepted_prefix prefix \<longleftrightarrow> list_all (\<lambda>seg. seg \<noteq> [] \<and> seg \<noteq> ''r'' \<and> list_all path_char seg) (split_on CHR ''/'' prefix)"

text \<open>
  The path a server hands to its handler (\<open>net/url\<close>, \<open>net/http\<close>) when a player requests a reference: it
  ends at a question mark or a hash, a player removes dot segments and reads two slashes as a host, and
  the server undoes percent-encoding. \<open>None\<close> when the reference does not lead back as it is.
\<close>

definition hex_value :: "char \<Rightarrow> nat option" where
  "hex_value c =
     (let n = of_char c
      in if n \<in> {48..57 :: nat} then Some (n - 48) else if n \<in> {97..102} then Some (n - 87)
         else if n \<in> {65..70} then Some (n - 55) else None)"

fun percent_decode :: "string \<Rightarrow> string option" where
  "percent_decode [] = Some []"
| "percent_decode (c # s) =
     (if c \<noteq> CHR ''%'' then map_option ((#) c) (percent_decode s)
      else (case s of
              a # b # t \<Rightarrow>
                (case (hex_value a, hex_value b) of
                   (Some x, Some y) \<Rightarrow> map_option ((#) (char_of (16 * x + y))) (percent_decode t)
                 | _ \<Rightarrow> None)
            | _ \<Rightarrow> None))"

definition request_path :: "string \<Rightarrow> string option" where
  "request_path ref =
     (let path = takeWhile (\<lambda>c. c \<noteq> CHR ''?'' \<and> c \<noteq> CHR ''#'') ref
      in if \<not> has_prefix path ''/'' \<or> has_prefix path ''//'' \<or> list_ex (\<lambda>seg. seg = ''.'' \<or> seg = ''..'') (split_on CHR ''/'' path)
         then None
         else percent_decode path)"

lemma percent_decode_plain: "CHR ''%'' \<notin> set s \<Longrightarrow> percent_decode s = Some s"
  by (induction s) auto

lemma split_on_twice: "split_on c (a @ c # b) = split_on c a @ split_on c b"
proof (induction a)
  case (Cons x a)
  obtain w ws where "split_on c a = w # ws" by (meson list.exhaust split_on_nonempty)
  with Cons show ?case by simp
qed simp

lemma accepted_prefixD:
  assumes "accepted_prefix prefix"
  shows "good_prefix prefix" and "prefix \<noteq> []" and "hd prefix \<noteq> CHR ''/''"
    and "''.'' \<notin> set (split_on CHR ''/'' prefix)" and "''..'' \<notin> set (split_on CHR ''/'' prefix)"
proof -
  show "good_prefix prefix" using assms by (auto simp: accepted_prefix_def good_prefix_def list_all_iff)
  show "prefix \<noteq> []" using assms by (auto simp: accepted_prefix_def)
  show "hd prefix \<noteq> CHR ''/''" using assms by (cases prefix) (auto simp: accepted_prefix_def)
  have "\<not> path_char CHR ''.''" by code_simp
  with assms show "''.'' \<notin> set (split_on CHR ''/'' prefix)" and "''..'' \<notin> set (split_on CHR ''/'' prefix)"
    by (auto simp: accepted_prefix_def list_all_iff)
qed

lemma set_join_with: "set (join_with c ws) \<subseteq> insert c (\<Union> (set ` set ws))"
  by (induction c ws rule: join_with.induct) auto

lemma accepted_plain:
  assumes "accepted_prefix prefix"
  shows "plain_ref_chars prefix"
proof -
  have path: "c = CHR ''/'' \<or> path_char c" if "c \<in> set prefix" for c
  proof -
    from that have "c \<in> set (join_with CHR ''/'' (split_on CHR ''/'' prefix))" by simp
    then have "c = CHR ''/'' \<or> (\<exists>seg \<in> set (split_on CHR ''/'' prefix). c \<in> set seg)" using set_join_with by blast
    with assms show ?thesis by (auto simp: accepted_prefix_def list_all_iff)
  qed
  have "list_all (\<lambda>c. c \<noteq> CHR ''/'' \<and> \<not> path_char c) [quote, newline, carriage_return, CHR ''%'', CHR ''?'', CHR ''#'']"
    by code_simp
  with path show ?thesis by (auto simp: plain_ref_chars_def)
qed

lemma encode_ref_path:
  assumes "accepted_prefix prefix" and "ref_admissible (C, prefix, i) target" and "length nonce = nonce_size"
    and "encode_ref C prefix i target (Some nonce # rnd) = Some (out, rnd')"
  shows "request_path out = Some out"
proof -
  note p = accepted_prefixD [OF assms(1)]
  from assms(4) obtain blob where
    b: "bc_encode (gc_codec C) (Some nonce) (ul_string (gc_lib C) target) (format_int i) = Inr blob" and
    o: "out = CHR ''/'' # prefix @ ''/r/'' @ blob @ ref_ext target" by (auto elim: encode_ref_Some)
  have plain: "plain_ref_chars prefix" "plain_ref_chars (ref_ext target)" "CHR ''%'' \<notin> set blob" "CHR ''?'' \<notin> set blob" "CHR ''#'' \<notin> set blob"
    using assms(2) blob_plain [OF b] by (auto simp: ref_admissible_def)
  then have c: "CHR ''%'' \<notin> set out" "CHR ''?'' \<notin> set out" "CHR ''#'' \<notin> set out" by (auto simp: o plain_ref_chars_def)
  then have tw: "takeWhile (\<lambda>c. c \<noteq> CHR ''?'' \<and> c \<noteq> CHR ''#'') out = out" by (auto simp: takeWhile_eq_all_conv)
  have slash: "CHR ''/'' \<notin> set (blob @ ref_ext target)"
    using bc_encode_safe [OF b, of "CHR ''/''"] path_ext_no_slash [of "u_path target"] by (auto simp: ref_ext_def Let_def)
  have "split_on CHR ''/'' out = [] # split_on CHR ''/'' prefix @ [''r'', blob @ ref_ext target]"
    using split_on_twice [of "CHR ''/''" prefix "''r/'' @ blob @ ref_ext target"] split_on_single [OF slash] by (simp add: o)
  moreover have "blob @ ref_ext target \<noteq> ''.'' \<and> blob @ ref_ext target \<noteq> ''..''"
  proof -
    have "blob \<noteq> []"
    proof
      assume "blob = []"
      with b rawurl64.dec_enc have "rawurl_decode [] = Some (nonce @ aead_seal (codec_aead (gc_codec C)) (codec_key (gc_codec C)) nonce
          (ul_string (gc_lib C) target) (format_int i))" by (simp add: bc_encode_def) metis
      moreover have "rawurl_decode [] = Some []" using rawurl64.dec_enc [of "[]"] by code_simp
      ultimately show False using assms(3) by auto
    qed
    then obtain x xs where "blob = x # xs" by (cases blob) auto
    with bc_encode_safe [OF b, of x] show ?thesis by auto
  qed
  moreover have "has_prefix out ''/''" "\<not> has_prefix out ''//''" using p(2,3) by (cases prefix; auto simp: o has_prefix_def)+
  ultimately show ?thesis
    using p(4,5) percent_decode_plain [OF c(1)] by (auto simp: request_path_def tw list_ex_iff)
qed

section \<open>The finite slate\<close>

lemma finite_line_segment: "snd (finite_line prefix l) = 1 \<Longrightarrow> str_contains (fst (finite_line prefix l)) (prefix @ ''seg'')"
proof -
  assume h: "snd (finite_line prefix l) = 1"
  then have "slate_segment_name (trim_space l)" and f: "fst (finite_line prefix l) = prefix @ trim_space l @ [newline]"
    by (auto simp: finite_line_def slate_valid_name_def Let_def split: if_splits)
  then obtain t where "trim_space l = ''seg'' @ t" by (auto simp: slate_segment_name_def has_prefix_iff simp del: append_Cons append_Nil)
  with f show ?thesis unfolding str_contains_iff by (metis append.assoc append_Nil)
qed

lemma str_contains_app: "str_contains s p \<Longrightarrow> str_contains (s @ t) p" "str_contains s p \<Longrightarrow> str_contains (t @ s) p"
proof -
  assume "str_contains s p"
  then obtain a b where s: "s = a @ p @ b" by (auto simp: str_contains_iff)
  have "s @ t = a @ p @ (b @ t)" "t @ s = (t @ a) @ p @ b" by (simp_all add: s)
  then show "str_contains (s @ t) p" and "str_contains (t @ s) p" unfolding str_contains_iff by blast+
qed

lemma finite_playlist_segment:
  assumes "0 < snd (finite_playlist prefix data)"
  shows "str_contains (fst (finite_playlist prefix data)) (prefix @ ''seg'')"
proof -
  have b: "snd (finite_line prefix l) \<in> {0, 1}" for l by (simp add: finite_line_def Let_def)
  have "str_contains (concat (map (\<lambda>x. fst (finite_line prefix x)) xs)) (prefix @ ''seg'')"
    if "0 < sum_list (map (\<lambda>x. snd (finite_line prefix x)) xs)" for xs
    using that
  proof (induction xs)
    case (Cons x xs)
    show ?case
    proof (cases "snd (finite_line prefix x) = 1")
      case True
      from str_contains_app(1) [OF finite_line_segment [OF this]] show ?thesis by simp
    next
      case False
      with b [of x] Cons.prems have "0 < sum_list (map (\<lambda>x. snd (finite_line prefix x)) xs)" by simp
      from str_contains_app(2) [OF Cons.IH [OF this]] show ?thesis by simp
    qed
  qed simp
  from str_contains_app(1) [OF this] assms show ?thesis by (simp add: finite_playlist_def Let_def comp_def)
qed

definition temporary_prefix :: string where
  "temporary_prefix = ''/_sv/slate/'' @ temporary @ ''/'' @ temporary_reason @ ''/''"

lemma temporary_parts: "slate_route_parts temporary = (temporary, temporary_reason)"
  by code_simp

lemma finite_temporary_playlist:
  "finite_temporary_slate E late p = (Inr body, p') \<Longrightarrow>
     \<exists>data. body = fst (finite_playlist temporary_prefix data) \<and> 0 < snd (finite_playlist temporary_prefix data)"
proof (induction late arbitrary: p)
  case Nil
  then show ?case
    by (auto simp: finite_temporary_slate.simps [of E "[]" p] temporary_parts read_finite_slate_def temporary_prefix_def
        split: prod.splits sum.splits option.splits if_splits) (metis fst_conv snd_conv neq0_conv)
next
  case (Cons l late)
  show ?case
  proof (cases "\<exists>body' n p1. read_finite_slate E temporary temporary_reason p = (Inr (body', n), p1) \<and> \<not> l \<and> n < finite_slate_min_segments")
    case True
    then obtain body' n p1 where "read_finite_slate E temporary temporary_reason p = (Inr (body', n), p1)" "\<not> l"
      "n < finite_slate_min_segments" by blast
    then have "finite_temporary_slate E (l # late) p = finite_temporary_slate E late p1"
      by (cases l) (simp_all add: finite_temporary_slate.simps [of E "False # late" p] temporary_parts)
    with Cons show ?thesis by simp
  next
    case False
    then have "\<exists>n. read_finite_slate E temporary temporary_reason p = (Inr (body, n), p') \<and> 0 < n"
      using Cons.prems
      by (auto simp: finite_temporary_slate.simps [of E "l # late" p] temporary_parts finite_slate_min_segments_def
          split: prod.splits sum.splits bool.splits if_splits)
    then show ?thesis
      by (auto simp: read_finite_slate_def temporary_prefix_def split: prod.splits sum.splits option.splits)
        (metis fst_conv snd_conv)
  qed
qed

section \<open>Properties\<close>

text \<open>C1: no request makes the gateway send anything to a source or node, touch a remux session or
  answer with media unless its path names an access point that is not revoked, of a stream that is
  not disabled, and, for a private one, carries a token that is valid at that moment.\<close>

theorem media_needs_admission:
  assumes "serve_http C E q g = (r, g')" and "is_media r \<or> \<not> no_contact g g'"
  shows "\<exists>prefix remainder ap token. split_request (trim_prefix (hq_path q) ''/'') = (prefix, remainder) \<and>
     resolve_prefix (ge_up E) (gw_db g) prefix = Inr (ap, token) \<and> admitted C E (gw_db g) ap token"
proof (cases rule: serve_http_cases [OF assms(1)])
  case 1
  with assms(2) show ?thesis by blast
next
  case 2
  show ?thesis
  proof (cases rule: serve_stream_cases [OF 2])
    case 1
    with assms(2) show ?thesis by blast
  next
    case (2 prefix remainder ap token g1)
    then show ?thesis by blast
  qed
qed

definition tv_db :: db where
  "tv_db = empty_db
     \<lparr>db_streams := [\<lparr>st_id = 1, st_name = ''tv'', st_source_type = ''hls'', st_source_url = ''cdn.example'',
        st_source_username = None, st_source_password_enc = None, st_status = ''active'', st_disabled_at = None,
        st_rotation_mode = [], st_replacement_reason = [], st_replacement_message = None, st_owner_id = Some 3,
        st_always_on = 0, st_node_id = None\<rparr>],
      db_operators := [\<lparr>op_id = 3, op_role = ''user'', op_status = ''active'', op_allow_remux = 0,
        op_allow_always_on = 0, op_github_token_enc = None, op_scan_requested_at = None\<rparr>],
      db_aps := [\<lparr>ap_id = 5, ap_stream_id = 1, ap_public_path = ''tv'', ap_visibility = ''private'',
        ap_output_format = ''hls'', ap_status = ''active'', ap_revoked_at = None, ap_path_is_secret = 0\<rparr>],
      db_tokens := [\<lparr>tk_id = 2, tk_ap_id = 5, tk_hash = hex_encode (replicate 32 CHR ''h''), tk_expires_at = None,
        tk_revoked_at = None, tk_revoked_reason = None, tk_last_used_at = None\<rparr>]\<rparr>"

definition tv_clock :: clock where
  "tv_clock = \<lparr>ck_now = 5 * second, ck_stamp = ''now'', ck_parse_rfc3339 = (\<lambda>s. None), ck_parse_stamp = (\<lambda>s. None)\<rparr>"

definition tv_config :: gw_config where
  "tv_config = \<lparr>gc_lib = plain_lib, gc_aead = clear_aead, gc_hashes = toy_hashes, gc_key = None,
     gc_codec = \<lparr>codec_aead = clear_aead, codec_key = replicate 32 CHR ''k''\<rparr>, gc_valid_utf8 = (\<lambda>b. True)\<rparr>"

definition tv_network :: "source_reply network" where
  "tv_network =
     \<lparr>nw_resolve = (\<lambda>n h. Inr False), nw_dial = (\<lambda>n h. Inr (Some [203, 0, 113, 7])),
      nw_answer = (\<lambda>n u. Inr (Reply \<lparr>sr_status = 200, sr_content_type = ''video/mp2t'', sr_body = ''data'', sr_read_failed = False\<rparr>))\<rparr>"

definition tv_env :: "unit gw_env" where
  "tv_env =
     \<lparr>ge_clock = tv_clock, ge_up = (\<lambda>x. True), ge_network = tv_network, ge_retry_network = tv_network,
      ge_node_network = tv_network, ge_relay = idle_env, ge_files = (\<lambda>p. None),
      ge_provider = \<lparr>sp_get_path = (\<lambda>p v k n. (Inl NotExist, p)), sp_prepare = (\<lambda>p v a t c. ([], p))\<rparr>,
      ge_late = [], ge_api = \<lparr>ae_clock = tv_clock, ae_up = (\<lambda>n. True),
        ae_json = \<lparr>sj_decode = (\<lambda>b. None), sj_encode = (\<lambda>s. [])\<rparr>, ae_script = [], ae_binary = False, ae_binary_hash = None\<rparr>\<rparr>"

definition tv_gateway :: "unit gateway" where
  "tv_gateway =
     \<lparr>gw_db = tv_db, gw_transport = new_source_transport, gw_trust = Map.empty, gw_remux = new_manager 2,
      gw_last_touch = Map.empty, gw_slate = (), gw_random = [], gw_sent = []\<rparr>"

definition tv_request :: "string \<Rightarrow> http_request" where
  "tv_request p =
     \<lparr>hq_method = ''GET'', hq_path = p, hq_header = (\<lambda>h. []), hq_host = ''gw.example'', hq_remote = ''192.0.2.1:4'', hq_body = Some []\<rparr>"

lemma tv_route: "split_request (trim_prefix ''/tv/secret'' ''/'') = (''tv/secret'', [])"
  by code_simp

definition tv_ap :: access_point where
  "tv_ap =
     \<lparr>a_id = 5, a_stream_id = 1, a_public_path = ''tv'', a_visibility = ''private'', a_output_format = ''hls'',
      a_status = ''active'', a_revoked_at = None,
      a_stream = \<lparr>s_id = 1, s_name = ''tv'', s_source_type = ''hls'', s_source_url = ''cdn.example'', s_source_username = None,
        s_source_password_enc = None, s_status = ''active'', s_disabled_at = None, s_replacement_reason = [],
        s_replacement_message = None, s_allow_remux = False, s_trust_private_source = False, s_node = None\<rparr>\<rparr>"

lemma tv_resolved: "resolve_prefix (\<lambda>x. True) tv_db ''tv/secret'' = Inr (tv_ap, ''secret'')"
  by (simp add: resolve_prefix_def resolve_access_point_def tv_db_def empty_db_def stream_by_id_def owner_of_def
      operator_by_id_def node_of_def scan_stream_def remux_allowed_def private_trusted_def tv_ap_def)

lemma tv_token: "validate_token toy_hashes tv_clock True tv_db 5 raw =
    Inr \<lparr>ti_id = 2, ti_status = TokenValid, ti_revoked_at = None, ti_expires_at = None\<rparr>"
  by (simp add: validate_token_def tv_db_def empty_db_def toy_hashes_def)

lemma tv_served:
  "fst (serve_http tv_config tv_env (tv_request ''/tv/secret'') tv_gateway) = MediaBody ''video/mp2t'' ''data'' \<and>
   gw_sent (snd (serve_http tv_config tv_env (tv_request ''/tv/secret'') tv_gateway)) =
     [(plain_url ''cdn.example'', Some [203, 0, 113, 7])]"
proof -
  have ad: "admit_token tv_config tv_env tv_db tv_ap ''secret'' =
      Admitted \<lparr>ti_id = 2, ti_status = TokenValid, ti_revoked_at = None, ti_expires_at = None\<rparr>"
    using tv_token by (simp add: admit_token_def tv_ap_def tv_config_def tv_env_def)
  have ph: "\<not> uses_credential_placeholders ''cdn.example''" by code_simp
  have sn: "\<not> looks_like_mpegts ''data''" "\<not> is_playlist ''data''" by code_simp+
  have pr: "\<not> is_private_or_reserved [203, 0, 113, 7]" by code_simp
  let ?g = "touch_token_throttled tv_env 2 tv_gateway"
  have remux: "gw_remux ?g = new_manager 2" "gw_transport ?g = new_source_transport" "gw_sent ?g = []"
    by (simp_all add: tv_gateway_def)
  have ex: "existing (new_manager 2) now i sig = (None, new_manager 2)" for now i sig
    by (simp add: existing_def new_manager_def)
  have fetch: "fetch_with_header_timeout plain_lib clear_aead None tv_network new_source_transport (plain_url ''cdn.example'')
      (a_stream tv_ap) False entry_header_timeout =
      (\<lparr>fo_trace = [(plain_url ''cdn.example'', Some [203, 0, 113, 7])], fo_auth = None,
        fo_result = Inr (plain_url ''cdn.example'', \<lparr>sr_status = 200, sr_content_type = ''video/mp2t'', sr_body = ''data'', sr_read_failed = False\<rparr>)\<rparr>,
       new_source_transport)"
    using ph pr by (simp add: fetch_with_header_timeout_def fetch_request_def plain_lib_def tv_ap_def
        new_source_transport_def tv_network_def client_do.simps transport_connect_def source_dial_def
        remote_private_def plain_url_def entry_header_timeout_def)
  have "serve_admitted tv_config tv_env (tv_request ''/tv/secret'') tv_ap ''tv/secret'' [] ?g =
      (MediaBody ''video/mp2t'' ''data'', ?g\<lparr>gw_remux := new_manager 2, gw_trust := gw_trust ?g,
         gw_transport := new_source_transport, gw_sent := [(plain_url ''cdn.example'', Some [203, 0, 113, 7])]\<rparr>)"
  proof -
    have e: "source_entry_url (gc_lib tv_config) (gc_aead tv_config) (gc_key tv_config) (a_stream tv_ap) = Inr (plain_url ''cdn.example'')"
      using ph by (simp add: source_entry_url_def tv_config_def tv_ap_def plain_lib_def plain_url_def)
    have n: "serve_from_node tv_config tv_env (tv_request ''/tv/secret'') tv_ap ''tv/secret'' ?g = (None, ?g)"
      by (simp add: serve_from_node_def tv_ap_def)
    have sp: "source_private tv_env (a_stream tv_ap) u g = (False, g)" for u and g :: "unit gateway"
      by (simp add: source_private_def is_source_private_def tv_ap_def)
    have f: "gw_fetch tv_config (ge_network tv_env) (plain_url ''cdn.example'') (a_stream tv_ap) False entry_header_timeout
        (?g\<lparr>gw_remux := new_manager 2\<rparr>) =
        (Inr (plain_url ''cdn.example'', \<lparr>sr_status = 200, sr_content_type = ''video/mp2t'', sr_body = ''data'', sr_read_failed = False\<rparr>),
         ?g\<lparr>gw_remux := new_manager 2, gw_transport := new_source_transport, gw_sent := [(plain_url ''cdn.example'', Some [203, 0, 113, 7])]\<rparr>)"
      using fetch remux by (simp add: gw_fetch_def tv_config_def tv_env_def)
    have u: "\<not> uses_credential_placeholders (s_source_url (a_stream tv_ap))" using ph by (simp add: tv_ap_def)
    show ?thesis
      using sn u remux(1)
      by (simp add: serve_admitted_def e n serve_entry_def Let_def ex sp f sniff_and_serve_def sniff_limit_def)
  qed
  moreover have "trim_prefix ''/tv/secret'' ''/'' = ''tv/secret''" by code_simp
  ultimately show ?thesis
    using ad tv_route tv_resolved
    by (simp add: serve_http_def serve_stream_def tv_request_def Let_def tv_env_def tv_gateway_def tv_ap_def)
qed

theorem media_needs_admission_witness:
  "is_media (fst (serve_http tv_config tv_env (tv_request ''/tv/secret'') tv_gateway)) \<and>
   admitted tv_config tv_env tv_db tv_ap ''secret''"
proof -
  let ?x = "serve_http tv_config tv_env (tv_request ''/tv/secret'') tv_gateway"
  have m: "is_media (fst ?x)" using tv_served by simp
  have p: "hq_path (tv_request ''/tv/secret'') = ''/tv/secret''" "ge_up tv_env = (\<lambda>x. True)" "gw_db tv_gateway = tv_db"
    by (simp_all add: tv_request_def tv_env_def tv_gateway_def)
  from media_needs_admission [of tv_config tv_env "tv_request ''/tv/secret''" tv_gateway "fst ?x" "snd ?x"] m
  have "admitted tv_config tv_env tv_db tv_ap ''secret''"
    unfolding p tv_route by (auto simp: tv_resolved)
  with m show ?thesis by blast
qed

text \<open>A source is on a private network: its host resolves to a private address, or did when it was last asked, less
  than the cache's lifetime ago.\<close>

definition on_private_network :: "'r network \<Rightarrow> time \<Rightarrow> trust_cache \<Rightarrow> int \<Rightarrow> url \<Rightarrow> bool" where
  "on_private_network net now cache stream_id entry \<longleftrightarrow>
     nw_resolve net 0 (hostname entry) = Inr True \<or>
     (\<exists>c. cache stream_id = Some c \<and> te_private c \<and> time_sub now (te_checked_at c) < source_trust_cache_ttl)"

lemma source_private_True:
  "source_private E st entry g = (True, g') \<Longrightarrow>
   s_trust_private_source st \<and> on_private_network (ge_network E) (ck_now (ge_clock E)) (gw_trust g) (s_id st) entry"
  by (auto simp: source_private_def is_source_private_def on_private_network_def Let_def
      split: if_splits option.splits sum.splits prod.splits)

text \<open>C3: a resource request is answered with media, or makes the gateway send a request, only if its
  blob opens under the key of the very access point it is for, and then what it names is a remux
  session (of a stream allowed to use them), the stream's own node, or an http(s) URL whose host
  resolves to public addresses only - or any http(s) URL, if the stream is trusted with a private source and
  its own source really is on a private network.\<close>

theorem resource_needs_own_blob:
  assumes "serve_http C E q g = (r, g')" and "is_media r \<or> gw_sent g' \<noteq> gw_sent g"
    and "split_request (trim_prefix (hq_path q) ''/'') = (prefix, remainder)" and "remainder \<noteq> []"
    and "resolve_prefix (ge_up E) (gw_db g) prefix = Inr (ap, token)"
  shows "\<exists>raw target. bc_decode (gc_codec C) (blob_of remainder) (format_int (a_id ap)) = Inr raw \<and>
     url_parse (ul_ops (gc_lib C)) raw = Some target \<and>
     (if u_scheme target = ''sv-remux'' then s_allow_remux (a_stream ap)
      else is_node_target (gc_lib C) ap target \<or>
           (u_scheme target = ''http'' \<or> u_scheme target = ''https'') \<and>
           (nw_resolve (ge_network E) 0 (hostname target) = Inr False \<or>
            s_trust_private_source (a_stream ap) \<and>
            (\<exists>entry. source_entry_url (gc_lib C) (gc_aead C) (gc_key C) (a_stream ap) = Inr entry \<and>
               on_private_network (ge_network E) (ck_now (ge_clock E)) (gw_trust g) (s_id (a_stream ap)) entry)))"
proof (cases rule: serve_http_cases [OF assms(1)])
  case 1
  with assms(2) show ?thesis by (auto simp: no_contact_def)
next
  case 2
  show ?thesis
  proof (cases rule: serve_stream_cases [OF 2])
    case 1
    with assms(2) show ?thesis by (auto simp: no_contact_def)
  next
    case (2 prefix' remainder' ap' token' g1)
    have eq: "prefix' = prefix" "remainder' = remainder" "ap' = ap"
      using 2 assms(3,5) by auto
    have a: "serve_admitted C E q ap prefix remainder g1 = (r, g')" and s: "gw_sent g1 = gw_sent g" "gw_trust g1 = gw_trust g"
      using 2 eq by (simp_all add: no_contact_def)
    from a s assms(2,4) obtain entry where entry: "source_entry_url (gc_lib C) (gc_aead C) (gc_key C) (a_stream ap) = Inr entry"
      by (auto simp: serve_admitted_def split: sum.splits)
    from a s assms(2,4) entry obtain raw target where
      t: "bc_decode (gc_codec C) (blob_of remainder) (format_int (a_id ap)) = Inr raw"
        "url_parse (ul_ops (gc_lib C)) raw = Some target"
      by (auto simp: serve_admitted_def split: sum.splits option.splits)
    show ?thesis
    proof (cases "u_scheme target = ''sv-remux'' \<or> is_node_target (gc_lib C) ap target")
      case True
      have "s_allow_remux (a_stream ap)" if "u_scheme target = ''sv-remux''"
      proof (rule ccontr)
        assume "\<not> s_allow_remux (a_stream ap)"
        with a assms(4) entry t that have "write_temporary_failure E q g1 = (r, g')" by (simp add: serve_admitted_def)
        from temporary_inert [OF this] assms(2) s show False by (simp add: no_contact_def)
      qed
      with True t show ?thesis by auto
    next
      case False
      obtain pr g2 where p: "source_private E (a_stream ap) entry g1 = (pr, g2)" by fastforce
      have g2: "gw_sent g2 = gw_sent g" using source_private_same [OF p] s by (simp add: fetches_same_def)
      have pt: "s_trust_private_source (a_stream ap) \<and>
          on_private_network (ge_network E) (ck_now (ge_clock E)) (gw_trust g) (s_id (a_stream ap)) entry" if pr
        using source_private_True [of E "a_stream ap" entry g1 g2] p that s(2) by simp
      have "check_fetch_target (nw_resolve (ge_network E) 0) target pr = Inr ()"
        using a assms(2,4) entry t False p g2 by (auto simp: serve_admitted_def split: sum.splits)
      with t False pt entry show ?thesis by (auto simp: check_fetch_target_ok)
    qed
  qed
qed

text \<open>C2: as long as no idle connection of the shared transport leads to a private address (see
  \<open>idle_private_connection_reused\<close> in SourceFetch for what happens otherwise), a request for a stream that is not
  trusted to be on a private network and has no relay node makes the gateway talk to public addresses only, and
  leaves the transport without such a connection.\<close>

theorem untrusted_stream_public:
  assumes "serve_http C E q g = (r, g')" and "pool_public (tr_pool (gw_transport g))"
    and "split_request (trim_prefix (hq_path q) ''/'') = (prefix, remainder)"
    and "resolve_prefix (ge_up E) (gw_db g) prefix = Inr (ap, token)"
    and "\<not> s_trust_private_source (a_stream ap)" and "s_node (a_stream ap) = None"
  shows "pool_public (tr_pool (gw_transport g')) \<and>
    (\<exists>sent. gw_sent g' = gw_sent g @ sent \<and> (\<forall>(u, a) \<in> set sent. \<not> remote_private a))"
proof (cases rule: serve_http_cases [OF assms(1)])
  case 1
  with assms(2) show ?thesis by (auto simp: no_contact_def)
next
  case 2
  show ?thesis
  proof (cases rule: serve_stream_cases [OF 2])
    case 1
    with assms(2) show ?thesis by (auto simp: no_contact_def)
  next
    case (2 prefix' remainder' ap' token' g1)
    then have "serve_admitted C E q ap prefix remainder g1 = (r, g')" using assms(3,4) by auto
    from serve_admitted_public [OF assms(5,6) this] 2 assms(2) show ?thesis
      by (auto simp: public_step_def no_contact_def)
  qed
qed

theorem untrusted_stream_public_witness:
  "gw_sent (snd (serve_http tv_config tv_env (tv_request ''/tv/secret'') tv_gateway)) =
     [(plain_url ''cdn.example'', Some [203, 0, 113, 7])] \<and> \<not> remote_private (Some [203, 0, 113, 7])"
proof -
  let ?x = "serve_http tv_config tv_env (tv_request ''/tv/secret'') tv_gateway"
  have p: "hq_path (tv_request ''/tv/secret'') = ''/tv/secret''" "ge_up tv_env = (\<lambda>x. True)" "gw_db tv_gateway = tv_db"
    "pool_public (tr_pool (gw_transport tv_gateway))" "gw_sent tv_gateway = []"
    by (simp_all add: tv_request_def tv_env_def tv_gateway_def new_source_transport_def)
  have h: "serve_http tv_config tv_env (tv_request ''/tv/secret'') tv_gateway = (fst ?x, snd ?x)"
    "split_request (trim_prefix (hq_path (tv_request ''/tv/secret'')) ''/'') = (''tv/secret'', [])"
    "resolve_prefix (ge_up tv_env) (gw_db tv_gateway) ''tv/secret'' = Inr (tv_ap, ''secret'')"
    "\<not> s_trust_private_source (a_stream tv_ap)" "s_node (a_stream tv_ap) = None"
    using p(1-3) tv_route tv_resolved by (simp_all add: tv_ap_def)
  from untrusted_stream_public [OF h(1) p(4) h(2-5)] p(5) tv_served show ?thesis by auto
qed

text \<open>The resource a blob names is fetched and served.\<close>

definition tv_nonce :: bytes where "tv_nonce = replicate 12 CHR ''n''"

lemma tv_codec: "aead_ok (codec_aead (gc_codec tv_config))" "length (codec_key (gc_codec tv_config)) = key_size"
  "length tv_nonce = nonce_size"
  by (simp_all add: tv_config_def clear_aead_ok key_size_def tv_nonce_def)

lemma tv_prefix: "good_prefix ''tv/secret''"
  by code_simp

lemma tv_encoded:
  obtains out remainder where "encode_ref tv_config ''tv/secret'' 5 (plain_url ''cdn.example'') [Some tv_nonce] = Some (out, [])"
    "split_request (trim_prefix out ''/'') = (''tv/secret'', remainder)" "remainder \<noteq> []"
    "bc_decode (gc_codec tv_config) (blob_of remainder) (format_int 5) = Inr ''cdn.example''"
    "\<not> has_prefix out ''/_sv/node/''" "trim_prefix out ''/'' \<noteq> ''_sv/notice.png''" "trim_prefix out ''/'' \<noteq> ''_sv''"
    "\<not> has_prefix (trim_prefix out ''/'') ''_sv/''"
proof -
  obtain out where o: "encode_ref tv_config ''tv/secret'' 5 (plain_url ''cdn.example'') [Some tv_nonce] = Some (out, [])"
    by (simp add: encode_ref_def bc_encode_def)
  from encode_ref_opens [OF tv_codec tv_prefix o] obtain remainder where
    r: "split_request (trim_prefix out ''/'') = (''tv/secret'', remainder)" "remainder \<noteq> []"
      "bc_decode (gc_codec tv_config) (blob_of remainder) (format_int 5) = Inr ''cdn.example''"
    by (auto simp: tv_config_def plain_lib_def plain_url_def)
  from o obtain rest where "out = ''/tv/secret'' @ rest" by (auto elim!: encode_ref_Some)
  then have "trim_prefix out ''/'' = ''tv/secret'' @ rest" "\<not> has_prefix out ''/_sv/node/''"
    by (simp_all add: trim_prefix_def)
  with that [OF o r] show thesis by simp
qed

lemma tv_resource_served:
  assumes "split_request (trim_prefix out ''/'') = (''tv/secret'', remainder)" and "remainder \<noteq> []"
    and "bc_decode (gc_codec tv_config) (blob_of remainder) (format_int 5) = Inr ''cdn.example''"
    and "\<not> has_prefix out ''/_sv/node/''" "trim_prefix out ''/'' \<noteq> ''_sv/notice.png''" "trim_prefix out ''/'' \<noteq> ''_sv''"
    "\<not> has_prefix (trim_prefix out ''/'') ''_sv/''"
  shows "fst (serve_http tv_config tv_env (tv_request out) tv_gateway) = MediaBody ''video/mp2t'' ''data''"
proof -
  have ad: "admit_token tv_config tv_env tv_db tv_ap ''secret'' =
      Admitted \<lparr>ti_id = 2, ti_status = TokenValid, ti_revoked_at = None, ti_expires_at = None\<rparr>"
    using tv_token by (simp add: admit_token_def tv_ap_def tv_config_def tv_env_def)
  have ph: "\<not> uses_credential_placeholders ''cdn.example''" by code_simp
  have sn: "\<not> is_playlist ''data''" by code_simp
  have pr: "\<not> is_private_or_reserved [203, 0, 113, 7]" by code_simp
  let ?g = "touch_token_throttled tv_env 2 tv_gateway" and ?u = "plain_url ''cdn.example''"
  let ?r = "\<lparr>sr_status = 200, sr_content_type = ''video/mp2t'', sr_body = ''data'', sr_read_failed = False\<rparr>"
  have sp: "source_private tv_env (a_stream tv_ap) u g = (False, g)" for u and g :: "unit gateway"
    by (simp add: source_private_def is_source_private_def tv_ap_def)
  have "fst (gw_fetch tv_config (ge_network tv_env) ?u (a_stream tv_ap) False 0 ?g) = Inr (?u, ?r)"
    using ph pr by (simp add: gw_fetch_def tv_config_def tv_env_def tv_gateway_def fetch_with_header_timeout_def fetch_request_def
        plain_lib_def tv_ap_def new_source_transport_def tv_network_def client_do.simps transport_connect_def source_dial_def
        remote_private_def plain_url_def)
  then obtain g2 where f: "gw_fetch tv_config (ge_network tv_env) ?u (a_stream tv_ap) False 0 ?g = (Inr (?u, ?r), g2)"
    by (metis prod.collapse)
  have e: "source_entry_url (gc_lib tv_config) (gc_aead tv_config) (gc_key tv_config) (a_stream tv_ap) = Inr ?u"
    using ph by (simp add: source_entry_url_def tv_config_def tv_ap_def plain_lib_def plain_url_def)
  have u: "\<not> uses_credential_placeholders (s_source_url (a_stream tv_ap))" using ph by (simp add: tv_ap_def)
  have ck: "check_fetch_target (nw_resolve (ge_network tv_env) 0) ?u False = Inr ()"
    by (simp add: check_fetch_target_ok tv_env_def tv_network_def plain_url_def)
  have nt: "\<not> is_node_target (gc_lib tv_config) tv_ap ?u" by (simp add: is_node_target_def tv_ap_def)
  have pu: "url_parse (ul_ops (gc_lib tv_config)) ''cdn.example'' = Some ?u" "u_scheme ?u \<noteq> ''sv-remux''" "a_id tv_ap = 5"
    by (simp_all add: tv_config_def plain_lib_def plain_url_def tv_ap_def)
  have "serve_resource tv_config tv_env (tv_request out) tv_ap ?u ?u ''tv/secret'' ?g = (MediaBody ''video/mp2t'' ''data'', g2)"
    by (simp add: serve_resource_def sp f sniff_and_serve_def sniff_limit_def sn u Let_def)
  then have "serve_admitted tv_config tv_env (tv_request out) tv_ap ''tv/secret'' remainder ?g = (MediaBody ''video/mp2t'' ''data'', g2)"
    using assms(2,3) by (simp add: serve_admitted_def e pu nt sp ck)
  then show ?thesis
    using ad assms tv_resolved
    by (simp add: serve_http_def serve_stream_def tv_request_def Let_def tv_env_def tv_gateway_def tv_ap_def)
qed

theorem resource_needs_own_blob_witness:
  "\<exists>out. is_media (fst (serve_http tv_config tv_env (tv_request out) tv_gateway)) \<and>
     (\<exists>remainder. split_request (trim_prefix out ''/'') = (''tv/secret'', remainder) \<and>
        (\<exists>raw. bc_decode (gc_codec tv_config) (blob_of remainder) (format_int 5) = Inr raw))"
proof -
  obtain out remainder where o: "encode_ref tv_config ''tv/secret'' 5 (plain_url ''cdn.example'') [Some tv_nonce] = Some (out, [])"
    and r: "split_request (trim_prefix out ''/'') = (''tv/secret'', remainder)" "remainder \<noteq> []"
      "bc_decode (gc_codec tv_config) (blob_of remainder) (format_int 5) = Inr ''cdn.example''"
      "\<not> has_prefix out ''/_sv/node/''" "trim_prefix out ''/'' \<noteq> ''_sv/notice.png''" "trim_prefix out ''/'' \<noteq> ''_sv''"
      "\<not> has_prefix (trim_prefix out ''/'') ''_sv/''"
    by (rule tv_encoded)
  let ?x = "serve_http tv_config tv_env (tv_request out) tv_gateway"
  have m: "is_media (fst ?x)" using tv_resource_served [OF r] by simp
  have h: "?x = (fst ?x, snd ?x)" "split_request (trim_prefix (hq_path (tv_request out)) ''/'') = (''tv/secret'', remainder)"
    "resolve_prefix (ge_up tv_env) (gw_db tv_gateway) ''tv/secret'' = Inr (tv_ap, ''secret'')"
    using r tv_resolved by (simp_all add: tv_request_def tv_env_def tv_gateway_def)
  from resource_needs_own_blob [OF h(1) disjI1 [OF m] h(2) r(2) h(3)] m r(1) show ?thesis
    by (auto simp: tv_ap_def)
qed

text \<open>C8: when the prefix is one the administration accepts, and the extensions of the targets hold no quote, line
  break, percent sign, question mark or hash (see \<open>extension_copied_unescaped\<close> for what happens when they do), a
  rewritten playlist differs from the source's playlist in its references only, and a player's request for each of them comes
  back to the gateway as the target it stands for: its path, percent-decoding included, is split into the same
  prefix and a blob that opens, for the same access point, to the target's URL.\<close>

theorem playlist_references_roundtrip:
  assumes "aead_ok (codec_aead (gc_codec C))" and "length (codec_key (gc_codec C)) = key_size"
    and "list_all (\<lambda>n. n = None \<or> length (the n) = nonce_size) rnd"
    and "accepted_prefix prefix"
    and "\<forall>raw \<in> set (playlist_refs body). \<forall>target. resolve_uri (ul_ops (gc_lib C)) raw base = Some target \<longrightarrow> plain_ref_chars (ref_ext target)"
    and "rewrite_playlist (ul_ops (gc_lib C)) body base (encode_ref C prefix i) rnd = Some (out, rnd')"
  shows "playlist_skeleton out = playlist_skeleton body \<and>
    list_all2 (\<lambda>raw ref. \<exists>target path remainder. resolve_uri (ul_ops (gc_lib C)) raw base = Some target \<and>
        request_path ref = Some path \<and>
        split_request (trim_prefix path ''/'') = (prefix, remainder) \<and>
        bc_decode (gc_codec C) (blob_of remainder) (format_int i) = Inr (ul_string (gc_lib C) target))
      (playlist_refs body) (playlist_refs out)"
proof -
  let ?U = "ul_ops (gc_lib C)"
  have adm: "ref_admissible (C, prefix, i) target" if "raw \<in> set (playlist_refs body)" "resolve_uri ?U raw base = Some target" for raw target
    using assms(5) that accepted_plain [OF assms(4)] by (simp add: ref_admissible_def)
  then have a: "refs.admissible_refs ?U base (C, prefix, i) (playlist_refs body)" unfolding refs.admissible_refs_def by blast
  have r: "rewrite_playlist ?U body base ((\<lambda>(C, prefix, i). encode_ref C prefix i) (C, prefix, i)) rnd = Some (out, rnd')"
    using assms(6) by simp
  note sealed = refs.rewrite_playlist_refs [OF a r]
  have "list_all2 (\<lambda>raw ref. \<exists>target path remainder. resolve_uri ?U raw base = Some target \<and> request_path ref = Some path \<and>
        split_request (trim_prefix path ''/'') = (prefix, remainder) \<and>
        bc_decode (gc_codec C) (blob_of remainder) (format_int i) = Inr (ul_string (gc_lib C) target)) vs ws"
    if "encode_refs ?U base (encode_ref C prefix i) vs rnd = Some (ws, rnd')" "set vs \<subseteq> set (playlist_refs body)"
      "list_all (\<lambda>n. n = None \<or> length (the n) = nonce_size) rnd" for vs ws rnd
    using that
  proof (induction vs arbitrary: rnd ws)
    case (Cons v vs)
    then obtain target p rnd1 ps where t: "resolve_uri ?U v base = Some target" "encode_ref C prefix i target rnd = Some (p, rnd1)"
      "encode_refs ?U base (encode_ref C prefix i) vs rnd1 = Some (ps, rnd')" "ws = p # ps"
      by (auto split: option.splits)
    from t(2) obtain nonce where n: "rnd = Some nonce # rnd1" by (auto elim: encode_ref_Some)
    with Cons.prems(3) have l: "length nonce = nonce_size" by simp
    have "request_path p = Some p"
      using adm [OF _ t(1)] Cons.prems(2) l t(2) n by (intro encode_ref_path [OF assms(4)]) auto
    moreover note encode_ref_opens [OF assms(1,2) l accepted_prefixD(1) [OF assms(4)] t(2) [unfolded n]]
    ultimately show ?case using t Cons.IH [OF t(3)] Cons.prems(2,3) n by auto
  qed simp
  with sealed assms(3) show ?thesis by simp
qed

theorem playlist_references_roundtrip_witness:
  "\<exists>out ref path remainder.
     rewrite_playlist (ul_ops (gc_lib tv_config)) ''cdn.example'' (plain_url ''h'') (encode_ref tv_config ''tv/secret'' 5) [Some tv_nonce]
       = Some (out, []) \<and> playlist_refs out = [ref] \<and> request_path ref = Some path \<and> split_request (trim_prefix path ''/'') = (''tv/secret'', remainder) \<and>
     bc_decode (gc_codec tv_config) (blob_of remainder) (format_int 5) = Inr ''cdn.example''"
proof -
  have refs: "playlist_refs ''cdn.example'' = [''cdn.example'']" by code_simp
  have res: "resolve_uri (ul_ops (gc_lib tv_config)) ''cdn.example'' (plain_url ''h'') = Some (plain_url ''cdn.example'')"
    by (simp add: resolve_uri_def tv_config_def plain_lib_def plain_url_def)
  have ext: "ref_ext (plain_url ''cdn.example'') = []" by code_simp
  have ap: "accepted_prefix ''tv/secret''" by code_simp
  have adm: "\<forall>raw \<in> set (playlist_refs ''cdn.example''). \<forall>target.
      resolve_uri (ul_ops (gc_lib tv_config)) raw (plain_url ''h'') = Some target \<longrightarrow> plain_ref_chars (ref_ext target)"
    unfolding refs using res ext by (simp add: plain_ref_chars_def)
  obtain o1 where o1: "encode_ref tv_config ''tv/secret'' 5 (plain_url ''cdn.example'') [Some tv_nonce] = Some (o1, [])"
    by (simp add: encode_ref_def bc_encode_def)
  have sp: "split_on newline ''cdn.example'' = [''cdn.example'']" "trim_right ''cdn.example'' [carriage_return] = ''cdn.example''"
    by code_simp+
  then have rw: "rewrite_playlist (ul_ops (gc_lib tv_config)) ''cdn.example'' (plain_url ''h'') (encode_ref tv_config ''tv/secret'' 5) [Some tv_nonce]
      = Some (o1, [])"
    using o1 res by (simp add: rewrite_playlist_def rewrite_line_def)
  have n: "list_all (\<lambda>n. n = None \<or> length (the n) = nonce_size) [Some tv_nonce]" using tv_codec(3) by simp
  have us: "ul_string (gc_lib tv_config) (plain_url ''cdn.example'') = ''cdn.example''"
    by (simp add: tv_config_def plain_lib_def plain_url_def)
  from playlist_references_roundtrip [OF tv_codec(1,2) n ap adm rw] obtain ref path remainder where
    "playlist_refs o1 = [ref]" "request_path ref = Some path" "split_request (trim_prefix path ''/'') = (''tv/secret'', remainder)"
    "bc_decode (gc_codec tv_config) (blob_of remainder) (format_int 5) = Inr ''cdn.example''"
    unfolding refs by (auto simp: list_all2_Cons1 res us)
  with rw show ?thesis by blast
qed

text \<open>The extension of the target's decoded path, up to eight bytes, is copied into the reference
  as it is. A source that percent-encodes a line break or a quote there gets it into the rewritten
  playlist, where it ends the line or the attribute.\<close>

theorem extension_copied_unescaped:
  assumes "encode_ref C prefix i target (Some nonce # rnd) = Some (out, rnd')"
    and "u_path target = dir @ CHR ''.'' # e" and "CHR ''.'' \<notin> set e" and "CHR ''/'' \<notin> set e" and "length e < 8"
  shows "\<exists>ref. out = ref @ CHR ''.'' # e"
proof -
  from last_index_byte_append [OF assms(3), of dir] assms(4)
  have "path_ext (u_path target) = CHR ''.'' # e" by (simp add: path_ext_def assms(2))
  with assms(5) have "ref_ext target = CHR ''.'' # e" by (simp add: ref_ext_def)
  with assms(1) show ?thesis by (auto elim!: encode_ref_Some)
qed

theorem extension_copied_unescaped_witness:
  "\<exists>out. encode_ref tv_config ''tv/secret'' 5
       \<lparr>u_scheme = ''http'', u_user = None, u_host = ''cdn.example'', u_path = ''/seg.'' @ newline # ''#X'', u_raw_query = [],
        u_fragment = []\<rparr> [Some tv_nonce] = Some (out, []) \<and> newline \<in> set out"
proof -
  let ?u = "\<lparr>u_scheme = ''http'', u_user = None, u_host = ''cdn.example'', u_path = ''/seg.'' @ newline # ''#X'', u_raw_query = [],
        u_fragment = []\<rparr>"
  obtain out where o: "encode_ref tv_config ''tv/secret'' 5 ?u [Some tv_nonce] = Some (out, [])"
    by (simp add: encode_ref_def bc_encode_def)
  have "\<exists>ref. out = ref @ CHR ''.'' # newline # ''#X''"
    by (rule extension_copied_unescaped [OF o, of "''/seg''"]) simp_all
  with o show ?thesis by auto
qed

text \<open>C29: the playlist a player gets while the source is down is finite, so it comes back to the real
  entry when it ends: its last line is the end mark, and it holds at least one segment of the shared
  slate.\<close>

theorem temporary_failure_finite:
  assumes "write_temporary_failure E q g = (SlatePlaylist body, g')" and "hq_method q \<noteq> ''HEAD''"
  shows "(\<exists>b. body = b @ ''#EXT-X-ENDLIST'' @ [newline]) \<and> str_contains body (temporary_prefix @ ''seg'')"
proof -
  obtain p where "finite_temporary_slate E (ge_late E) (gw_slate g) = (Inr body, p)"
    using assms by (auto simp: write_temporary_failure_def write_temporary_html_def write_error_html_def
        split: if_splits prod.splits sum.splits)
  from finite_temporary_playlist [OF this] obtain data where
    d: "body = fst (finite_playlist temporary_prefix data)" "0 < snd (finite_playlist temporary_prefix data)" by blast
  from finite_playlist_segment [OF d(2)] d(1) show ?thesis by (auto simp: finite_playlist_def Let_def)
qed

definition slate_env :: "unit gw_env" where
  "slate_env = tv_env
     \<lparr>ge_provider := \<lparr>sp_get_path = (\<lambda>p v k n. (Inr (''/tmp/s'', n), p)), sp_prepare = (\<lambda>p v a t c. ([], p))\<rparr>,
      ge_files := (\<lambda>p. Some (''#EXTM3U'' @ [newline] @ ''seg000001.ts''))\<rparr>"

theorem temporary_failure_finite_witness:
  "\<exists>body. fst (write_temporary_failure slate_env (tv_request ''/tv/secret'') tv_gateway) = SlatePlaylist body \<and>
     str_contains body (temporary_prefix @ ''seg'')"
proof -
  have w: "wants_slate (tv_request ''/tv/secret'')" by code_simp
  have f: "finite_playlist temporary_prefix (''#EXTM3U'' @ [newline] @ ''seg000001.ts'') =
      (''#EXTM3U'' @ [newline] @ temporary_prefix @ ''seg000001.ts'' @ [newline] @ ''#EXT-X-ENDLIST'' @ [newline], 1)" by code_simp
  have "finite_temporary_slate slate_env [] () = (Inr (''#EXTM3U'' @ [newline] @ temporary_prefix @ ''seg000001.ts'' @ [newline] @
      ''#EXT-X-ENDLIST'' @ [newline]), ())"
    using f by (simp add: finite_temporary_slate.simps temporary_parts read_finite_slate_def slate_env_def temporary_prefix_def)
  then obtain body g' where b: "write_temporary_failure slate_env (tv_request ''/tv/secret'') tv_gateway = (SlatePlaylist body, g')"
    using w by (simp add: write_temporary_failure_def slate_env_def tv_env_def tv_gateway_def tv_request_def)
  from temporary_failure_finite [OF b] b show ?thesis by (simp add: tv_request_def)
qed

end
