(* ===== verification/NodeLink.thy ===== *)
theory NodeLink imports NodeControl NodeRelay begin

text \<open>
  The two ends of the node protocol together: what the control plane (\<open>nodecontrol.go\<close>,
  \<open>store.go\<close>) writes into a configuration or a viewer URL, and what a relay node
  (\<open>node.go\<close>) makes of it.
\<close>

section \<open>Lemmas\<close>

lemma serve_node_config_doc:
  assumes "serve_node_config H A key ck up D n secret rnd = (ApiConfig doc, rnd')"
  obtains streams aps tokens where "node_streams (up 0) D (nr_id n) = Inr streams"
    "node_revocations ck (up 1) (up 2) D (nr_id n) = Inr (aps, tokens)"
    "config_streams A key (config_key H secret) streams rnd = (nc_streams doc, rnd')"
    "nc_revoked_access_points doc = aps" "nc_revoked_tokens doc = tokens" "nc_node_id doc = nr_id n"
  using assms by (auto simp: serve_node_config_def split: sum.splits prod.splits)

lemma grant_token: "viewer_grant H now n q i = Some (ap, tok, expiry) \<Longrightarrow> int_param q ''tok'' = Some tok \<and> int_param q ''ap'' = Some ap"
  by (auto simp: viewer_grant_def split: option.splits if_splits)

lemma applied_revocations:
  "nd_revoked_tokens (apply_config now doc m) = nc_revoked_tokens doc"
  "nd_revoked_aps (apply_config now doc m) = nc_revoked_access_points doc"
  "nd_secret (apply_config now doc m) = nd_secret m"
  by (simp_all add: apply_config_def Let_def)

text \<open>A dead token of the node's streams is in the document, and a node that applied a document refuses its tokens.\<close>

lemma dead_token_listed:
  assumes "serve_node_config H A key ck up D n secret rnd = (ApiConfig doc, rnd')"
    and "t \<in> set (db_tokens D)" and "token_node D t = Some (nr_id n)" and "token_dead ck t"
  shows "tk_id t \<in> set (nc_revoked_tokens doc)"
proof -
  from serve_node_config_doc [OF assms(1)] obtain aps tokens where
    d: "node_revocations ck (up 1) (up 2) D (nr_id n) = Inr (aps, tokens)" "nc_revoked_tokens doc = tokens" by metis
  then have "tokens = map tk_id (filter (\<lambda>t. token_node D t = Some (nr_id n) \<and> token_dead ck t) (db_tokens D))"
    by (auto simp: node_revocations_def split: if_splits)
  with assms(2-4) d(2) show ?thesis by simp
qed

lemma revoked_refused:
  assumes "i \<in> set (nc_revoked_tokens doc)" and "i \<noteq> 0" and "int_param q ''tok'' = Some i"
  shows "\<not> serves_media (fst (serve_node H N files now q (apply_config received doc m)))"
proof
  let ?m = "apply_config received doc m"
  assume s: "serves_media (fst (serve_node H N files now q ?m))"
  from serving_granted [OF this] obtain st ap tok expiry where
    g: "viewer_grant H now (expire_config now ?m) q st = Some (ap, tok, expiry)" "st \<in> set (nd_assigned (expire_config now ?m))"
      "tok = 0 \<or> tok \<notin> set (nd_revoked_tokens (expire_config now ?m))" by blast
  have tok: "tok = i" using grant_token [OF g(1)] assms(3) by simp
  have "node_inv (expire_config now ?m)" by (intro expire_config_inv apply_config_inv)
  with g(2) have "nd_have_config (expire_config now ?m)" by (auto simp: node_inv_def)
  from expired_fresh [OF this] have "expire_config now ?m = ?m" by simp
  with g(3) tok assms(1,2) show False by (simp add: applied_revocations)
qed

text \<open>Streams the node can use as the gateway does: without credentials, or with both of them.\<close>

definition credentials_complete :: "stream \<Rightarrow> bool" where
  "credentials_complete st \<longleftrightarrow>
     s_source_username st = None \<and> s_source_password_enc st = None \<or>
     s_source_username st \<notin> {None, Some []} \<and> s_source_password_enc st \<noteq> None"

lemma sealed_nonempty: "sb_encrypt A (Some nonce) k pw = Inr sealed \<Longrightarrow> length nonce = nonce_size \<Longrightarrow> sealed \<noteq> []"
proof -
  assume e: "sb_encrypt A (Some nonce) k pw = Inr sealed" and l: "length nonce = nonce_size"
  have "length sealed = 4 * ((length nonce + length (aead_seal A k nonce pw []) + 2) div 3)"
    using e by (auto simp: sb_encrypt_def std_encode_def length_b64_encode_pad split: if_splits)
  with l show ?thesis by auto
qed

definition nonces_ok :: "bytes option list \<Rightarrow> bool" where
  "nonces_ok rnd \<longleftrightarrow> list_all (\<lambda>n. n = None \<or> length (the n) = nonce_size) rnd"

text \<open>
  What a node makes of an entry of its configuration is the same source as a stream of the database: the type, the
  URL, the trust, and, unless the stored username is empty, the request for any target with the same credentials.
  The signature the sessions compare is the same when the credentials are complete.
\<close>

definition same_source :: "hashes \<Rightarrow> aead \<Rightarrow> bytes option \<Rightarrow> bytes \<Rightarrow> stream \<Rightarrow> stream_config \<Rightarrow> bool" where
  "same_source H A key cfg_key st sc \<longleftrightarrow>
     s_id (config_stream sc) = s_id st \<and> s_source_type (config_stream sc) = s_source_type st \<and>
     s_source_url (config_stream sc) = s_source_url st \<and>
     s_trust_private_source (config_stream sc) = s_trust_private_source st \<and>
     (s_source_username st \<noteq> Some [] \<longrightarrow>
        (\<forall>L target. fetch_request L A (Some cfg_key) (config_stream sc) target = fetch_request L A key st target)) \<and>
     (credentials_complete st \<longrightarrow>
        source_signature H A (Some cfg_key) (config_stream sc) = source_signature H A key st)"

lemma config_stream_source:
  assumes "aead_ok A" and "length cfg_key = key_size" and "length nonce = nonce_size"
    and "sb_decrypt A k enc = Inr pw" and "sb_encrypt A (Some nonce) cfg_key pw = Inr sealed"
    and "s_source_username st = Some user" and "s_source_password_enc st = Some enc"
  shows "same_source H A (Some k) cfg_key st
     \<lparr>sc_id = s_id st, sc_source_type = s_source_type st, sc_source_url = s_source_url st, sc_source_username = user,
      sc_source_password_enc = sealed, sc_trust_private_source = s_trust_private_source st\<rparr>"
proof -
  have "sb_decrypt A cfg_key sealed = Inr pw" by (rule decrypt_sealed [OF assms(1-3,5)])
  with assms sealed_nonempty [OF assms(5,3)] show ?thesis
    by (auto simp: same_source_def config_stream_def source_signature_def null_string_def fetch_request_def
        credentials_complete_def Let_def split: option.split)
qed

lemma config_stream_bare:
  assumes "s_source_username st = None \<or> s_source_password_enc st = None"
  shows "same_source H A key cfg_key st
     \<lparr>sc_id = s_id st, sc_source_type = s_source_type st, sc_source_url = s_source_url st, sc_source_username = [],
      sc_source_password_enc = [], sc_trust_private_source = s_trust_private_source st\<rparr>"
  using assms by (auto simp: same_source_def config_stream_def source_signature_def null_string_def fetch_request_def
      credentials_complete_def Let_def split: option.split)

text \<open>A stream can be put into a configuration: it has no credentials, or its password decrypts and there is randomness.\<close>

definition deliverable :: "aead \<Rightarrow> bytes \<Rightarrow> bytes option list \<Rightarrow> stream \<Rightarrow> bool" where
  "deliverable A k rnd st \<longleftrightarrow>
     s_source_username st = None \<or> s_source_password_enc st = None \<or>
     is_ok (sb_decrypt A k (the (s_source_password_enc st))) \<and> None \<notin> set rnd"

text \<open>The step of \<open>config_streams\<close>: the stream is passed over, or goes in as it is, or with sealed credentials.\<close>

lemma config_streams_step:
  assumes "aead_ok A" and "length cfg_key = key_size" and "nonces_ok rnd"
    and "config_streams A (Some k) cfg_key (st # sts) rnd = (scs, rnd')"
  obtains (passed) r where "config_streams A (Some k) cfg_key sts r = (scs, rnd')" "nonces_ok r"
      "set r \<subseteq> set rnd" "length rnd \<le> Suc (length r)" "length rnd > 0 \<longrightarrow> \<not> deliverable A k rnd st"
  | (taken) r sc rest where "config_streams A (Some k) cfg_key sts r = (rest, rnd')" "nonces_ok r"
      "set r \<subseteq> set rnd" "length rnd \<le> Suc (length r)" "scs = sc # rest" "same_source H A (Some k) cfg_key st sc"
proof (cases "s_source_username st = None \<or> s_source_password_enc st = None")
  case True
  then obtain rest where "config_streams A (Some k) cfg_key sts rnd = (rest, rnd')"
    "scs = \<lparr>sc_id = s_id st, sc_source_type = s_source_type st, sc_source_url = s_source_url st, sc_source_username = [],
      sc_source_password_enc = [], sc_trust_private_source = s_trust_private_source st\<rparr> # rest"
    using assms(4) by (auto simp: Let_def split: prod.splits option.splits)
  from taken [OF this(1) assms(3) _ _ this(2) config_stream_bare [OF True]] show ?thesis by simp
next
  case False
  then obtain user enc where c: "s_source_username st = Some user" "s_source_password_enc st = Some enc" by auto
  show ?thesis
  proof (cases "sb_decrypt A k enc")
    case (Inl e)
    with assms(4) c have "config_streams A (Some k) cfg_key sts rnd = (scs, rnd')" by (simp add: Let_def)
    from passed [OF this assms(3)] Inl c show ?thesis by (simp add: deliverable_def)
  next
    case (Inr pw)
    obtain n r where n: "(case rnd of [] \<Rightarrow> (None, []) | x # xs \<Rightarrow> (x, xs)) = (n, r)" by fastforce
    then have r: "nonces_ok r" "set r \<subseteq> set rnd" "length rnd \<le> Suc (length r)" "length rnd > 0 \<longrightarrow> n \<in> set rnd"
      using assms(3) by (cases rnd; auto simp: nonces_ok_def)+
    show ?thesis
    proof (cases "sb_encrypt A n cfg_key pw")
      case (Inl e)
      with assms(2) have "n = None" by (auto simp: sb_encrypt_def split: option.splits)
      with r(4) have "length rnd > 0 \<longrightarrow> \<not> deliverable A k rnd st" using c by (auto simp: deliverable_def)
      moreover have "config_streams A (Some k) cfg_key sts r = (scs, rnd')"
        using assms(4) c Inr n Inl by (simp add: Let_def)
      ultimately show ?thesis using passed r by blast
    next
      case sealed: (Inr sealed)
      then obtain nonce where nn: "n = Some nonce" by (auto simp: sb_encrypt_def split: if_splits option.splits)
      have ln: "length nonce = nonce_size" using n nn assms(3) by (cases rnd) (auto simp: nonces_ok_def)
      obtain rest where rest: "config_streams A (Some k) cfg_key sts r = (rest, rnd')"
        "scs = \<lparr>sc_id = s_id st, sc_source_type = s_source_type st, sc_source_url = s_source_url st, sc_source_username = user,
           sc_source_password_enc = sealed, sc_trust_private_source = s_trust_private_source st\<rparr> # rest"
        using assms(4) c Inr n sealed by (auto simp: Let_def split: prod.splits)
      from taken [OF rest(1) r(1-3) rest(2) config_stream_source [OF assms(1,2) ln Inr sealed [unfolded nn] c]]
      show ?thesis .
    qed
  qed
qed

lemma config_streams_same:
  assumes "aead_ok A" and "length cfg_key = key_size" and "nonces_ok rnd"
    and "config_streams A (Some k) cfg_key sts rnd = (scs, rnd')"
  shows "\<forall>sc \<in> set scs. \<exists>st \<in> set sts. same_source H A (Some k) cfg_key st sc"
  using assms(3,4)
proof (induction sts arbitrary: rnd scs)
  case (Cons st sts)
  from assms(1,2) Cons.prems show ?case
  proof (cases rule: config_streams_step [where H = H])
    case (passed r)
    with Cons.IH [OF passed(2,1)] show ?thesis by auto
  next
    case (taken r sc rest)
    with Cons.IH [OF taken(2,1)] show ?thesis by auto
  qed
qed simp

lemma config_streams_all:
  assumes "aead_ok A" and "length cfg_key = key_size" and "nonces_ok rnd"
    and "config_streams A (Some k) cfg_key sts rnd = (scs, rnd')"
    and "st \<in> set sts" and "deliverable A k rnd st" and "length sts \<le> length rnd"
  shows "s_id st \<in> sc_id ` set scs"
  using assms(3-)
proof (induction sts arbitrary: rnd scs)
  case (Cons s sts)
  have later: "deliverable A k r st" if "set r \<subseteq> set rnd" for r
    using that Cons.prems(4) by (auto simp: deliverable_def)
  from assms(1,2) Cons.prems(1,2) show ?case
  proof (cases rule: config_streams_step [where H = "\<lparr>sha256 = (\<lambda>m. m), hmac256 = (\<lambda>k m. m)\<rparr>"])
    case (passed r)
    have "st \<noteq> s" using passed(5) Cons.prems(4,5) by auto
    with Cons.IH [OF passed(2,1) _ later [OF passed(3)]] passed(4) Cons.prems(3,5) show ?thesis by simp
  next
    case (taken r sc rest)
    show ?thesis
    proof (cases "st = s")
      case True
      with taken(6) have "sc_id sc = s_id st" by (simp add: same_source_def config_stream_def Let_def)
      with taken(5) show ?thesis by force
    next
      case False
      with Cons.IH [OF taken(2,1) _ later [OF taken(3)]] taken(4,5) Cons.prems(3,5) show ?thesis by simp
    qed
  qed
qed simp

section \<open>An example\<close>

text \<open>Node 4 relays stream 7, whose access point 5 has the revoked token 5.\<close>

definition node_key :: bytes where "node_key = replicate 32 CHR ''k''"

definition link_row :: node_row where
  "link_row =
     \<lparr>nr_id = 4, nr_name = ''n'', nr_public_url = ''http://node.example'',
      nr_token_hash = secret_hash toy_hashes (replicate 64 CHR ''a''), nr_secret_enc = [], nr_status = ''active'',
      nr_last_seen_at = None, nr_last_status_json = None\<rparr>"

definition link_db :: "string option \<Rightarrow> string option \<Rightarrow> db" where
  "link_db user enc = empty_db
     \<lparr>db_nodes := [link_row],
      db_streams := [\<lparr>st_id = 7, st_name = [], st_source_type = ''hls'', st_source_url = ''http://src.example/live.m3u8'',
        st_source_username = user, st_source_password_enc = enc, st_status = ''active'', st_disabled_at = None,
        st_rotation_mode = [], st_replacement_reason = [], st_replacement_message = None, st_owner_id = None,
        st_always_on = 0, st_node_id = Some 4\<rparr>],
      db_aps := [\<lparr>ap_id = 5, ap_stream_id = 7, ap_public_path = ''tv'', ap_visibility = ''private'',
        ap_output_format = ''hls'', ap_status = ''active'', ap_revoked_at = None, ap_path_is_secret = 0\<rparr>],
      db_tokens := [\<lparr>tk_id = 5, tk_ap_id = 5, tk_hash = [], tk_expires_at = None, tk_revoked_at = Some ''now'',
        tk_revoked_reason = None, tk_last_used_at = None\<rparr>]\<rparr>"

definition link_clock :: clock where
  "link_clock = \<lparr>ck_now = 5 * second, ck_stamp = ''now'', ck_parse_rfc3339 = (\<lambda>s. None), ck_parse_stamp = (\<lambda>s. None)\<rparr>"

definition link_stream :: "string option \<Rightarrow> string option \<Rightarrow> stream" where
  "link_stream user enc =
     \<lparr>s_id = 7, s_name = [], s_source_type = ''hls'', s_source_url = ''http://src.example/live.m3u8'', s_source_username = user,
      s_source_password_enc = enc, s_status = ''active'', s_disabled_at = None, s_replacement_reason = [],
      s_replacement_message = None, s_allow_remux = True, s_trust_private_source = True, s_node = None\<rparr>"

lemma link_streams: "node_streams True (link_db user enc) 4 = Inr [link_stream user enc]"
  by (simp add: node_streams_def link_db_def scan_stream_def link_stream_def owner_of_def private_trusted_def)

definition link_viewer :: viewer_request where
  "link_viewer = granted_viewer\<lparr>vq_query := viewer_query toy_hashes (replicate 64 CHR ''a'') 7 1 5 99\<rparr>"

section \<open>Properties\<close>

text \<open>A token that is revoked, or past its expiry, when the control plane serves a node its
  configuration is refused by the node from the moment it applies that configuration: no request
  with a grant for the token is answered with media.\<close>

theorem revocation_reaches_node:
  assumes "serve_node_config H A key ck up D n secret rnd = (ApiConfig doc, rnd')"
    and "t \<in> set (db_tokens D)" and "token_node D t = Some (nr_id n)" and "token_dead ck t" and "tk_id t \<noteq> 0"
    and "int_param q ''tok'' = Some (tk_id t)"
  shows "\<not> serves_media (fst (serve_node H' N files now q (apply_config received doc m)))"
  by (rule revoked_refused [OF dead_token_listed [OF assms(1-4)] assms(5,6)])

theorem revocation_reaches_node_witness:
  "\<exists>doc. serve_node_config toy_hashes clear_aead None link_clock (\<lambda>i. True) (link_db None None) link_row
       (replicate 64 CHR ''a'') [] = (ApiConfig doc, []) \<and>
     \<not> serves_media (fst (serve_node toy_hashes \<lparr>al_split_host = (\<lambda>s. None), al_parse_ip = (\<lambda>s. None)\<rparr> (\<lambda>p. Some [])
       5 link_viewer (apply_config 1 doc serving_node)))"
proof -
  have id: "nr_id link_row = 4" by (simp add: link_row_def)
  obtain aps toks where r: "node_revocations link_clock True True (link_db None None) 4 = Inr (aps, toks)"
    by (simp add: node_revocations_def)
  obtain doc where d: "serve_node_config toy_hashes clear_aead None link_clock (\<lambda>i. True) (link_db None None) link_row
       (replicate 64 CHR ''a'') [] = (ApiConfig doc, [])"
    by (simp add: serve_node_config_def id link_streams r link_stream_def Let_def)
  let ?t = "hd (db_tokens (link_db None None))"
  have t: "?t \<in> set (db_tokens (link_db None None))" "token_node (link_db None None) ?t = Some (nr_id link_row)"
    "token_dead link_clock ?t" "tk_id ?t \<noteq> 0" "tk_id ?t = 5"
    by (simp_all add: link_db_def token_node_def ap_by_id_def ap_node_def stream_by_id_def id token_dead_def)
  have "format_int 5 = ''5''" by code_simp
  with parse_format_int [of 5] have "int_param link_viewer ''tok'' = Some (tk_id ?t)"
    using t(5) by (simp add: int_param_def link_viewer_def viewer_query_def)
  from revocation_reaches_node [OF d t(1-4) this] d show ?thesis by blast
qed

text \<open>
  C13: a node sees in every stream of its configuration a source of the database as the control gateway sees it: the same
  id, type, URL and trust, and for a stream whose stored username is not the empty text the same request with the same
  user and password; and for a stream whose credentials are complete (both or none) it computes the same signature, so
  that resealing the password restarts no relay. No stream is left out whose password decrypts, as long as the
  random source answers.
\<close>

theorem config_keeps_sources:
  assumes "aead_ok A" and "hashes_ok H" and "nonces_ok rnd"
    and "serve_node_config H A (Some k) ck up D n secret rnd = (ApiConfig doc, rnd')"
    and "node_streams (up 0) D (nr_id n) = Inr streams"
  shows "(\<forall>sc \<in> set (nc_streams doc). \<exists>st \<in> set streams. same_source H A (Some k) (config_key H secret) st sc) \<and>
    (length streams \<le> length rnd \<longrightarrow>
       (\<forall>st \<in> set streams. deliverable A k rnd st \<longrightarrow> s_id st \<in> sc_id ` set (nc_streams doc)))"
proof -
  have k: "length (config_key H secret) = key_size" using length_config_key [OF assms(2)] by (simp add: key_size_def)
  obtain rnd'' where "config_streams A (Some k) (config_key H secret) streams rnd = (nc_streams doc, rnd'')"
    using assms(4,5) by (auto elim: serve_node_config_doc)
  with config_streams_same [OF assms(1) k assms(3)] config_streams_all [OF assms(1) k assms(3)] show ?thesis by blast
qed

theorem config_keeps_sources_witness:
  "\<exists>enc doc rnd. sb_encrypt clear_aead (Some (replicate 12 CHR ''m'')) node_key ''pw'' = Inr enc \<and>
     serve_node_config toy_hashes clear_aead (Some node_key) link_clock (\<lambda>i. True) (link_db (Some ''u'') (Some enc)) link_row
       (replicate 64 CHR ''a'') [Some (replicate 12 CHR ''n'')] = (ApiConfig doc, rnd) \<and>
     map sc_source_username (nc_streams doc) = [''u''] \<and>
     source_signature toy_hashes clear_aead (Some (config_key toy_hashes (replicate 64 CHR ''a''))) (config_stream (hd (nc_streams doc))) =
     source_signature toy_hashes clear_aead (Some node_key) (link_stream (Some ''u'') (Some enc)) \<and>
     7 \<in> sc_id ` set (nc_streams doc)"
proof -
  let ?ck = "config_key toy_hashes (replicate 64 CHR ''a'')"
  have k: "length node_key = key_size" "length ?ck = key_size"
    by (simp_all add: node_key_def key_size_def config_key_def derive_def toy_hashes_def)
  obtain enc where e: "sb_encrypt clear_aead (Some (replicate 12 CHR ''m'')) node_key ''pw'' = Inr enc"
    using k by (simp add: sb_encrypt_def)
  have dec: "sb_decrypt clear_aead node_key enc = Inr ''pw''"
    by (rule decrypt_sealed [OF clear_aead_ok k(1) _ e]) simp
  obtain sealed where s: "sb_encrypt clear_aead (Some (replicate 12 CHR ''n'')) ?ck ''pw'' = Inr sealed"
    using k by (simp add: sb_encrypt_def)
  have id: "nr_id link_row = 4" by (simp add: link_row_def)
  obtain aps toks where r: "node_revocations link_clock True True (link_db (Some ''u'') (Some enc)) 4 = Inr (aps, toks)"
    by (simp add: node_revocations_def)
  obtain doc rnd where d: "serve_node_config toy_hashes clear_aead (Some node_key) link_clock (\<lambda>i. True)
      (link_db (Some ''u'') (Some enc)) link_row (replicate 64 CHR ''a'') [Some (replicate 12 CHR ''n'')] = (ApiConfig doc, rnd)"
      and u: "map sc_source_username (nc_streams doc) = [''u'']"
    by (simp add: serve_node_config_def id link_streams r link_stream_def dec s Let_def)
  have h: "hashes_ok toy_hashes" "nonces_ok [Some (replicate 12 CHR ''n'')]"
      "node_streams ((\<lambda>i. True) (0 :: nat)) (link_db (Some ''u'') (Some enc)) (nr_id link_row) = Inr [link_stream (Some ''u'') (Some enc)]"
      "credentials_complete (link_stream (Some ''u'') (Some enc))"
      "deliverable clear_aead node_key [Some (replicate 12 CHR ''n'')] (link_stream (Some ''u'') (Some enc))"
      "hd (nc_streams doc) \<in> set (nc_streams doc)" "s_id (link_stream (Some ''u'') (Some enc)) = 7"
    using u dec by (auto simp: hashes_ok_def toy_hashes_def nonces_ok_def id link_streams credentials_complete_def link_stream_def
        deliverable_def intro!: hd_in_set)
  from config_keeps_sources [OF clear_aead_ok h(1,2) d h(3)] h(4-7)
  have "same_source toy_hashes clear_aead (Some node_key) ?ck (link_stream (Some ''u'') (Some enc)) (hd (nc_streams doc))"
    "7 \<in> sc_id ` set (nc_streams doc)" by auto
  with e d u h(4) show ?thesis by (auto simp: same_source_def)
qed

text \<open>A viewer URL's query, as the control plane signs and prints it, is accepted by the node it
  was made for, for that stream, until it expires.\<close>

theorem printed_grant_accepted:
  assumes "vq_query q = viewer_query H (nd_secret n) i ap tok expiry"
    and "is_int64 ap" and "is_int64 tok" and "is_int64 expiry" and "now div second \<le> expiry"
  shows "viewer_grant H now n q i = Some (ap, tok, expiry)"
proof -
  have "int_param q k = Some v" if "vq_query q k = format_int v" "is_int64 v" for k v
    using parse_format_int [of v] that by (simp add: int_param_def is_int64_def)
  with assms show ?thesis by (simp add: viewer_grant_def viewer_query_def verify_sign)
qed

theorem printed_grant_accepted_witness:
  "viewer_grant toy_hashes 5 serving_node \<lparr>vq_method = ''GET'', vq_path = ''/n/7/index.m3u8'', vq_raw_query = [],
     vq_query = viewer_query toy_hashes (nd_secret serving_node) 7 0 0 99, vq_remote = [], vq_header = (\<lambda>h. [])\<rparr> 7
   = Some (0, 0, 99)"
  by (rule printed_grant_accepted) (simp_all add: is_int64_def)

text \<open>C28: the node API answers with anything but the public install script, or writes to the
  database, only for a request that carries the token of a node that exists and is not disabled,
  and all it ever writes is that node's own row.\<close>

theorem node_api_needs_token:
  assumes "serve_node_api H A key E q D rnd = (reply, D', rnd')"
    and "reply \<in> {ApiBinary, ApiNoContent} \<or> (\<exists>doc. reply = ApiConfig doc) \<or> (\<exists>h. reply = ApiHash h) \<or> D' \<noteq> D"
  shows "\<exists>n secret. auth_node H (ae_up E 3) D q = Some (n, secret) \<and> nr_status n \<noteq> ''disabled'' \<and>
     secret_hash H secret = nr_token_hash n \<and>
     D'\<lparr>db_nodes := db_nodes D\<rparr> = D \<and> filter (\<lambda>r. nr_id r \<noteq> nr_id n) (db_nodes D') = filter (\<lambda>r. nr_id r \<noteq> nr_id n) (db_nodes D)"
proof (cases "auth_node H (ae_up E 3) D q")
  case None
  with assms show ?thesis
    by (auto simp: serve_node_api_def serve_node_install_script_def Let_def split: if_splits)
next
  case (Some x)
  obtain n secret where x: "x = (n, secret)" by fastforce
  have a: "nr_status n \<noteq> ''disabled''" "secret_hash H secret = nr_token_hash n"
    using Some x by (auto simp: auth_node_def hash_matches_def Let_def split: if_splits option.splits sum.splits)
  have "D' = D \<or> (\<exists>r. accept_node_status (ae_json E) (ae_clock E) (ae_up E 4) D q n = (r, D'))"
    using assms(1) Some x by (auto simp: serve_node_api_def Let_def split: if_splits prod.splits)
  moreover have "D'\<lparr>db_nodes := db_nodes D\<rparr> = D \<and>
      filter (\<lambda>r. nr_id r \<noteq> nr_id n) (db_nodes D') = filter (\<lambda>r. nr_id r \<noteq> nr_id n) (db_nodes D)"
    if "accept_node_status (ae_json E) (ae_clock E) (ae_up E 4) D q n = (r, D')" for r
  proof -
    have "filter (\<lambda>r. nr_id r \<noteq> i) (map (\<lambda>n. if nr_id n = i \<and> P n then f n else n) ns) = filter (\<lambda>r. nr_id r \<noteq> i) ns"
      if "\<And>n. nr_id (f n) = nr_id n" for i P f ns
      using that by (induction ns) auto
    note keep = this [of "\<lambda>m. m\<lparr>nr_last_seen_at := Some st, nr_last_status_json := Some json,
        nr_status := (if nr_status m = ''pending'' then ''active'' else nr_status m)\<rparr>" "nr_id n" "\<lambda>m. nr_status m \<noteq> ''disabled''" for st json]
    from that show ?thesis
      by (auto simp: accept_node_status_def record_node_status_def keep split: option.splits if_splits sum.splits)
  qed
  ultimately show ?thesis using Some x a by auto
qed

definition binary_request :: http_request where
  "binary_request =
     \<lparr>hq_method = ''GET'', hq_path = ''/_sv/node/binary'',
      hq_header = (\<lambda>h. if h = ''Authorization'' then ''Bearer svn_4_'' @ replicate 64 CHR ''a'' else []),
      hq_host = ''cp.example'', hq_remote = [], hq_body = None\<rparr>"

definition binary_env :: api_env where
  "binary_env = \<lparr>ae_clock = link_clock, ae_up = (\<lambda>n. True), ae_json = \<lparr>sj_decode = (\<lambda>b. None), sj_encode = (\<lambda>s. [])\<rparr>,
     ae_script = [], ae_binary = True, ae_binary_hash = None\<rparr>"

theorem node_api_needs_token_witness:
  "fst (serve_node_api toy_hashes clear_aead None binary_env binary_request (link_db None None) []) = ApiBinary \<and>
   auth_node toy_hashes True (link_db None None) binary_request = Some (link_row, replicate 64 CHR ''a'')"
proof -
  have p: "has_prefix (''Bearer svn_4_'' @ x) ''Bearer ''" "trim_prefix (''Bearer svn_4_'' @ x) ''Bearer '' = ''svn_4_'' @ x" for x
    by (simp_all add: trim_prefix_def)
  have "store_node_by_id True (link_db None None) 4 = Inr link_row"
    by (simp add: store_node_by_id_def node_by_id_def link_db_def link_row_def)
  moreover have "nr_status link_row \<noteq> ''disabled''" "hash_matches toy_hashes (replicate 64 CHR ''a'') (nr_token_hash link_row)"
    by (simp_all add: link_row_def hash_matches_def)
  moreover have hdr: "hq_header binary_request ''Authorization'' = ''Bearer svn_4_'' @ replicate 64 CHR ''a''"
    by (simp add: binary_request_def)
  ultimately have a: "auth_node toy_hashes True (link_db None None) binary_request = Some (link_row, replicate 64 CHR ''a'')"
    unfolding auth_node_def hdr p parse_node_token Let_def by simp
  have m: "hq_method binary_request = ''GET''" "trim_prefix (hq_path binary_request) ''/_sv/node/'' = ''binary''"
    "ae_up binary_env = (\<lambda>n. True)" "ae_binary binary_env"
    by (simp_all add: binary_request_def binary_env_def trim_prefix_def)
  have b: "serve_node_api toy_hashes clear_aead None binary_env binary_request (link_db None None) [] = (ApiBinary, link_db None None, [])"
    unfolding serve_node_api_def m Let_def a by (simp add: serve_node_binary_def m)
  from node_api_needs_token [OF b] a b m(3) show ?thesis by auto
qed

end
