(* ===== verification/NodeExchange.thy ===== *)
theory NodeExchange imports NodeLink begin

text \<open>
  The exchanges of a relay node with the control plane: \<open>request\<close>, \<open>pollOnce\<close> and \<open>statusLoop\<close> of
  \<open>internal/node/node.go\<close> on one side, \<open>serveNodeAPI\<close> of \<open>internal/gatewayhttp/nodecontrol.go\<close> on the other.
  Between them are HTTP, which carries a request or loses it, and JSON, a parameter on both sides.
\<close>

section \<open>The request of a node\<close>

record node_link =
  nl_token :: string
  nl_version :: string
  nl_control :: url

text \<open>\<open>None\<close> when the address does not parse. The remote address is the listener's.\<close>

definition node_request :: "url_lib \<Rightarrow> node_link \<Rightarrow> string \<Rightarrow> string \<Rightarrow> bytes option \<Rightarrow> http_request option" where
  "node_request L K method path body =
     (case url_parse (ul_ops L) (ul_string L (nl_control K) @ path) of
        None \<Rightarrow> None
      | Some u \<Rightarrow>
          Some \<lparr>hq_method = method, hq_path = u_path u,
                hq_header = (\<lambda>h. if h = ''Authorization'' then ''Bearer '' @ nl_token K
                               else if h = ''User-Agent'' then ''streamvault-node/'' @ nl_version K
                               else if h = ''Content-Type'' \<and> body \<noteq> None then ''application/json'' else []),
                hq_host = u_host u, hq_remote = [], hq_body = Some (case body of None \<Rightarrow> [] | Some b \<Rightarrow> b)\<rparr>)"

fun api_status :: "api_reply \<Rightarrow> int" where
  "api_status (ApiError code text) = code"
| "api_status ApiNotFound = 404"
| "api_status ApiNoContent = 204"
| "api_status _ = 200"

section \<open>The configuration\<close>

text \<open>\<open>json.Encoder\<close> and \<open>json.Decoder\<close> for a configuration; the node reads four megabytes at most.\<close>

record config_json =
  cj_encode :: "node_config \<Rightarrow> bytes"
  cj_decode :: "bytes \<Rightarrow> node_config option"

definition max_config_body :: nat where "max_config_body = 4194304"

definition config_reply :: "config_json \<Rightarrow> api_reply \<Rightarrow> poll_reply" where
  "config_reply J r =
     Replied (api_status r)
       (case r of ApiConfig doc \<Rightarrow> cj_decode J (take max_config_body (cj_encode J doc)) | _ \<Rightarrow> None)"

definition config_exchange ::
  "hashes \<Rightarrow> aead \<Rightarrow> bytes option \<Rightarrow> api_env \<Rightarrow> db \<Rightarrow> bytes option list \<Rightarrow> url_lib \<Rightarrow> config_json \<Rightarrow> node_link \<Rightarrow> poll_reply" where
  "config_exchange H A key E D rnd L J K =
     (case node_request L K ''GET'' ''/_sv/node/config'' None of
        None \<Rightarrow> Unreachable
      | Some q \<Rightarrow> config_reply J (fst (serve_node_api H A key E q D rnd)))"

section \<open>The status report\<close>

text \<open>What one turn logs, for the code of the answer, if there was one.\<close>

definition report_log :: "int option \<Rightarrow> string option" where
  "report_log code =
     (case code of
        None \<Rightarrow> Some ''node: status report failed: control plane unreachable''
      | Some c \<Rightarrow> if c \<noteq> 204 then Some (''node: status report returned HTTP '' @ format_int c) else None)"

definition status_turn ::
  "(node_status \<Rightarrow> int option) \<Rightarrow> string \<Rightarrow> string option \<Rightarrow> real \<Rightarrow> int \<Rightarrow> duration \<Rightarrow> string option \<Rightarrow> string option \<Rightarrow>
   time \<Rightarrow> node \<Rightarrow> string option \<times> node" where
  "status_turn send version binary load1 cpus uptime meminfo netdev now n =
     (let (st, n') = collect_status version binary load1 cpus uptime meminfo netdev now n
      in (report_log (send st), n'))"

definition report_exchange ::
  "hashes \<Rightarrow> aead \<Rightarrow> bytes option \<Rightarrow> api_env \<Rightarrow> db \<Rightarrow> bytes option list \<Rightarrow> url_lib \<Rightarrow> node_link \<Rightarrow> node_status \<Rightarrow>
   int option \<times> db" where
  "report_exchange H A key E D rnd L K st =
     (case node_request L K ''POST'' ''/_sv/node/status'' (Some (sj_encode (ae_json E) st)) of
        None \<Rightarrow> (None, D)
      | Some q \<Rightarrow> (let (r, D', rnd') = serve_node_api H A key E q D rnd in (Some (api_status r), D')))"

section \<open>Lemmas\<close>

text \<open>The address of the control plane has nothing after its host, so a path is appended to it as it is.\<close>

definition plain_control :: "url_lib \<Rightarrow> node_link \<Rightarrow> bool" where
  "plain_control L K \<longleftrightarrow>
     list_all (\<lambda>p. map_option u_path (url_parse (ul_ops L) (ul_string L (nl_control K) @ p)) = Some p)
       [''/_sv/node/config'', ''/_sv/node/status'']"

lemma plain_request:
  assumes "plain_control L K" and "path \<in> {''/_sv/node/config'', ''/_sv/node/status''}"
  obtains q where "node_request L K method path body = Some q" and "hq_method q = method" and "hq_path q = path"
    and "hq_header q ''Authorization'' = ''Bearer '' @ nl_token K"
    and "hq_body q = Some (case body of None \<Rightarrow> [] | Some b \<Rightarrow> b)"
proof -
  obtain u where "url_parse (ul_ops L) (ul_string L (nl_control K) @ path) = Some u" "u_path u = path"
    using assms by (auto simp: plain_control_def)
  then show ?thesis using that by (simp add: node_request_def)
qed

lemma auth_of_request:
  assumes "hq_header q ''Authorization'' = ''Bearer '' @ token" and "parse_token token = Some (i, secret)"
  shows "auth_node H up D q =
    (case store_node_by_id up D i of
       Inl e \<Rightarrow> None
     | Inr n \<Rightarrow> if nr_status n = ''disabled'' \<or> \<not> hash_matches H secret (nr_token_hash n) then None else Some (n, secret))"
proof -
  have p: "has_prefix (''Bearer '' @ t) ''Bearer ''" "trim_prefix (''Bearer '' @ t) ''Bearer '' = t" for t
    by (simp_all add: trim_prefix_def)
  show ?thesis unfolding auth_node_def assms(1) p Let_def if_not_P [OF not_not [THEN iffD2, OF p(1)]] assms(2) by simp
qed

lemma api_paths:
  "trim_prefix ''/_sv/node/config'' ''/_sv/node/'' = ''config''" "trim_prefix ''/_sv/node/status'' ''/_sv/node/'' = ''status''"
  by (simp_all add: trim_prefix_def)

lemma serve_config_path:
  assumes "hq_method q = ''GET''" and "hq_path q = ''/_sv/node/config''"
  shows "fst (serve_node_api H A key E q D rnd) =
    (case auth_node H (ae_up E 3) D q of
       None \<Rightarrow> ApiError 401 ''unauthorized''
     | Some (n, secret) \<Rightarrow> fst (serve_node_config H A key (ae_clock E) (ae_up E) D n secret rnd))"
  by (simp add: serve_node_api_def assms api_paths Let_def split: option.split prod.split)

lemma serve_status_path:
  assumes "hq_method q = ''POST''" and "hq_path q = ''/_sv/node/status''"
  shows "serve_node_api H A key E q D rnd =
    (case auth_node H (ae_up E 3) D q of
       None \<Rightarrow> (ApiError 401 ''unauthorized'', D, rnd)
     | Some (n, secret) \<Rightarrow>
         (let (r, D') = accept_node_status (ae_json E) (ae_clock E) (ae_up E 4) D q n in (r, D', rnd)))"
  by (simp add: serve_node_api_def assms api_paths Let_def split: option.split prod.split)

section \<open>Examples\<close>

text \<open>Node 4 of \<open>NodeLink\<close> with its token, under \<open>https://cp.example\<close>.\<close>

definition link_lib :: url_lib where
  "link_lib = plain_lib
     \<lparr>ul_ops := \<lparr>url_parse = (\<lambda>raw. Some \<lparr>u_scheme = ''https'', u_user = None, u_host = ''cp.example'', u_path = drop 18 raw,
                                        u_raw_query = [], u_fragment = []\<rparr>),
                url_resolve = (\<lambda>b r. r)\<rparr>,
      ul_string := (\<lambda>u. ''https://'' @ u_host u @ u_path u)\<rparr>"

definition node_4 :: node_link where
  "node_4 = \<lparr>nl_token = ''svn_4_'' @ replicate 64 CHR ''a'', nl_version = ''1'', nl_control =
     \<lparr>u_scheme = ''https'', u_user = None, u_host = ''cp.example'', u_path = [], u_raw_query = [], u_fragment = []\<rparr>\<rparr>"

definition status_text :: string where "status_text = ''{}''"

definition link_api :: "node_status \<Rightarrow> api_env" where
  "link_api st = \<lparr>ae_clock = link_clock, ae_up = (\<lambda>n. True), ae_json = \<lparr>sj_decode = (\<lambda>b. Some st), sj_encode = (\<lambda>s. status_text)\<rparr>,
     ae_script = [], ae_binary = True, ae_binary_hash = None\<rparr>"

definition ex_status :: node_status where
  "ex_status = fst (collect_status ''1'' None 0 4 0 None None 0 fresh_node)"

lemma node_4_plain: "plain_control link_lib node_4"
  by (simp add: plain_control_def link_lib_def node_4_def)

lemma node_4_token: "parse_token (nl_token node_4) = Some (4, replicate 64 CHR ''a'')"
  unfolding node_4_def node_link.select_convs by (rule parse_node_token)

lemma link_row_of_4: "node_by_id (link_db user enc) 4 = Some link_row"
  by (simp add: node_by_id_def link_db_def link_row_def)

section \<open>Properties\<close>

text \<open>C7: once a node has polled its configuration without an error, it refuses every token that was dead in the control
  plane's database at that moment, revoked or past its expiry, whatever else it was told and whenever it is asked.\<close>

theorem poll_carries_revocations:
  assumes "fst (poll_once now (config_exchange H A key E D rnd L J K) m) = None"
    and "\<And>doc c. cj_decode J (take max_config_body (cj_encode J doc)) = Some c \<Longrightarrow>
        nc_node_id c = nc_node_id doc \<and> nc_revoked_tokens c = nc_revoked_tokens doc"
    and "t \<in> set (db_tokens D)" and "token_node D t = Some (nd_id m)" and "token_dead (ae_clock E) t" and "tk_id t \<noteq> 0"
    and "int_param q ''tok'' = Some (tk_id t)"
  shows "\<not> serves_media (fst (serve_node H' N files later q (snd (poll_once now (config_exchange H A key E D rnd L J K) m))))"
proof -
  obtain cfg where r: "config_exchange H A key E D rnd L J K = Replied 200 (Some cfg)" "nc_node_id cfg = nd_id m"
    and m: "snd (poll_once now (config_exchange H A key E D rnd L J K) m) = apply_config now cfg m"
    using assms(1) by (auto simp: poll_once_def split: poll_reply.splits if_splits option.splits)
  then obtain req where q: "node_request L K ''GET'' ''/_sv/node/config'' None = Some req"
    and c: "config_reply J (fst (serve_node_api H A key E req D rnd)) = Replied 200 (Some cfg)"
    by (auto simp: config_exchange_def split: option.splits)
  obtain doc where d: "fst (serve_node_api H A key E req D rnd) = ApiConfig doc" "cj_decode J (take max_config_body (cj_encode J doc)) = Some cfg"
    using c by (cases "fst (serve_node_api H A key E req D rnd)") (auto simp: config_reply_def)
  have same: "nc_node_id cfg = nc_node_id doc" "nc_revoked_tokens cfg = nc_revoked_tokens doc" using assms(2) [OF d(2)] by simp_all
  from d(1) have "\<exists>n secret rnd'. serve_node_config H A key (ae_clock E) (ae_up E) D n secret rnd = (ApiConfig doc, rnd')"
    by (auto simp: serve_node_api_def serve_node_install_script_def serve_node_binary_def accept_node_status_def Let_def
        split: if_splits option.splits prod.splits sum.splits)
  then obtain n secret rnd' where s: "serve_node_config H A key (ae_clock E) (ae_up E) D n secret rnd = (ApiConfig doc, rnd')"
    by blast
  then have "nr_id n = nd_id m" using r(2) same(1) by (auto elim: serve_node_config_doc)
  with dead_token_listed [OF s assms(3) _ assms(5)] assms(4) same(2) have "tk_id t \<in> set (nc_revoked_tokens cfg)" by simp
  from revoked_refused [OF this assms(6,7)] show ?thesis unfolding m .
qed

theorem poll_carries_revocations_witness:
  "\<exists>J. fst (poll_once 1 (config_exchange toy_hashes clear_aead None (link_api ex_status) (link_db None None) [] link_lib J node_4) serving_node) = None \<and>
     \<not> serves_media (fst (serve_node toy_hashes \<lparr>al_split_host = (\<lambda>s. None), al_parse_ip = (\<lambda>s. None)\<rparr> (\<lambda>p. Some []) 5 link_viewer
       (snd (poll_once 1 (config_exchange toy_hashes clear_aead None (link_api ex_status) (link_db None None) [] link_lib J node_4) serving_node))))"
proof -
  let ?E = "link_api ex_status" let ?D = "link_db None None"
  have id: "nr_id link_row = 4" and E: "ae_clock ?E = link_clock" "ae_up ?E = (\<lambda>n. True)" by (simp_all add: link_row_def link_api_def)
  obtain req where q: "node_request link_lib node_4 ''GET'' ''/_sv/node/config'' None = Some req" "hq_method req = ''GET''"
      "hq_path req = ''/_sv/node/config''" "hq_header req ''Authorization'' = ''Bearer '' @ nl_token node_4"
    using plain_request [OF node_4_plain] by blast
  obtain aps toks where r: "node_revocations link_clock True True ?D 4 = Inr (aps, toks)" by (simp add: node_revocations_def)
  obtain doc where d: "serve_node_config toy_hashes clear_aead None link_clock (\<lambda>i. True) ?D link_row (replicate 64 CHR ''a'') [] = (ApiConfig doc, [])"
      and n: "nc_node_id doc = 4"
    by (simp add: serve_node_config_def id link_streams r link_stream_def Let_def)
  define J where "J = \<lparr>cj_encode = (\<lambda>c. if c = doc then [] else ''x''), cj_decode = (\<lambda>b. if b = [] then Some doc else None)\<rparr>"
  have J: "cj_decode J (take max_config_body (cj_encode J c)) = Some c' \<Longrightarrow>
      nc_node_id c' = nc_node_id c \<and> nc_revoked_tokens c' = nc_revoked_tokens c" for c c'
    by (auto simp: J_def max_config_body_def split: if_splits)
  have "auth_node toy_hashes True ?D req = Some (link_row, replicate 64 CHR ''a'')"
    unfolding auth_of_request [OF q(4) node_4_token]
    by (simp add: store_node_by_id_def link_row_of_4 hash_matches_def link_row_def)
  then have x: "config_exchange toy_hashes clear_aead None ?E ?D [] link_lib J node_4 = Replied 200 (Some doc)"
    by (simp add: config_exchange_def q(1) serve_config_path [OF q(2,3)] E d config_reply_def J_def)
  have "nd_id serving_node = 4" by (simp add: serving_node_def poll_turn_def poll_once_def fresh_node_def one_stream_config_def
      apply_config_def expire_config_def clear_config_def Let_def)
  then have p: "fst (poll_once 1 (config_exchange toy_hashes clear_aead None ?E ?D [] link_lib J node_4) serving_node) = None"
    by (simp add: x poll_once_def n)
  let ?t = "hd (db_tokens ?D)"
  have t: "?t \<in> set (db_tokens ?D)" "token_node ?D ?t = Some (nd_id serving_node)" "token_dead (ae_clock ?E) ?t" "tk_id ?t \<noteq> 0" "tk_id ?t = 5"
    using \<open>nd_id serving_node = 4\<close>
    by (simp_all add: link_db_def token_node_def ap_by_id_def ap_node_def stream_by_id_def token_dead_def)
  have "format_int 5 = ''5''" by code_simp
  with parse_format_int [of 5] have "int_param link_viewer ''tok'' = Some (tk_id ?t)"
    using t(5) by (simp add: int_param_def link_viewer_def viewer_query_def)
  from poll_carries_revocations [OF p J t(1-4) this] p show ?thesis by blast
qed

text \<open>C14: a node that was disabled or removed, or whose token was replaced, relays and serves nothing from its next poll on.\<close>

theorem rejected_node_stops:
  assumes "node_reachable m" and "plain_control L K" and "parse_token (nl_token K) = Some (i, secret)"
    and "\<And>n. node_by_id D i = Some n \<Longrightarrow> nr_status n = ''disabled'' \<or> nr_token_hash n \<noteq> secret_hash H secret"
  shows "node_always_on (snd (poll_turn now later (config_exchange H A key E D rnd L J K) m)) = Inr [] \<and>
    \<not> serves_media (fst (serve_node H' N files t q (snd (poll_turn now later (config_exchange H A key E D rnd L J K) m))))"
proof (rule unconfigured_silent)
  let ?r = "config_exchange H A key E D rnd L J K"
  show "node_inv (snd (poll_turn now later ?r m))" by (intro node_reachable_inv polled assms(1))
  obtain req where q: "node_request L K ''GET'' ''/_sv/node/config'' None = Some req" "hq_method req = ''GET''"
      "hq_path req = ''/_sv/node/config''" "hq_header req ''Authorization'' = ''Bearer '' @ nl_token K"
    using plain_request [OF assms(2)] by blast
  have "auth_node H (ae_up E 3) D req = None"
    using assms(4) by (auto simp: auth_of_request [OF q(4) assms(3)] store_node_by_id_def hash_matches_def split: option.split)
  then have "?r = Replied 401 None"
    by (simp add: config_exchange_def q(1) config_reply_def serve_config_path [OF q(2,3)])
  then show "\<not> nd_have_config (snd (poll_turn now later ?r m))"
    by (simp add: poll_turn_def poll_once_def Let_def expire_config_def clear_config_def)
qed

theorem rejected_node_stops_witness:
  "serves_media (fst (serve_node toy_hashes \<lparr>al_split_host = (\<lambda>s. None), al_parse_ip = (\<lambda>s. None)\<rparr>
     (\<lambda>p. Some ''seg000001.ts'') 5 granted_viewer serving_node)) \<and>
   \<not> serves_media (fst (serve_node toy_hashes \<lparr>al_split_host = (\<lambda>s. None), al_parse_ip = (\<lambda>s. None)\<rparr>
     (\<lambda>p. Some ''seg000001.ts'') 5 granted_viewer (snd (poll_turn 3 4 (config_exchange toy_hashes clear_aead None (link_api ex_status)
       ((link_db None None)\<lparr>db_nodes := [link_row\<lparr>nr_status := ''disabled''\<rparr>]\<rparr>) [] link_lib
       \<lparr>cj_encode = (\<lambda>c. []), cj_decode = (\<lambda>b. None)\<rparr> node_4) serving_node))))"
proof -
  let ?D = "(link_db None None)\<lparr>db_nodes := [link_row\<lparr>nr_status := ''disabled''\<rparr>]\<rparr>"
  have "nr_status n = ''disabled''" if "node_by_id ?D 4 = Some n" for n
    using that by (auto simp: node_by_id_def split: if_splits)
  from rejected_node_stops [OF serving_node_reachable node_4_plain node_4_token disjI1 [OF this]]
  show ?thesis by (simp only: granted_viewer_served serves_media.simps simp_thms)
qed

text \<open>C15: a status report that fits is answered with 204, is stored as the node's last report, and makes the node one that
  viewers are sent to for the next 45 seconds; so two reports in a row, one every 15 seconds, may be lost.\<close>

theorem report_recorded:
  assumes "plain_control L K" and "parse_token (nl_token K) = Some (i, secret)"
    and "node_by_id D i = Some n" and "nr_status n \<in> {''active'', ''pending''}" and "nr_token_hash n = secret_hash H secret"
    and "ae_up E 3" and "ae_up E 4"
    and "length (sj_encode (ae_json E) st) \<le> max_node_status_body" and "sj_decode (ae_json E) (sj_encode (ae_json E) st) = Some st"
    and "nr_public_url n \<noteq> []" and "ck_parse_stamp ck (ck_stamp (ae_clock E)) = Some seen"
    and "time_sub (ck_now ck) seen \<le> 45 * second"
  shows "\<exists>D' n'. report_exchange H A key E D rnd L K st = (Some 204, D') \<and> node_by_id D' i = Some n' \<and>
    nr_last_status_json n' = Some (sj_encode (ae_json E) st) \<and> node_online ck (Some (node_ref_of n'))"
proof -
  let ?b = "sj_encode (ae_json E) st"
  let ?f = "\<lambda>m. if nr_id m = i \<and> nr_status m \<noteq> ''disabled''
      then m\<lparr>nr_last_seen_at := Some (ck_stamp (ae_clock E)), nr_last_status_json := Some ?b,
             nr_status := (if nr_status m = ''pending'' then ''active'' else nr_status m)\<rparr> else m"
  obtain req where q: "node_request L K ''POST'' ''/_sv/node/status'' (Some ?b) = Some req" "hq_method req = ''POST''"
      "hq_path req = ''/_sv/node/status''" "hq_header req ''Authorization'' = ''Bearer '' @ nl_token K" "hq_body req = Some ?b"
    using plain_request [OF assms(1), of "''/_sv/node/status''" "''POST''" "Some ?b"] by auto
  have n: "nr_id n = i" using assms(3) by (auto simp: node_by_id_def find_Some_iff)
  have "auth_node H (ae_up E 3) D req = Some (n, secret)"
    using assms(3-6) by (auto simp: auth_of_request [OF q(4) assms(2)] store_node_by_id_def hash_matches_def)
  then have r: "report_exchange H A key E D rnd L K st = (Some 204, D\<lparr>db_nodes := map ?f (db_nodes D)\<rparr>)"
    using assms(7-9) q(5) n
    by (simp add: report_exchange_def q(1) serve_status_path [OF q(2,3)] accept_node_status_def record_node_status_def)
  have "List.find (\<lambda>m. nr_id m = i) (map ?f ns) = map_option ?f (List.find (\<lambda>m. nr_id m = i) ns)" for ns
    by (induction ns) auto
  moreover have up: "db_nodes (D\<lparr>db_nodes := ns\<rparr>) = ns" for ns by simp
  ultimately have "node_by_id (D\<lparr>db_nodes := map ?f (db_nodes D)\<rparr>) i = map_option ?f (node_by_id D i)"
    by (simp only: node_by_id_def up)
  then have "node_by_id (D\<lparr>db_nodes := map ?f (db_nodes D)\<rparr>) i = Some (?f n)" unfolding assms(3) option.map .
  moreover have "node_online ck (Some (node_ref_of (?f n)))" "nr_last_status_json (?f n) = Some ?b"
    using assms(4,10-12) n by (auto simp: node_online_def node_ref_of_def node_online_window_def)
  ultimately show ?thesis using r by blast
qed

theorem report_recorded_witness:
  "\<exists>D' n'. report_exchange toy_hashes clear_aead None (link_api ex_status) (link_db None None) [] link_lib node_4 ex_status = (Some 204, D') \<and>
     node_by_id D' 4 = Some n' \<and> nr_last_status_json n' = Some status_text \<and>
     node_online (link_clock\<lparr>ck_now := 45 * second, ck_parse_stamp := (\<lambda>s. Some 0)\<rparr>) (Some (node_ref_of n'))"
proof -
  have E: "ae_up (link_api ex_status) 3" "ae_up (link_api ex_status) 4" "sj_encode (ae_json (link_api ex_status)) ex_status = status_text"
    "length (sj_encode (ae_json (link_api ex_status)) ex_status) \<le> max_node_status_body"
    "sj_decode (ae_json (link_api ex_status)) (sj_encode (ae_json (link_api ex_status)) ex_status) = Some ex_status"
    by (simp_all add: link_api_def status_text_def max_node_status_body_def)
  have n: "nr_status link_row \<in> {''active'', ''pending''}" "nr_token_hash link_row = secret_hash toy_hashes (replicate 64 CHR ''a'')"
    "nr_public_url link_row \<noteq> []" by (simp_all add: link_row_def)
  let ?ck = "link_clock\<lparr>ck_now := 45 * second, ck_parse_stamp := (\<lambda>s. Some 0)\<rparr>"
  have "ck_parse_stamp ?ck (ck_stamp (ae_clock (link_api ex_status))) = Some 0" "time_sub (ck_now ?ck) 0 \<le> 45 * second"
    by (simp_all add: time_sub_def)
  from report_recorded [OF node_4_plain node_4_token link_row_of_4 n(1,2) E(1,2,4,5) n(3) this] E(3)
  show ?thesis by (simp only:)
qed

end
