(* ===== verification/LeakMatch.thy ===== *)
theory LeakMatch imports Store begin

text \<open>
  \<open>internal/leakcheck/matcher.go\<close>: deciding whether a text found in public (a code fragment, an
  issue) gives an access point away. Texts come out of a JSON decoder and paths out of the admin,
  so both are valid UTF-8 and the regular expression works byte by byte.
\<close>

section \<open>Types\<close>

record leak_token =
  lt_id :: int
  lt_hash :: string
  lt_revoked :: bool
  lt_expired :: bool

record leak_ap =
  la_id :: int
  la_stream_id :: int
  la_public_path :: string
  la_visibility :: string
  la_path_is_secret :: bool
  la_tokens :: "leak_token list"

datatype confidence = Mention | Probable | Confirmed

text \<open>The strength of the evidence; a text the database holds that is none of the three ranks lowest.\<close>

fun confidence_rank :: "confidence \<Rightarrow> nat" where
  "confidence_rank Confirmed = 2"
| "confidence_rank Probable = 1"
| "confidence_rank Mention = 0"

instantiation confidence :: linorder
begin

definition less_eq_confidence :: "confidence \<Rightarrow> confidence \<Rightarrow> bool" where
  "less_eq_confidence a b = (confidence_rank a \<le> confidence_rank b)"

definition less_confidence :: "confidence \<Rightarrow> confidence \<Rightarrow> bool" where
  "less_confidence a b = (confidence_rank a < confidence_rank b)"

lemma confidence_rank_inj: "confidence_rank a = confidence_rank b \<Longrightarrow> a = b"
  by (cases a; cases b) auto

instance
  by standard (auto simp: less_eq_confidence_def less_confidence_def dest: confidence_rank_inj)

end

fun confidence_text :: "confidence \<Rightarrow> string" where
  "confidence_text Mention = ''mention''"
| "confidence_text Probable = ''probable''"
| "confidence_text Confirmed = ''confirmed''"

definition confidence_of :: "string \<Rightarrow> confidence" where
  "confidence_of s = (if s = ''confirmed'' then Confirmed else if s = ''probable'' then Probable else Mention)"

lemma confidence_of_text [simp]: "confidence_of (confidence_text c) = c"
  by (cases c) (simp_all add: confidence_of_def)

record leak_match =
  lm_confidence :: confidence
  lm_ap_id :: int
  lm_stream_id :: int
  lm_token_id :: "int option"
  lm_value :: string

section \<open>Matching\<close>

definition anchor :: "leak_ap \<Rightarrow> string \<Rightarrow> string" where
  "anchor ap base_url = trim_right base_url ''/'' @ CHR ''/'' # la_public_path ap"

definition hex_either :: "char \<Rightarrow> bool" where
  "hex_either c \<longleftrightarrow> is_digit c \<or> of_char c \<in> {97..102 :: nat} \<or> of_char c \<in> {65..70 :: nat}"

definition token48 :: "string \<Rightarrow> bool" where
  "token48 s \<longleftrightarrow> length s = 48 \<and> (\<forall>c \<in> set s. hex_either c)"

definition token_at :: "string \<Rightarrow> string \<Rightarrow> bool" where
  "token_at anc s \<longleftrightarrow> has_prefix s (anc @ ''/'') \<and> token48 (take 48 (drop (Suc (length anc)) s))"

text \<open>The leftmost match of the quoted anchor, a slash and 48 hexadecimal digits, lower-cased; the
  empty text when there is none.\<close>

fun candidate_token_after :: "string \<Rightarrow> string \<Rightarrow> string" where
  "candidate_token_after anc [] = []"
| "candidate_token_after anc (c # s) =
     (if token_at anc (c # s) then to_lower (take 48 (drop (Suc (length anc)) (c # s)))
      else candidate_token_after anc s)"

definition redacted_value :: "hashes \<Rightarrow> string \<Rightarrow> string \<Rightarrow> string" where
  "redacted_value H anc candidate =
     anc @ ''/<redacted token, hash '' @ take 12 (hex_encode (sha256 H candidate)) @ ''>''"

definition classify :: "hashes \<Rightarrow> leak_ap \<Rightarrow> string \<Rightarrow> string \<Rightarrow> leak_match option" where
  "classify H ap base_url text =
     (let anc = anchor ap base_url; candidate = candidate_token_after anc text
      in if \<not> str_contains text anc then None
         else if la_visibility ap \<noteq> ''private''
         then Some \<lparr>lm_confidence = Confirmed, lm_ap_id = la_id ap, lm_stream_id = la_stream_id ap,
                    lm_token_id = None, lm_value = anc\<rparr>
         else if candidate = []
         then Some \<lparr>lm_confidence = Mention, lm_ap_id = la_id ap, lm_stream_id = la_stream_id ap,
                    lm_token_id = None, lm_value = anc\<rparr>
         else (case List.find (\<lambda>t. lt_hash t = hex_encode (sha256 H candidate)) (la_tokens ap) of
                 Some t \<Rightarrow>
                   Some \<lparr>lm_confidence = Confirmed, lm_ap_id = la_id ap, lm_stream_id = la_stream_id ap,
                         lm_token_id = Some (lt_id t), lm_value = redacted_value H anc candidate\<rparr>
               | None \<Rightarrow>
                   Some \<lparr>lm_confidence = Probable, lm_ap_id = la_id ap, lm_stream_id = la_stream_id ap,
                         lm_token_id = None, lm_value = redacted_value H anc candidate\<rparr>))"

definition dedupe_key :: "hashes \<Rightarrow> string \<Rightarrow> string \<Rightarrow> string \<Rightarrow> string" where
  "dedupe_key H source source_url matched_value =
     hex_encode (sha256 H (source @ ''|'' @ source_url @ ''|'' @ matched_value))"

section \<open>Candidates\<close>

lemma candidate_Nil_iff: "candidate_token_after anc s = [] \<longleftrightarrow> (\<forall>a b. s = a @ b \<longrightarrow> \<not> token_at anc b)"
proof (induction s)
  case Nil
  show ?case by (auto simp: token_at_def)
next
  case (Cons c s)
  have "(\<forall>a b. c # s = a @ b \<longrightarrow> \<not> token_at anc b) \<longleftrightarrow>
        \<not> token_at anc (c # s) \<and> (\<forall>a b. s = a @ b \<longrightarrow> \<not> token_at anc b)"
    by (auto simp: Cons_eq_append_conv)
  moreover have "to_lower (take 48 (drop (Suc (length anc)) (c # s))) \<noteq> []" if "token_at anc (c # s)"
  proof
    assume "to_lower (take 48 (drop (Suc (length anc)) (c # s))) = []"
    then have "length (take 48 (drop (Suc (length anc)) (c # s))) = 0" by (simp add: to_lower_def)
    with that show False unfolding token_at_def token48_def by linarith
  qed
  ultimately show ?case using Cons.IH by auto
qed

lemma token_at_length: "token_at anc s \<Longrightarrow> length anc + 49 \<le> length s"
  by (auto simp: token_at_def token48_def)

lemma candidate_needs_room: "length s < length anc + 49 \<Longrightarrow> candidate_token_after anc s = []"
  unfolding candidate_Nil_iff by (auto dest: token_at_length)

lemma token_at_append: "token48 t \<Longrightarrow> token_at anc (anc @ CHR ''/'' # t @ r)"
  by (simp add: token_at_def token48_def has_prefix_iff)

text \<open>What a text says up to its first candidate decides.\<close>

lemma candidate_first:
  assumes "token48 t" and "\<And>a b. pre = a @ b \<Longrightarrow> b \<noteq> [] \<Longrightarrow> \<not> token_at anc (b @ anc @ CHR ''/'' # t @ r)"
  shows "candidate_token_after anc (pre @ anc @ CHR ''/'' # t @ r) = to_lower t"
  using assms(2)
proof (induction pre)
  case Nil
  have "token_at anc (anc @ CHR ''/'' # t @ r)" using assms(1) by (rule token_at_append)
  moreover have "take 48 (drop (Suc (length anc)) (anc @ CHR ''/'' # t @ r)) = t"
    using assms(1) by (simp add: token48_def)
  ultimately show ?case
    by (metis (no_types) append_Nil append_is_Nil_conv candidate_token_after.simps(2) list.distinct(1) neq_Nil_conv)
next
  case (Cons c pre)
  from Cons.prems [of "[]" "c # pre"] have "\<not> token_at anc ((c # pre) @ anc @ CHR ''/'' # t @ r)" by simp
  moreover from Cons.prems have "\<And>a b. pre = a @ b \<Longrightarrow> b \<noteq> [] \<Longrightarrow> \<not> token_at anc (b @ anc @ CHR ''/'' # t @ r)"
    by (metis append_Cons)
  ultimately show ?case using Cons.IH by simp
qed

lemma length_redacted: "length (redacted_value H anc c) < length anc + 49"
  by (simp add: redacted_value_def)

lemma contains_anchor: "str_contains (pre @ anc @ r) anc"
  by (auto simp: str_contains_iff)

text \<open>What a match of each strength says of the text.\<close>

lemma classify_confirmed_token:
  assumes "la_visibility ap = ''private''" and "token48 t" and "to_lower t = t"
    and "\<And>a b. pre = a @ b \<Longrightarrow> b \<noteq> [] \<Longrightarrow> \<not> token_at (anchor ap base_url) (b @ anchor ap base_url @ CHR ''/'' # t @ r)"
    and "List.find (\<lambda>k. lt_hash k = hex_encode (sha256 H t)) (la_tokens ap) = Some k"
  shows "classify H ap base_url (pre @ anchor ap base_url @ CHR ''/'' # t @ r) =
     Some \<lparr>lm_confidence = Confirmed, lm_ap_id = la_id ap, lm_stream_id = la_stream_id ap,
           lm_token_id = Some (lt_id k), lm_value = redacted_value H (anchor ap base_url) t\<rparr>"
proof -
  have "candidate_token_after (anchor ap base_url) (pre @ anchor ap base_url @ CHR ''/'' # t @ r) = t"
    using candidate_first [OF assms(2,4)] assms(3) by simp
  moreover have "t \<noteq> []" using assms(2) by (auto simp: token48_def)
  ultimately show ?thesis
    using assms(1,5) contains_anchor [of pre "anchor ap base_url" "CHR ''/'' # t @ r"]
    by (simp add: classify_def Let_def)
qed

lemma classify_match:
  assumes "classify H ap base_url text = Some m"
  shows "lm_ap_id m = la_id ap" and "lm_stream_id m = la_stream_id ap"
    and "lm_value m = anchor ap base_url \<or> (\<exists>c. lm_value m = redacted_value H (anchor ap base_url) c)"
    and "\<And>i. lm_token_id m = Some i \<Longrightarrow> lm_confidence m = Confirmed \<and> i \<in> lt_id ` set (la_tokens ap)"
  using assms by (auto simp: classify_def Let_def dest!: find_Some_in split: if_splits option.splits)

section \<open>Properties\<close>

text \<open>
  C38: what a match stores for a finding holds no token. It is the anchor, for a private access point with a token
  behind it followed by the first twelve hexadecimal digits of that token's SHA-256 hash, and by nothing of the
  token itself; and the checker's own search for a token after the anchor finds none in it, whatever the text was.
\<close>

theorem stored_value_has_no_token:
  assumes "classify H ap base_url text = Some m"
  shows "candidate_token_after (anchor ap base_url) (lm_value m) = [] \<and>
    lm_value m =
      (if la_visibility ap \<noteq> ''private'' \<or> candidate_token_after (anchor ap base_url) text = [] then anchor ap base_url
       else anchor ap base_url @ ''/<redacted token, hash '' @
            take 12 (hex_encode (sha256 H (candidate_token_after (anchor ap base_url) text))) @ ''>'')"
proof -
  have "length (lm_value m) < length (anchor ap base_url) + 49"
    using classify_match(3) [OF assms] length_redacted by auto
  then have "candidate_token_after (anchor ap base_url) (lm_value m) = []"
    using classify_match(3) [OF assms] by (auto intro: candidate_needs_room)
  moreover have "lm_value m =
      (if la_visibility ap \<noteq> ''private'' \<or> candidate_token_after (anchor ap base_url) text = [] then anchor ap base_url
       else redacted_value H (anchor ap base_url) (candidate_token_after (anchor ap base_url) text))"
    using assms by (auto simp: classify_def Let_def split: if_splits option.splits)
  ultimately show ?thesis by (simp add: redacted_value_def)
qed

definition tiny_hashes :: hashes where
  "tiny_hashes = \<lparr>sha256 = take 1, hmac256 = (\<lambda>k m. m)\<rparr>"

definition nova_ap :: leak_ap where
  "nova_ap =
     \<lparr>la_id = 3, la_stream_id = 2, la_public_path = ''live/nova'', la_visibility = ''private'',
      la_path_is_secret = False, la_tokens = []\<rparr>"

theorem stored_value_has_no_token_witness:
  "lm_value (the (classify tiny_hashes nova_ap ''https://tv.example/''
      (''see https://tv.example/live/nova/'' @ replicate 48 CHR ''A''))) =
   ''https://tv.example/live/nova/<redacted token, hash 61>''"
proof -
  let ?text = "''see https://tv.example/live/nova/'' @ replicate 48 CHR ''A''"
  let ?c = "classify tiny_hashes nova_ap ''https://tv.example/'' ?text"
  have "?c \<noteq> None" by code_simp
  then have "?c = Some (the ?c)" by simp
  note stored = stored_value_has_no_token [OF this, THEN conjunct2]
  have token: "\<not> (la_visibility nova_ap \<noteq> ''private'' \<or> candidate_token_after (anchor nova_ap ''https://tv.example/'') ?text = [])"
    by code_simp
  have shown: "anchor nova_ap ''https://tv.example/'' @ ''/<redacted token, hash '' @
      take 12 (hex_encode (sha256 tiny_hashes (candidate_token_after (anchor nova_ap ''https://tv.example/'') ?text))) @ ''>''
     = ''https://tv.example/live/nova/<redacted token, hash 61>''" by code_simp
  from stored show ?thesis unfolding if_not_P [OF token] shown .
qed

text \<open>
  Only the first candidate after the anchor is looked at. When a text shows a link whose token
  is unknown before a link with a live token of the same access point, the match is Probable and
  names no token, so the live one is never revoked automatically.
\<close>

theorem decoy_hides_live_token:
  assumes "la_visibility ap = ''private''" and "token48 decoy" and "token48 raw"
    and "hex_encode (sha256 H (to_lower decoy)) \<notin> lt_hash ` set (la_tokens ap)"
    and "hex_encode (sha256 H raw) \<in> lt_hash ` set (la_tokens ap)"
    and "text = anchor ap base_url @ ''/'' @ decoy @ '' '' @ anchor ap base_url @ ''/'' @ raw"
  shows "\<exists>m. classify H ap base_url text = Some m \<and> lm_confidence m = Probable \<and> lm_token_id m = None"
proof -
  let ?anc = "anchor ap base_url"
  have c: "candidate_token_after ?anc text = to_lower decoy"
    using candidate_first [of decoy "[]" ?anc "'' '' @ ?anc @ ''/'' @ raw"] assms(2,6) by simp
  moreover have "to_lower decoy \<noteq> []" using assms(2) by (auto simp: token48_def to_lower_def)
  moreover have "str_contains text ?anc" using contains_anchor [of "[]" ?anc] assms(6) by simp
  moreover have "List.find (\<lambda>t. lt_hash t = hex_encode (sha256 H (to_lower decoy))) (la_tokens ap) = None"
    using assms(4) by (metis (mono_tags) find_None_iff image_eqI)
  ultimately show ?thesis using assms(1) by (simp add: classify_def Let_def)
qed

definition nova_live :: leak_ap where
  "nova_live = nova_ap\<lparr>la_tokens :=
     [\<lparr>lt_id = 9, lt_hash = hex_encode ''b'', lt_revoked = False, lt_expired = False\<rparr>]\<rparr>"

theorem decoy_hides_live_token_witness:
  "\<exists>m. classify tiny_hashes nova_live ''https://tv.example''
     (anchor nova_live ''https://tv.example'' @ ''/'' @ replicate 48 CHR ''a'' @ '' '' @
      anchor nova_live ''https://tv.example'' @ ''/'' @ replicate 48 CHR ''b'') = Some m \<and>
    lm_confidence m = Probable \<and> lm_token_id m = None"
proof (rule decoy_hides_live_token)
  show "la_visibility nova_live = ''private''" by (simp add: nova_live_def nova_ap_def)
  show "token48 (replicate 48 CHR ''a'')" "token48 (replicate 48 CHR ''b'')" by code_simp+
  show "hex_encode (sha256 tiny_hashes (to_lower (replicate 48 CHR ''a'')))
     \<notin> lt_hash ` set (la_tokens nova_live)" by code_simp
  show "hex_encode (sha256 tiny_hashes (replicate 48 CHR ''b''))
     \<in> lt_hash ` set (la_tokens nova_live)" by code_simp
qed (rule refl)

text \<open>
  The anchor is searched for without a boundary after it, so a text that holds only the link of
  another stream whose path goes on where a public access point's path ends is a confirmed leak of
  that access point.
\<close>

theorem longer_path_confirms_shorter:
  assumes "la_visibility ap \<noteq> ''private''" and "la_public_path other = la_public_path ap @ suffix"
  shows "\<exists>m. classify H ap base_url (pre @ anchor other base_url @ post) = Some m \<and>
    lm_confidence m = Confirmed \<and> lm_ap_id m = la_id ap"
proof -
  have "pre @ anchor other base_url @ post = pre @ anchor ap base_url @ suffix @ post"
    using assms(2) by (simp add: anchor_def)
  with contains_anchor [of pre "anchor ap base_url" "suffix @ post"] assms(1)
  show ?thesis by (simp add: classify_def Let_def)
qed

theorem longer_path_confirms_shorter_witness:
  "\<exists>m. classify tiny_hashes
      (nova_ap\<lparr>la_visibility := ''public'', la_public_path := ''tv''\<rparr>) ''https://tv.example''
      ([] @ anchor (nova_ap\<lparr>la_id := 8, la_public_path := ''tv2''\<rparr>) ''https://tv.example'' @ []) = Some m \<and>
    lm_confidence m = Confirmed \<and> lm_ap_id m = la_id (nova_ap\<lparr>la_visibility := ''public'', la_public_path := ''tv''\<rparr>)"
  by (rule longer_path_confirms_shorter [where suffix = "''2''"]) (simp_all add: nova_ap_def)

end
