(* ===== verification/LeakStore.thy ===== *)
theory LeakStore imports LeakMatch SealedBox begin

text \<open>
  \<open>internal/leakcheck/store.go\<close> and the database half of \<open>actions.go\<close>: what the leak checker reads
  and writes. A transaction takes one flag: when any of its statements fails it is rolled back. The
  JSON history of an incident is written and read through a parameter.
\<close>

section \<open>Environment and errors\<close>

type_synonym history_entry = "(string \<times> string) list"

record history_codec =
  hc_parse :: "string \<Rightarrow> history_entry list"
  hc_print :: "history_entry list \<Rightarrow> string"

record leak_env =
  le_hashes :: hashes
  le_aead :: aead
  le_clock :: clock
  le_at :: string  \<comment> \<open>\<open>time.Now().UTC().Format(time.RFC3339)\<close>\<close>
  le_history :: history_codec

datatype leak_error =
    LeakDb store_error
  | LeakNoKey
  | LeakDecrypt box_error
  | LeakNoBaseURL

section \<open>Settings\<close>

definition leak_setting :: "bool \<Rightarrow> db \<Rightarrow> string \<Rightarrow> (store_error, string option) result" where
  "leak_setting up D key = (if \<not> up then Inl DbFailed else Inr (map_of (db_settings D) key))"

definition github_token :: "leak_env \<Rightarrow> bool \<Rightarrow> db \<Rightarrow> bytes option \<Rightarrow> (leak_error, string option) result" where
  "github_token E up D key =
     (case leak_setting up D ''github_token_enc'' of
        Inl e \<Rightarrow> Inl (LeakDb e)
      | Inr None \<Rightarrow> Inr None
      | Inr (Some enc) \<Rightarrow>
          (case key of
             None \<Rightarrow> Inl LeakNoKey
           | Some k \<Rightarrow> (case sb_decrypt (le_aead E) k enc of Inl e \<Rightarrow> Inl (LeakDecrypt e) | Inr p \<Rightarrow> Inr (Some p))))"

definition leak_base_url :: "bool \<Rightarrow> db \<Rightarrow> (leak_error, string) result" where
  "leak_base_url up D =
     (case leak_setting up D ''gateway_base_url'' of
        Inl e \<Rightarrow> Inl (LeakDb e)
      | Inr None \<Rightarrow> Inl LeakNoBaseURL
      | Inr (Some v) \<Rightarrow> if v = [] then Inl LeakNoBaseURL else Inr v)"

definition scan_requested_at :: "bool \<Rightarrow> db \<Rightarrow> (store_error, string option) result" where
  "scan_requested_at up D = leak_setting up D ''leak_scan_requested_at''"

definition clear_scan_request_if_unchanged :: "bool \<Rightarrow> db \<Rightarrow> string \<Rightarrow> (store_error, db) result" where
  "clear_scan_request_if_unchanged up D seen =
     (if \<not> up then Inl DbFailed
      else Inr (D\<lparr>db_settings := filter (\<lambda>kv. kv \<noteq> (''leak_scan_requested_at'', seen)) (db_settings D)\<rparr>))"

section \<open>When a scan is due\<close>

text \<open>\<open>ORDER BY id DESC LIMIT 1\<close> among the runs of one owner, or of the global scanner.\<close>

definition latest_run :: "db \<Rightarrow> int option \<Rightarrow> run_row option" where
  "latest_run D owner =
     (case sort_key (\<lambda>r. - rn_id r) (filter (\<lambda>r. rn_owner_id r = owner) (db_runs D)) of
        [] \<Rightarrow> None
      | r # _ \<Rightarrow> Some r)"

text \<open>The text scanned from the row stays invalid when the query fails, so the first test of the
  code catches a failed query too.\<close>

definition last_run_started_at :: "clock \<Rightarrow> bool \<Rightarrow> db \<Rightarrow> (store_error, time option) result" where
  "last_run_started_at ck up D =
     (let (v, err) = if \<not> up then (None, Some DbFailed)
                     else (case latest_run D None of
                             None \<Rightarrow> (None, Some ErrNotFound)
                           | Some r \<Rightarrow> (Some (rn_started_at r), None))
      in if err = Some ErrNotFound \<or> v = None then Inr None
         else (case err of
                 Some e \<Rightarrow> Inl e
               | None \<Rightarrow> Inr (ck_parse_stamp ck (the v))))"

definition interval_over :: "clock \<Rightarrow> duration \<Rightarrow> string \<Rightarrow> bool" where
  "interval_over ck min_interval started =
     (case ck_parse_stamp ck started of None \<Rightarrow> True | Some t \<Rightarrow> time_sub (ck_now ck) t \<ge> min_interval)"

record scan_account =
  sa_id :: int
  sa_token :: string
  sa_requested :: string
  sa_err :: "leak_error option"

definition scan_operator :: "operator_row \<Rightarrow> bool" where
  "scan_operator r \<longleftrightarrow> op_role r = ''user'' \<and> op_status r = ''active'' \<and> op_github_token_enc r \<noteq> None"

definition requested_of :: "operator_row \<Rightarrow> string" where
  "requested_of r = (case op_scan_requested_at r of None \<Rightarrow> [] | Some v \<Rightarrow> v)"

definition account_of :: "leak_env \<Rightarrow> bytes option \<Rightarrow> operator_row \<Rightarrow> scan_account" where
  "account_of E key r =
     (let base = \<lparr>sa_id = op_id r, sa_token = [], sa_requested = requested_of r, sa_err = None\<rparr>
      in case key of
           None \<Rightarrow> base\<lparr>sa_err := Some LeakNoKey\<rparr>
         | Some k \<Rightarrow>
             (case sb_decrypt (le_aead E) k (the (op_github_token_enc r)) of
                Inl e \<Rightarrow> base\<lparr>sa_err := Some (LeakDecrypt e)\<rparr>
              | Inr plain \<Rightarrow> base\<lparr>sa_token := plain\<rparr>))"

definition user_scan_accounts ::
  "leak_env \<Rightarrow> bool \<Rightarrow> db \<Rightarrow> bytes option \<Rightarrow> (store_error, scan_account list) result" where
  "user_scan_accounts E up D key =
     (if \<not> up then Inl DbFailed
      else Inr (map (account_of E key) (sort_key op_id (filter scan_operator (db_operators D)))))"

definition user_should_run ::
  "clock \<Rightarrow> bool \<Rightarrow> db \<Rightarrow> int \<Rightarrow> string \<Rightarrow> duration \<Rightarrow> (store_error, bool) result" where
  "user_should_run ck up D i requested min_interval =
     (if requested \<noteq> [] then Inr True
      else if \<not> up then Inl DbFailed
      else (case latest_run D (Some i) of
              None \<Rightarrow> Inr True
            | Some r \<Rightarrow> Inr (interval_over ck min_interval (rn_started_at r))))"

text \<open>The run the left join attaches: \<open>r.id = (SELECT MAX(id) ... WHERE owner_id = o.id)\<close>.\<close>

definition joined_run :: "db \<Rightarrow> int \<Rightarrow> run_row option" where
  "joined_run D i =
     (let ids = map rn_id (filter (\<lambda>r. rn_owner_id r = Some i) (db_runs D))
      in if ids = [] then None else List.find (\<lambda>r. rn_id r = Max (set ids)) (db_runs D))"

definition any_user_scan_due :: "clock \<Rightarrow> bool \<Rightarrow> db \<Rightarrow> duration \<Rightarrow> (store_error, bool) result" where
  "any_user_scan_due ck up D min_interval =
     (if \<not> up then Inl DbFailed
      else Inr (list_ex (\<lambda>r. requested_of r \<noteq> [] \<or>
             (case joined_run D (op_id r) of None \<Rightarrow> True | Some n \<Rightarrow> interval_over ck min_interval (rn_started_at n)))
             (filter scan_operator (db_operators D))))"

definition clear_user_request_if_unchanged :: "bool \<Rightarrow> db \<Rightarrow> int \<Rightarrow> string \<Rightarrow> (store_error, db) result" where
  "clear_user_request_if_unchanged up D i seen =
     (if \<not> up then Inl DbFailed
      else Inr (D\<lparr>db_operators := map (\<lambda>r. if op_id r = i \<and> op_scan_requested_at r = Some seen
             then r\<lparr>op_scan_requested_at := None\<rparr> else r) (db_operators D)\<rparr>))"

definition should_run ::
  "clock \<Rightarrow> bool \<Rightarrow> bool \<Rightarrow> db \<Rightarrow> duration \<Rightarrow> (store_error, bool \<times> string) result" where
  "should_run ck up up_runs D min_interval =
     (case scan_requested_at up D of
        Inl e \<Rightarrow> Inl e
      | Inr (Some v) \<Rightarrow> Inr (True, v)
      | Inr None \<Rightarrow>
          (case last_run_started_at ck up_runs D of
             Inl e \<Rightarrow> Inl e
           | Inr None \<Rightarrow> Inr (True, [])
           | Inr (Some t) \<Rightarrow> Inr (time_sub (ck_now ck) t \<ge> min_interval, [])))"

section \<open>What is scanned\<close>

record leak_source =
  ks_id :: int
  ks_provider :: string
  ks_identifier :: string

definition watched :: "int option \<Rightarrow> source_row \<Rightarrow> bool" where
  "watched owner r \<longleftrightarrow>
     ls_enabled r = 1 \<and> (ls_provider r = ''github_repo'' \<or> ls_provider r = ''github_org'') \<and>
     (owner = None \<and> ls_owner_id r = None \<or> owner \<noteq> None \<and> ls_owner_id r = owner)"

definition enabled_github_sources :: "bool \<Rightarrow> db \<Rightarrow> int option \<Rightarrow> (store_error, leak_source list) result" where
  "enabled_github_sources up D owner =
     (if \<not> up then Inl DbFailed
      else Inr (map (\<lambda>r. \<lparr>ks_id = ls_id r, ks_provider = ls_provider r, ks_identifier = ls_identifier r\<rparr>)
             (filter (watched owner) (db_sources D))))"

definition touch_leak_source :: "clock \<Rightarrow> bool \<Rightarrow> db \<Rightarrow> int \<Rightarrow> (store_error, db) result" where
  "touch_leak_source ck up D i =
     (if \<not> up then Inl DbFailed
      else Inr (D\<lparr>db_sources := map (\<lambda>r. if ls_id r = i then r\<lparr>ls_last_scanned_at := Some (ck_stamp ck)\<rparr> else r)
             (db_sources D)\<rparr>))"

definition tokens_for :: "clock \<Rightarrow> db \<Rightarrow> int \<Rightarrow> leak_token list" where
  "tokens_for ck D i =
     map (\<lambda>t. \<lparr>lt_id = tk_id t, lt_hash = tk_hash t, lt_revoked = tk_revoked_at t \<noteq> None,
               lt_expired = (case tk_expires_at t of None \<Rightarrow> False | Some e \<Rightarrow> str_less e (ck_stamp ck))\<rparr>)
       (filter (\<lambda>t. tk_ap_id t = i) (db_tokens D))"

definition scannable :: "db \<Rightarrow> int option \<Rightarrow> ap_row \<Rightarrow> bool" where
  "scannable D owner a \<longleftrightarrow>
     ap_status a = ''active'' \<and>
     (case stream_by_id D (ap_stream_id a) of
        None \<Rightarrow> False
      | Some st \<Rightarrow> st_status st = ''active'' \<and> (owner = None \<or> st_owner_id st = owner))"

definition leak_ap_of :: "clock \<Rightarrow> db \<Rightarrow> ap_row \<Rightarrow> leak_ap" where
  "leak_ap_of ck D a =
     \<lparr>la_id = ap_id a, la_stream_id = ap_stream_id a, la_public_path = ap_public_path a,
      la_visibility = ap_visibility a, la_path_is_secret = ap_path_is_secret a \<noteq> 0,
      la_tokens = tokens_for ck D (ap_id a)\<rparr>"

text \<open>One query for the access points and one for the tokens of each; \<open>up\<close> says of the n-th whether it is
  answered.\<close>

definition active_access_points ::
  "clock \<Rightarrow> (nat \<Rightarrow> bool) \<Rightarrow> db \<Rightarrow> int option \<Rightarrow> (store_error, leak_ap list) result" where
  "active_access_points ck up D owner =
     (let rows = filter (scannable D owner) (db_aps D)
      in if list_all up [0 ..< Suc (length rows)] then Inr (map (leak_ap_of ck D) rows) else Inl DbFailed)"

section \<open>Findings and incidents\<close>

definition open_status :: "string \<Rightarrow> bool" where
  "open_status s \<longleftrightarrow> s = ''new'' \<or> s = ''probable'' \<or> s = ''confirmed''"

text \<open>An incident without a token is shared by all access points of the stream.\<close>

definition open_incident :: "leak_match \<Rightarrow> incident_row \<Rightarrow> bool" where
  "open_incident m r \<longleftrightarrow>
     in_stream_id r = Some (lm_stream_id m) \<and> in_token_id r = lm_token_id m \<and> open_status (in_status r)"

text \<open>Foreign keys of the rows a match leads to.\<close>

definition token_known :: "db \<Rightarrow> int option \<Rightarrow> bool" where
  "token_known D i = (case i of None \<Rightarrow> True | Some i \<Rightarrow> token_by_id D i \<noteq> None)"

definition find_or_create_incident ::
  "leak_env \<Rightarrow> db \<Rightarrow> leak_match \<Rightarrow> string \<Rightarrow> string \<Rightarrow> string \<Rightarrow> (store_error, int \<times> db) result" where
  "find_or_create_incident E D m source source_url default_status =
     (case List.find (open_incident m) (db_incidents D) of
        Some r \<Rightarrow> Inr (in_id r, D)
      | None \<Rightarrow>
          if stream_by_id D (lm_stream_id m) = None \<or> \<not> token_known D (lm_token_id m) then Inl DbFailed
          else (let i = next_rowid (map in_id (db_incidents D));
                    row = \<lparr>in_id = i, in_stream_id = Some (lm_stream_id m), in_token_id = lm_token_id m,
                           in_source = source, in_source_url = source_url, in_status = default_status,
                           in_actions = Some (hc_print (le_history E)
                             [[(''actor'', ''leakchecker''), (''at'', le_at E), (''to'', default_status)]])\<rparr>
                in Inr (i, D\<lparr>db_incidents := db_incidents D @ [row]\<rparr>)))"

definition default_status :: "confidence \<Rightarrow> string" where
  "default_status c = (if c = Confirmed then ''probable'' else ''new'')"

definition incident_of_match ::
  "leak_env \<Rightarrow> db \<Rightarrow> leak_match \<Rightarrow> string \<Rightarrow> string \<Rightarrow> (store_error, int option \<times> db) result" where
  "incident_of_match E D m source source_url =
     (if lm_confidence m = Mention then Inr (None, D)
      else (case find_or_create_incident E D m source source_url (default_status (lm_confidence m)) of
              Inl e \<Rightarrow> Inl e
            | Inr (i, D') \<Rightarrow> Inr (Some i, D')))"

definition new_finding :: "db \<Rightarrow> leak_match \<Rightarrow> string \<Rightarrow> string \<Rightarrow> string \<Rightarrow> int option \<Rightarrow> finding_row" where
  "new_finding D m source source_url key incident =
     \<lparr>fi_id = next_rowid (map fi_id (db_findings D)), fi_incident_id = incident, fi_source = source,
      fi_source_url = source_url, fi_matched = lm_value m, fi_confidence = confidence_text (lm_confidence m),
      fi_dedupe_key = key, fi_ap_id = Some (lm_ap_id m), fi_token_id = lm_token_id m\<rparr>"

definition upgraded_finding :: "leak_match \<Rightarrow> int option \<Rightarrow> finding_row \<Rightarrow> finding_row" where
  "upgraded_finding m incident r =
     r\<lparr>fi_confidence := confidence_text (lm_confidence m), fi_matched := lm_value m,
       fi_incident_id := (case incident of None \<Rightarrow> fi_incident_id r | Some i \<Rightarrow> Some i),
       fi_token_id := (case lm_token_id m of None \<Rightarrow> fi_token_id r | Some i \<Rightarrow> Some i)\<rparr>"

definition record_match ::
  "leak_env \<Rightarrow> bool \<Rightarrow> db \<Rightarrow> leak_match \<Rightarrow> string \<Rightarrow> string \<Rightarrow> (store_error, bool \<times> int option) result \<times> db" where
  "record_match E up D m source source_url =
     (let key = dedupe_key (le_hashes E) source source_url (lm_value m);
          existing = List.find (\<lambda>r. fi_dedupe_key r = key) (db_findings D)
      in if \<not> up then (Inl DbFailed, D)
         else (case existing of
                 Some r \<Rightarrow>
                   if confidence_of (fi_confidence r) \<ge> lm_confidence m then (Inr (False, fi_incident_id r), D)
                   else (case incident_of_match E D m source source_url of
                           Inl e \<Rightarrow> (Inl e, D)
                         | Inr (i, D') \<Rightarrow>
                             if \<not> token_known D (lm_token_id m) then (Inl DbFailed, D)
                             else (Inr (True, i),
                                   D'\<lparr>db_findings := map (\<lambda>x. if fi_id x = fi_id r then upgraded_finding m i x else x)
                                        (db_findings D')\<rparr>))
               | None \<Rightarrow>
                   (case incident_of_match E D m source source_url of
                      Inl e \<Rightarrow> (Inl e, D)
                    | Inr (i, D') \<Rightarrow>
                        if ap_by_id D (lm_ap_id m) = None \<or> \<not> token_known D (lm_token_id m) then (Inl DbFailed, D)
                        else (Inr (True, i),
                              D'\<lparr>db_findings := db_findings D' @ [new_finding D' m source source_url key i]\<rparr>))))"

section \<open>Runs\<close>

record run_summary =
  rs_streams_checked :: int
  rs_queries_made :: int
  rs_findings_created :: int
  rs_auto_revoked :: int
  rs_replies_posted :: int
  rs_err :: "string option"

definition empty_summary :: run_summary where
  "empty_summary =
     \<lparr>rs_streams_checked = 0, rs_queries_made = 0, rs_findings_created = 0, rs_auto_revoked = 0,
      rs_replies_posted = 0, rs_err = None\<rparr>"

definition start_run :: "clock \<Rightarrow> bool \<Rightarrow> db \<Rightarrow> int option \<Rightarrow> (store_error, int \<times> db) result" where
  "start_run ck up D owner =
     (if \<not> up \<or> (case owner of None \<Rightarrow> False | Some o' \<Rightarrow> operator_by_id D o' = None) then Inl DbFailed
      else (let i = next_rowid (map rn_id (db_runs D))
            in Inr (i, D\<lparr>db_runs := db_runs D @
                 [\<lparr>rn_id = i, rn_started_at = ck_stamp ck, rn_finished_at = None, rn_streams_checked = 0,
                   rn_queries_made = 0, rn_findings_created = 0, rn_error = None, rn_owner_id = owner\<rparr>]\<rparr>)))"

definition finish_run :: "clock \<Rightarrow> bool \<Rightarrow> db \<Rightarrow> int \<Rightarrow> run_summary \<Rightarrow> (store_error, db) result" where
  "finish_run ck up D run_id summary =
     (if \<not> up then Inl DbFailed
      else Inr (D\<lparr>db_runs := map (\<lambda>r. if rn_id r = run_id
             then r\<lparr>rn_finished_at := Some (ck_stamp ck), rn_streams_checked := rs_streams_checked summary,
                    rn_queries_made := rs_queries_made summary, rn_findings_created := rs_findings_created summary,
                    rn_error := rs_err summary\<rparr>
             else r) (db_runs D)\<rparr>))"

section \<open>Lemmas\<close>

text \<open>There is a finding for a key that is at least as strong as a confidence.\<close>

definition has_finding :: "db \<Rightarrow> string \<Rightarrow> confidence \<Rightarrow> bool" where
  "has_finding D key c \<longleftrightarrow> (\<exists>r \<in> set (db_findings D). fi_dedupe_key r = key \<and> c \<le> confidence_of (fi_confidence r))"

definition findings_ok :: "db \<Rightarrow> bool" where
  "findings_ok D \<longleftrightarrow> distinct (map fi_id (db_findings D)) \<and> distinct (map fi_dedupe_key (db_findings D))"

lemma incident_of_match_findings:
  "incident_of_match E D m source url = Inr (i, D') \<Longrightarrow> db_findings D' = db_findings D"
  by (auto simp: incident_of_match_def find_or_create_incident_def Let_def split: if_splits sum.splits option.splits)

text \<open>The three ways a match can be recorded.\<close>

lemma record_match_cases:
  assumes "record_match E up D m source url = (res, D')"
  obtains (failed) e where "res = Inl e" "D' = D"
  | (known) r where "List.find (\<lambda>r. fi_dedupe_key r = dedupe_key (le_hashes E) source url (lm_value m)) (db_findings D) = Some r"
      "lm_confidence m \<le> confidence_of (fi_confidence r)" "res = Inr (False, fi_incident_id r)" "D' = D" "up"
  | (upgraded) r i D1 where "List.find (\<lambda>r. fi_dedupe_key r = dedupe_key (le_hashes E) source url (lm_value m)) (db_findings D) = Some r"
      "\<not> lm_confidence m \<le> confidence_of (fi_confidence r)" "incident_of_match E D m source url = Inr (i, D1)"
      "res = Inr (True, i)"
      "D' = D1\<lparr>db_findings := map (\<lambda>x. if fi_id x = fi_id r then upgraded_finding m i x else x) (db_findings D1)\<rparr>"
  | (inserted) i D1 where "List.find (\<lambda>r. fi_dedupe_key r = dedupe_key (le_hashes E) source url (lm_value m)) (db_findings D) = None"
      "incident_of_match E D m source url = Inr (i, D1)" "res = Inr (True, i)"
      "D' = D1\<lparr>db_findings := db_findings D1 @
         [new_finding D1 m source url (dedupe_key (le_hashes E) source url (lm_value m)) i]\<rparr>"
proof (cases "up")
  case False
  with assms failed show ?thesis by (auto simp: record_match_def)
next
  case up: True
  show ?thesis
  proof (cases "List.find (\<lambda>r. fi_dedupe_key r = dedupe_key (le_hashes E) source url (lm_value m)) (db_findings D)")
    case None
    show ?thesis
    proof (cases "incident_of_match E D m source url")
      case (Inl e)
      with assms None up failed show ?thesis by (auto simp: record_match_def)
    next
      case (Inr p)
      with assms None up failed inserted [OF None] show ?thesis
        by (cases p) (auto simp: record_match_def split: if_splits)
    qed
  next
    case (Some r)
    show ?thesis
    proof (cases "lm_confidence m \<le> confidence_of (fi_confidence r)")
      case True
      with assms Some up known [OF Some] show ?thesis by (auto simp: record_match_def)
    next
      case False
      show ?thesis
      proof (cases "incident_of_match E D m source url")
        case (Inl e)
        with assms Some False up failed show ?thesis by (auto simp: record_match_def)
      next
        case (Inr p)
        with assms Some False up failed upgraded [OF Some False] show ?thesis
          by (cases p) (auto simp: record_match_def split: if_splits)
      qed
    qed
  qed
qed

lemma upgraded_finding_simps [simp]:
  "fi_id (upgraded_finding m i r) = fi_id r" "fi_dedupe_key (upgraded_finding m i r) = fi_dedupe_key r"
  "confidence_of (fi_confidence (upgraded_finding m i r)) = lm_confidence m"
  by (simp_all add: upgraded_finding_def)

lemma record_match_findings:
  assumes "record_match E up D m source url = (res, D')" and "findings_ok D"
  shows "findings_ok D'"
    and "has_finding D key c \<Longrightarrow> has_finding D' key c"
    and "is_ok res \<Longrightarrow> has_finding D' (dedupe_key (le_hashes E) source url (lm_value m)) (lm_confidence m)"
proof -
  let ?k = "dedupe_key (le_hashes E) source url (lm_value m)"
  let ?find = "List.find (\<lambda>r. fi_dedupe_key r = ?k) (db_findings D)"
  have "findings_ok D' \<and> (has_finding D key c \<longrightarrow> has_finding D' key c) \<and> (is_ok res \<longrightarrow> has_finding D' ?k (lm_confidence m))"
    using assms(1)
  proof (cases rule: record_match_cases)
    case failed
    then show ?thesis using assms(2) by simp
  next
    case (known r)
    then show ?thesis using assms(2) by (auto simp: has_finding_def dest: find_by_keyD)
  next
    case (upgraded r i D1)
    note f = incident_of_match_findings [OF upgraded(3)]
    from upgraded(1) have r: "r \<in> set (db_findings D)" "fi_dedupe_key r = ?k" by (auto dest: find_by_keyD)
    let ?u = "\<lambda>x. if fi_id x = fi_id r then upgraded_finding m i x else x"
    have one: "x = r" if "x \<in> set (db_findings D)" "fi_id x = fi_id r" for x
      using that r(1) assms(2) by (auto simp: findings_ok_def distinct_map dest: inj_onD)
    have "map fi_id (db_findings D') = map fi_id (db_findings D)"
      "map fi_dedupe_key (db_findings D') = map fi_dedupe_key (db_findings D)"
      using upgraded(5) f by simp_all
    with assms(2) have ok: "findings_ok D'" by (simp only: findings_ok_def)
    have old: "has_finding D' key c" if h: "has_finding D key c"
    proof -
      from h obtain x where x: "x \<in> set (db_findings D)" "fi_dedupe_key x = key" "c \<le> confidence_of (fi_confidence x)"
        by (auto simp: has_finding_def)
      have "c \<le> confidence_of (fi_confidence (?u x))"
      proof (cases "fi_id x = fi_id r")
        case True
        with one x have "c \<le> confidence_of (fi_confidence r)" by blast
        with upgraded(2) have "c \<le> lm_confidence m" by (meson linear order.trans)
        with True show ?thesis by simp
      next
        case False
        with x show ?thesis by simp
      qed
      moreover have "?u x \<in> set (db_findings D')" using x(1) upgraded(5) f by simp
      moreover have "fi_dedupe_key (?u x) = key" using x(2) by simp
      ultimately show ?thesis unfolding has_finding_def by blast
    qed
    have "?u r \<in> set (db_findings D')" using r(1) upgraded(5) f by simp
    with r(2) have "has_finding D' ?k (lm_confidence m)"
      unfolding has_finding_def by (intro bexI [of _ "?u r"]) simp_all
    with ok old show ?thesis by blast
  next
    case (inserted i D1)
    note f = incident_of_match_findings [OF inserted(2)]
    have "next_rowid (map fi_id (db_findings D)) \<notin> set (map fi_id (db_findings D))" by (rule next_rowid_fresh)
    moreover have "?k \<notin> set (map fi_dedupe_key (db_findings D))" using inserted(1) by (auto simp: find_None_iff)
    ultimately have "findings_ok D'" using assms(2) inserted(4) f by (auto simp: findings_ok_def new_finding_def)
    moreover have "has_finding D key c \<Longrightarrow> has_finding D' key c" "has_finding D' ?k (lm_confidence m)"
      using inserted(4) f by (auto simp: has_finding_def new_finding_def)
    ultimately show ?thesis by blast
  qed
  then show "findings_ok D'" and "has_finding D key c \<Longrightarrow> has_finding D' key c"
    and "is_ok res \<Longrightarrow> has_finding D' ?k (lm_confidence m)" by blast+
qed

text \<open>Recording what is recorded at least as strongly changes nothing.\<close>

lemma record_known_match:
  assumes "findings_ok D" and "has_finding D (dedupe_key (le_hashes E) source url (lm_value m)) (lm_confidence m)"
  shows "\<exists>i. record_match E True D m source url = (Inr (False, i), D)"
proof -
  from assms(2) obtain r where r: "r \<in> set (db_findings D)" "lm_confidence m \<le> confidence_of (fi_confidence r)"
    "fi_dedupe_key r = dedupe_key (le_hashes E) source url (lm_value m)" by (auto simp: has_finding_def)
  from assms(1) have "distinct (map fi_dedupe_key (db_findings D))" by (simp add: findings_ok_def)
  from find_by_key [OF this r(1)] r show ?thesis by (simp add: record_match_def)
qed


end
