(* ===== verification/LeakActions.thy ===== *)
theory LeakActions imports LeakStore Urls begin

text \<open>
  \<open>internal/leakcheck/actions.go\<close>: the response to a confirmed leak. Revoking the leaked credential,
  the public notice and who may get one, and what both leave on the incident.
\<close>

section \<open>Revocation\<close>

definition rotation_mode :: "bool \<Rightarrow> db \<Rightarrow> int \<Rightarrow> (store_error, string) result" where
  "rotation_mode up D i =
     (if \<not> up then Inl DbFailed
      else (case stream_by_id D i of None \<Rightarrow> Inl ErrNotFound | Some r \<Rightarrow> Inr (st_rotation_mode r)))"

definition incident_by_id :: "db \<Rightarrow> int \<Rightarrow> incident_row option" where
  "incident_by_id D i = List.find (\<lambda>r. in_id r = i) (db_incidents D)"

text \<open>The history with one entry more; a history that does not parse counts as what was read of it.\<close>

definition extend_history :: "leak_env \<Rightarrow> string option \<Rightarrow> history_entry \<Rightarrow> string" where
  "extend_history E actions entry =
     hc_print (le_history E)
       ((case actions of None \<Rightarrow> [] | Some a \<Rightarrow> if a = [] then [] else hc_parse (le_history E) a) @ [entry])"

definition revoke_token :: "clock \<Rightarrow> db \<Rightarrow> int \<Rightarrow> db" where
  "revoke_token ck D i =
     D\<lparr>db_tokens := map (\<lambda>t. if tk_id t = i \<and> tk_revoked_at t = None
        then t\<lparr>tk_revoked_at := Some (ck_stamp ck), tk_revoked_reason := Some ''leak_detected''\<rparr> else t) (db_tokens D)\<rparr>"

definition revoke_ap :: "clock \<Rightarrow> db \<Rightarrow> int \<Rightarrow> db" where
  "revoke_ap ck D i =
     D\<lparr>db_aps := map (\<lambda>a. if ap_id a = i \<and> ap_status a = ''active''
        then a\<lparr>ap_status := ''revoked'',
               ap_revoked_at := (case ap_revoked_at a of None \<Rightarrow> Some (ck_stamp ck) | Some r \<Rightarrow> Some r)\<rparr> else a)
        (db_aps D)\<rparr>"

definition revoke_target :: "leak_match \<Rightarrow> string" where
  "revoke_target m =
     (case lm_token_id m of Some i \<Rightarrow> ''token:'' @ format_int i | None \<Rightarrow> ''access_point:'' @ format_int (lm_ap_id m))"

definition revoke_leaked :: "clock \<Rightarrow> db \<Rightarrow> leak_match \<Rightarrow> bool \<times> db" where
  "revoke_leaked ck D m =
     (case lm_token_id m of
        Some i \<Rightarrow> (list_ex (\<lambda>t. tk_id t = i \<and> tk_revoked_at t = None) (db_tokens D), revoke_token ck D i)
      | None \<Rightarrow> (list_ex (\<lambda>a. ap_id a = lm_ap_id m \<and> ap_status a = ''active'') (db_aps D), revoke_ap ck D (lm_ap_id m)))"

definition confirm_entry :: "leak_env \<Rightarrow> bool \<Rightarrow> string \<Rightarrow> history_entry" where
  "confirm_entry E revoked_now target =
     (if revoked_now
      then [(''action'', ''auto_revoked''), (''actor'', ''leakchecker''), (''at'', le_at E), (''target'', target),
            (''to'', ''confirmed'')]
      else [(''actor'', ''leakchecker''), (''at'', le_at E), (''to'', ''confirmed'')])"

definition confirm_incident :: "leak_env \<Rightarrow> db \<Rightarrow> incident_row \<Rightarrow> history_entry \<Rightarrow> db" where
  "confirm_incident E D inc entry =
     D\<lparr>db_incidents := map (\<lambda>r. if in_id r = in_id inc
        then r\<lparr>in_status := ''confirmed'', in_actions := Some (extend_history E (in_actions inc) entry)\<rparr> else r)
        (db_incidents D)\<rparr>"

text \<open>The result is the target, whether it is revoked afterwards, and whether this call revoked it.\<close>

definition auto_revoke ::
  "leak_env \<Rightarrow> bool \<Rightarrow> db \<Rightarrow> leak_match \<Rightarrow> int \<Rightarrow> (store_error, string \<times> bool \<times> bool) result \<times> db" where
  "auto_revoke E up D m incident =
     (if lm_confidence m \<noteq> Confirmed then (Inr ([], False, False), D)
      else if \<not> up then (Inl DbFailed, D)
      else (case incident_by_id D incident of
              None \<Rightarrow> (Inl ErrNotFound, D)
            | Some inc \<Rightarrow>
                if \<not> open_status (in_status inc) then (Inr ([], False, False), D)
                else (let (revoked_now, D1) = revoke_leaked (le_clock E) D m;
                          D2 = (if revoked_now \<or> in_status inc \<noteq> ''confirmed''
                                then confirm_incident E D1 inc (confirm_entry E revoked_now (revoke_target m)) else D1)
                      in (Inr (revoke_target m, True, revoked_now), D2))))"

section \<open>Replies\<close>

definition list_separator :: "char \<Rightarrow> bool" where
  "list_separator c \<longleftrightarrow> c \<in> {CHR '','', CHR 0x0A, CHR 0x0D, CHR '' '', CHR 0x09}"

text \<open>\<open>strings.FieldsFunc\<close>\<close>

function fields_by :: "(char \<Rightarrow> bool) \<Rightarrow> string \<Rightarrow> string list" where
  "fields_by P [] = []"
| "fields_by P (c # s) =
     (if P c then fields_by P s
      else (c # takeWhile (\<lambda>d. \<not> P d) s) # fields_by P (dropWhile (\<lambda>d. \<not> P d) s))"
  by pat_completeness auto

termination
  by (relation "measure (length \<circ> snd)") (auto simp: le_imp_less_Suc length_dropWhile_le)

definition reply_allowlist :: "bool \<Rightarrow> db \<Rightarrow> (store_error, string list) result" where
  "reply_allowlist up D =
     (case leak_setting up D ''github_reply_allowlist'' of
        Inl e \<Rightarrow> Inl e
      | Inr None \<Rightarrow> Inr []
      | Inr (Some v) \<Rightarrow> Inr (map (\<lambda>f. to_lower (trim_space f)) (fields_by list_separator v)))"

definition has_reply :: "bool \<Rightarrow> db \<Rightarrow> string \<Rightarrow> (store_error, bool) result" where
  "has_reply up D url = (if \<not> up then Inl DbFailed else Inr (url \<in> rp_source_url ` set (db_replies D)))"

definition put_reply :: "reply_row \<Rightarrow> reply_row list \<Rightarrow> reply_row list" where
  "put_reply r rs = (if rp_source_url r \<in> rp_source_url ` set rs then rs else rs @ [r])"

definition reply_entry :: "leak_env \<Rightarrow> string \<Rightarrow> string \<Rightarrow> history_entry" where
  "reply_entry E actor comment_url =
     [(''action'', ''github_reply''), (''actor'', actor), (''at'', le_at E), (''target'', comment_url)]"

definition record_reply ::
  "leak_env \<Rightarrow> bool \<Rightarrow> db \<Rightarrow> string \<Rightarrow> int \<Rightarrow> string \<Rightarrow> string \<Rightarrow> (store_error, db) result" where
  "record_reply E up D url incident comment_url actor =
     (if \<not> up \<or> url \<notin> rp_source_url ` set (db_replies D) \<and> incident_by_id D incident = None then Inl DbFailed
      else (let row = \<lparr>rp_source_url = url, rp_incident_id = Some incident, rp_comment_url = comment_url, rp_actor = actor\<rparr>;
                actions = (case incident_by_id D incident of None \<Rightarrow> None | Some r \<Rightarrow> in_actions r)
            in Inr (D\<lparr>db_replies := put_reply row (db_replies D),
                      db_incidents := map (\<lambda>r. if in_id r = incident
                        then r\<lparr>in_actions := Some (extend_history E actions (reply_entry E actor comment_url))\<rparr> else r)
                        (db_incidents D)\<rparr>)))"

section \<open>Issue addresses\<close>

definition owner_char :: "char \<Rightarrow> bool" where
  "owner_char c \<longleftrightarrow> is_digit c \<or> of_char c \<in> {97..122 :: nat} \<or> of_char c \<in> {65..90 :: nat} \<or> c = CHR ''-''"

definition repo_char :: "char \<Rightarrow> bool" where
  "repo_char c \<longleftrightarrow> owner_char c \<or> c = CHR ''.'' \<or> c = CHR ''_''"

text \<open>The expression is anchored at both ends and its parts hold no slash, so the address is cut at
  slashes.\<close>

definition parse_issue_url :: "string \<Rightarrow> (string \<times> string \<times> int) option" where
  "parse_issue_url u =
     (if \<not> has_prefix u ''https://github.com/'' then None
      else (case split_on CHR ''/'' (drop 19 u) of
              [owner, repo, kind, number] \<Rightarrow>
                if owner \<noteq> [] \<and> list_all owner_char owner \<and> repo \<noteq> [] \<and> list_all repo_char repo \<and>
                   (kind = ''issues'' \<or> kind = ''pull'') \<and> number \<noteq> [] \<and> list_all is_digit number
                then (case parse_int64 number of
                        (n, ParseOk) \<Rightarrow> if n \<le> 0 then None else Some (owner, repo, n)
                      | _ \<Rightarrow> None)
                else None
            | _ \<Rightarrow> None))"

definition notice_image_path :: string where
  "notice_image_path = ''/_sv/notice.png?v=2''"

text \<open>The footer has a middle dot in UTF-8.\<close>

definition notice_body :: "url_lib \<Rightarrow> string \<Rightarrow> string \<Rightarrow> string" where
  "notice_body L base_url revoked_at =
     (let img = trim_right base_url ''/'' @ notice_image_path;
          banner = (case url_parse (ul_ops L) img of
             Some u \<Rightarrow> if u_scheme u = ''https'' \<or> u_scheme u = ''http''
               then [newline] @ ''<img src='' @ [quote] @ img @ [quote] @ '' alt='' @ [quote] @
                    ''Stream unavailable: link revoked'' @ [quote] @ '' width='' @ [quote] @ ''600'' @ [quote] @
                    ''>'' @ [newline]
               else []
           | None \<Rightarrow> [])
      in ''> [!CAUTION]'' @ [newline] @
         ''> **This stream link has been revoked and no longer works.**'' @ [newline] @
         ''> It was shared publicly, so its owner took it down. Re-posting it won'' @ [CHR 0x27] @ ''t bring it back.'' @ [newline] @
         banner @ [newline] @ ''<sub>Revoked '' @ revoked_at @ '' '' @ [CHR 0xC2, CHR 0xB7] @
         '' automated notice from StreamVault</sub>'')"

section \<open>Lemmas\<close>

text \<open>What each write of the checker leaves alone.\<close>

lemma incident_of_match_frame:
  assumes "incident_of_match E D m source url = Inr (i, D')"
  shows "D' = D\<lparr>db_incidents := db_incidents D'\<rparr>"
  using assms by (auto simp: incident_of_match_def find_or_create_incident_def Let_def split: if_splits sum.splits option.splits)

lemma record_match_frame:
  assumes "record_match E up D m source url = (res, D')"
  shows "D' = D\<lparr>db_incidents := db_incidents D', db_findings := db_findings D'\<rparr>"
  using assms
proof (cases rule: record_match_cases)
  case (upgraded r i D1)
  from incident_of_match_frame [OF upgraded(3)] upgraded(5) show ?thesis by (cases D1; cases D) simp
next
  case (inserted i D1)
  from incident_of_match_frame [OF inserted(2)] inserted(4) show ?thesis by (cases D1; cases D) simp
qed simp_all

lemma auto_revoke_frame:
  assumes "auto_revoke E up D m i = (res, D')"
  shows "D' = D\<lparr>db_tokens := db_tokens D', db_aps := db_aps D', db_incidents := db_incidents D'\<rparr>"
  using assms by (auto simp: auto_revoke_def revoke_leaked_def revoke_token_def revoke_ap_def confirm_incident_def Let_def
      split: if_splits option.splits)

lemma record_reply_frame:
  assumes "record_reply E up D url i comment actor = Inr D'"
  shows "D' = D\<lparr>db_replies := db_replies D', db_incidents := db_incidents D'\<rparr>"
    and "rp_source_url ` set (db_replies D') = insert url (rp_source_url ` set (db_replies D))"
  using assms by (auto simp: record_reply_def put_reply_def Let_def split: if_splits)

lemma touch_leak_source_frame:
  "touch_leak_source ck up D i = Inr D' \<Longrightarrow> D' = D\<lparr>db_sources := db_sources D'\<rparr>"
  by (auto simp: touch_leak_source_def split: if_splits)

text \<open>The incident a match is filed under is open, and it exists.\<close>

lemma incident_of_match_open:
  assumes "incident_of_match E D m source url = Inr (i, D')" and "lm_confidence m \<noteq> Mention"
    and "distinct (map in_id (db_incidents D))"
  obtains j inc where "i = Some j" "incident_by_id D' j = Some inc" "open_status (in_status inc)"
proof (cases "List.find (open_incident m) (db_incidents D)")
  case (Some r)
  then have r: "r \<in> set (db_incidents D)" "open_status (in_status r)" by (auto dest: find_Some_in simp: open_incident_def)
  have "incident_by_id D (in_id r) = Some r"
    unfolding incident_by_id_def by (rule find_by_key [OF assms(3) r(1)])
  moreover have "i = Some (in_id r)" "D' = D"
    using assms(1,2) Some by (auto simp: incident_of_match_def find_or_create_incident_def)
  ultimately show ?thesis using that r by blast
next
  case None
  let ?j = "next_rowid (map in_id (db_incidents D))"
  have "in_id x \<noteq> ?j" if "x \<in> set (db_incidents D)" for x
  proof
    assume "in_id x = ?j"
    with that have "?j \<in> set (map in_id (db_incidents D))" by (metis imageI list.set_map)
    with next_rowid_fresh show False by blast
  qed
  then have "List.find (\<lambda>r. in_id r = ?j) (db_incidents D) = None" by (simp add: find_None_iff)
  moreover have "open_status (default_status c)" for c by (simp add: default_status_def open_status_def)
  ultimately show ?thesis using assms(1,2) None that
    by (auto simp: incident_of_match_def find_or_create_incident_def incident_by_id_def find_append Let_def split: if_splits)
qed

text \<open>What automatic revocation does.\<close>

lemma auto_revoke_token:
  assumes "lm_confidence m = Confirmed" and "lm_token_id m = Some i"
    and "incident_by_id D j = Some inc" and "open_status (in_status inc)"
    and "auto_revoke E True D m j = (res, D')"
  shows "db_tokens D' = db_tokens (revoke_token (le_clock E) D i) \<and> db_aps D' = db_aps D \<and>
    (\<exists>now. res = Inr (revoke_target m, True, now))"
  using assms by (auto simp: auto_revoke_def revoke_leaked_def revoke_token_def confirm_incident_def Let_def
      split: if_splits)

lemma revoke_token_find:
  assumes "List.find (\<lambda>t. tk_ap_id t = a \<and> tk_hash t = h) (db_tokens D) = Some t"
  shows "\<exists>t'. List.find (\<lambda>t. tk_ap_id t = a \<and> tk_hash t = h) (db_tokens (revoke_token ck D i)) = Some t' \<and>
    tk_id t' = tk_id t \<and> (tk_id t = i \<longrightarrow> tk_revoked_at t' \<noteq> None)"
  using assms by (simp add: revoke_token_def find_map_upd)

lemma validate_revoked:
  assumes "List.find (\<lambda>t. tk_ap_id t = a \<and> tk_hash t = hex_encode (sha256 H raw)) (db_tokens D) = Some t"
    and "tk_revoked_at t \<noteq> None"
  shows "\<exists>info. validate_token H ck True D a raw = Inr info \<and> ti_status info = TokenRevoked \<and> ti_id info = tk_id t"
  using assms by (auto simp: validate_token_def Let_def)


end
