(* ===== verification/GitHub.thy ===== *)
theory GitHub imports Urls Int64 begin

text \<open>
  \<open>internal/leakcheck/github.go\<close>: the client of the GitHub search API. The n-th request is answered by a
  function of n and the request; JSON, the network and the clock are parameters. A wait for a rate
  limit window is one decision: go on, or give up.
\<close>

section \<open>Types\<close>

record rate_limit =
  rl_remaining :: int
  rl_reset :: time

definition no_limit :: rate_limit where
  "no_limit = \<lparr>rl_remaining = 0, rl_reset = zero_time\<rparr>"

record code_result =
  cr_url :: string
  cr_repo :: string
  cr_path :: string
  cr_fragments :: "string list"

record issue_result =
  ir_url :: string
  ir_title :: string
  ir_body :: string

record search_meta =
  se_limit :: rate_limit
  se_incomplete :: bool

datatype gh_error = RateLimited | GhRequest | GhNetwork string | GhRead | GhStatus int | GhDecode | GhKind

datatype gh_request = GhGet string string | GhPost string string

text \<open>An answer: a transport failure (with its deadline flag), or a status, the two rate limit headers
  (empty when absent), the body and whether it could be read to its end.\<close>

datatype gh_answer = GhDown bool | GhAnswer int string string bytes bool

record gh_client =
  gc_base_url :: string
  gc_token :: string
  gc_max_wait :: duration
  gc_limits :: "string \<rightharpoonup> rate_limit"
  gc_sent :: "gh_request list"

record gh_env =
  ge_urls :: url_lib
  ge_answer :: "nat \<Rightarrow> gh_request \<Rightarrow> gh_answer"
  ge_now :: "nat \<Rightarrow> time"
  ge_wait_ends :: "nat \<Rightarrow> bool"
  ge_ctx_done :: "nat \<Rightarrow> bool"
  ge_decode_code :: "bytes \<Rightarrow> (bool \<times> code_result list) option"
  ge_decode_issues :: "bytes \<Rightarrow> (bool \<times> issue_result list) option"
  ge_encode_comment :: "string \<Rightarrow> bytes"
  ge_decode_comment :: "bytes \<Rightarrow> string option"

definition new_client :: "string \<Rightarrow> gh_client" where
  "new_client token =
     \<lparr>gc_base_url = ''https://api.github.com'', gc_token = token, gc_max_wait = 0,
      gc_limits = Map.empty, gc_sent = []\<rparr>"

section \<open>Requests\<close>

definition endpoint_only :: "string \<Rightarrow> string" where
  "endpoint_only path = (case index_byte path CHR ''?'' of Some i \<Rightarrow> take i path | None \<Rightarrow> path)"

text \<open>\<open>time.Unix\<close>, counted from Go's zero time.\<close>

definition unix_time :: "int \<Rightarrow> time" where
  "unix_time secs = (secs + 62135596800) * second"

definition rate_limit_of :: "string \<Rightarrow> string \<Rightarrow> rate_limit" where
  "rate_limit_of remaining reset =
     \<lparr>rl_remaining = (if remaining = [] then 0 else fst (parse_int64 remaining)),
      rl_reset = (case parse_int64 reset of (secs, ParseOk) \<Rightarrow> unix_time secs | _ \<Rightarrow> zero_time)\<rparr>"

text \<open>\<open>io.LimitReader\<close>\<close>

fun limit_reader :: "int \<Rightarrow> bytes \<Rightarrow> bytes" where
  "limit_reader n [] = []"
| "limit_reader n (c # s) = (if n \<le> 0 then [] else c # limit_reader (n - 1) s)"

definition body_limit :: int where "body_limit = 8 * 1024 * 1024"

definition gh_send :: "gh_env \<Rightarrow> gh_client \<Rightarrow> gh_request \<Rightarrow> gh_answer \<times> gh_client" where
  "gh_send G c r = (ge_answer G (length (gc_sent c)) r, c\<lparr>gc_sent := gc_sent c @ [r]\<rparr>)"

definition do_once ::
  "gh_env \<Rightarrow> gh_client \<Rightarrow> string \<Rightarrow> string \<Rightarrow> (gh_error, bytes) result \<times> rate_limit \<times> gh_client" where
  "do_once G c path accept =
     (if url_parse (ul_ops (ge_urls G)) (gc_base_url c @ path) = None then (Inl GhRequest, no_limit, c)
      else (case gh_send G c (GhGet path accept) of
              (GhDown deadline, c') \<Rightarrow>
                (Inl (GhNetwork (if deadline then ''timeout'' else ''network error'')), no_limit, c')
            | (GhAnswer status remaining reset body complete, c') \<Rightarrow>
                (let rl = rate_limit_of remaining reset
                 in if \<not> complete \<and> int (length body) < body_limit then (Inl GhRead, rl, c')
                    else if (status = 403 \<or> status = 429) \<and> rl_remaining rl = 0 then (Inl RateLimited, rl, c')
                    else if status \<ge> 400 then (Inl (GhStatus status), rl, c')
                    else (Inr (limit_reader body_limit body), rl, c'))))"

text \<open>The time to wait saturates in \<open>time.Until\<close> and then wraps when the second is added.\<close>

definition reset_wait :: "time \<Rightarrow> rate_limit \<Rightarrow> duration" where
  "reset_wait now rl =
     (if rl_reset rl = zero_time then 60 * second else wrap64 (time_sub (rl_reset rl) now + second))"

definition wait_for_reset :: "gh_env \<Rightarrow> gh_client \<Rightarrow> rate_limit \<Rightarrow> bool" where
  "wait_for_reset G c rl =
     (let n = length (gc_sent c); wait = reset_wait (ge_now G n) rl
      in gc_max_wait c \<le> 0 \<or> wait \<le> 0 \<or> wait \<le> gc_max_wait c \<and> ge_wait_ends G n)"

text \<open>\<open>Client.do\<close> after the first wait: one request, and a second one after waiting out a window GitHub says is
  exhausted.\<close>

definition remember :: "string \<Rightarrow> rate_limit \<Rightarrow> gh_client \<Rightarrow> gh_client" where
  "remember bucket rl c = c\<lparr>gc_limits := (gc_limits c)(bucket \<mapsto> rl)\<rparr>"

definition gh_paced ::
  "gh_env \<Rightarrow> gh_client \<Rightarrow> string \<Rightarrow> string \<Rightarrow> (gh_error, bytes) result \<times> rate_limit \<times> gh_client" where
  "gh_paced G c path accept =
     (let bucket = endpoint_only path;
          (r, rl, c1) = do_once G c path accept
      in if r = Inl RateLimited \<and> gc_max_wait c1 > 0
         then (if \<not> wait_for_reset G c1 rl then (Inl RateLimited, rl, c1)
               else (let (r2, rl2, c2) = do_once G c1 path accept in (r2, rl2, remember bucket rl2 c2)))
         else (r, rl, remember bucket rl c1))"

definition gh_do ::
  "gh_env \<Rightarrow> gh_client \<Rightarrow> string \<Rightarrow> string \<Rightarrow> (gh_error, bytes) result \<times> rate_limit \<times> gh_client" where
  "gh_do G c path accept =
     (case gc_limits c (endpoint_only path) of
        Some prev \<Rightarrow>
          if rl_remaining prev = 0 \<and> \<not> wait_for_reset G c prev then (Inl RateLimited, prev, c)
          else gh_paced G c path accept
      | None \<Rightarrow> gh_paced G c path accept)"

section \<open>Searches\<close>

definition search_code ::
  "gh_env \<Rightarrow> gh_client \<Rightarrow> string \<Rightarrow> (gh_error, code_result list) result \<times> search_meta \<times> gh_client" where
  "search_code G c query =
     (let path = ''/search/code?q='' @ ul_query_escape (ge_urls G) query @ ''&per_page=30'';
          (r, rl, c') = gh_do G c path ''application/vnd.github.v3.text-match+json''
      in case r of
           Inl e \<Rightarrow> (Inl e, \<lparr>se_limit = rl, se_incomplete = False\<rparr>, c')
         | Inr body \<Rightarrow>
             (case ge_decode_code G body of
                None \<Rightarrow> (Inl GhDecode, \<lparr>se_limit = rl, se_incomplete = False\<rparr>, c')
              | Some (incomplete, items) \<Rightarrow> (Inr items, \<lparr>se_limit = rl, se_incomplete = incomplete\<rparr>, c')))"

text \<open>\<open>since\<close> is the formatted time, when there is one.\<close>

definition search_issues ::
  "gh_env \<Rightarrow> gh_client \<Rightarrow> string \<Rightarrow> string option \<Rightarrow> string \<Rightarrow>
   (gh_error, issue_result list) result \<times> search_meta \<times> gh_client" where
  "search_issues G c query since kind =
     (if kind \<noteq> ''issue'' \<and> kind \<noteq> ''pr'' then (Inl GhKind, \<lparr>se_limit = no_limit, se_incomplete = False\<rparr>, c)
      else (let q = query @ '' is:'' @ kind @ (case since of None \<Rightarrow> [] | Some t \<Rightarrow> '' updated:>'' @ t);
                path = ''/search/issues?q='' @ ul_query_escape (ge_urls G) q @ ''&per_page=30&sort=updated&order=desc'';
                (r, rl, c') = gh_do G c path ''application/vnd.github+json''
            in case r of
                 Inl e \<Rightarrow> (Inl e, \<lparr>se_limit = rl, se_incomplete = False\<rparr>, c')
               | Inr body \<Rightarrow>
                   (case ge_decode_issues G body of
                      None \<Rightarrow> (Inl GhDecode, \<lparr>se_limit = rl, se_incomplete = False\<rparr>, c')
                    | Some (incomplete, items) \<Rightarrow> (Inr items, \<lparr>se_limit = rl, se_incomplete = incomplete\<rparr>, c'))))"

definition build_anchor_query :: "string \<Rightarrow> string" where
  "build_anchor_query anc = quote # anc @ [quote]"

section \<open>Comments\<close>

definition comment_limit :: int where "comment_limit = 1024 * 1024"

definition post_issue_comment ::
  "gh_env \<Rightarrow> gh_client \<Rightarrow> string \<Rightarrow> string \<Rightarrow> int \<Rightarrow> string \<Rightarrow> (gh_error, string) result \<times> gh_client" where
  "post_issue_comment G c owner repo number body =
     (let path = ''/repos/'' @ ul_path_escape (ge_urls G) owner @ ''/'' @ ul_path_escape (ge_urls G) repo @
                 ''/issues/'' @ format_int number @ ''/comments''
      in if url_parse (ul_ops (ge_urls G)) (gc_base_url c @ path) = None then (Inl GhRequest, c)
         else (case gh_send G c (GhPost path (ge_encode_comment G body)) of
                 (GhDown _, c') \<Rightarrow> (Inl (GhNetwork ''network error''), c')
               | (GhAnswer status _ _ data _, c') \<Rightarrow>
                   if status \<noteq> 201 then (Inl (GhStatus status), c')
                   else (case ge_decode_comment G (limit_reader comment_limit data) of
                           None \<Rightarrow> (Inl GhDecode, c')
                         | Some url \<Rightarrow> (Inr url, c'))))"

section \<open>Properties\<close>

text \<open>
  A request that fails in transport leaves its endpoint marked as exhausted, although GitHub said
  nothing about it: when waiting is enabled for at least a minute, the next request to the endpoint first
  sleeps sixty seconds, and gives up without a request when that wait does not end.
\<close>

theorem transport_failure_paces:
  assumes "gc_limits c (endpoint_only path) = None"
    and "url_parse (ul_ops (ge_urls G)) (gc_base_url c @ path) \<noteq> None"
    and "ge_answer G (length (gc_sent c)) (GhGet path accept) = GhDown deadline"
    and "gh_do G c path accept = (r, rl, c')" and "gc_max_wait c \<ge> 60 * second"
  shows "gc_limits c' (endpoint_only path) = Some no_limit \<and> reset_wait now no_limit = 60 * second \<and>
    (endpoint_only path' = endpoint_only path \<longrightarrow> \<not> ge_wait_ends G (length (gc_sent c')) \<longrightarrow>
     gh_do G c' path' accept' = (Inl RateLimited, no_limit, c'))"
proof -
  have c': "c' = remember (endpoint_only path) no_limit (c\<lparr>gc_sent := gc_sent c @ [GhGet path accept]\<rparr>)"
    using assms(1-4) by (auto simp: gh_do_def gh_paced_def do_once_def gh_send_def Let_def)
  then have l: "gc_limits c' (endpoint_only path) = Some no_limit" "gc_max_wait c' = gc_max_wait c"
    by (simp_all add: remember_def)
  have w: "reset_wait t no_limit = 60 * second" for t by (simp add: reset_wait_def no_limit_def)
  have "gh_do G c' path' accept' = (Inl RateLimited, no_limit, c')"
    if "endpoint_only path' = endpoint_only path" "\<not> ge_wait_ends G (length (gc_sent c'))"
    using that l assms(5) by (simp add: gh_do_def wait_for_reset_def w Let_def) (simp add: no_limit_def)
  with l w show ?thesis by blast
qed

definition down_github :: gh_env where
  "down_github =
     \<lparr>ge_urls = \<lparr>ul_ops = \<lparr>url_parse = (\<lambda>s. Some \<lparr>u_scheme = ''https'', u_user = None, u_host = ''api.github.com'',
          u_path = s, u_raw_query = [], u_fragment = []\<rparr>), url_resolve = (\<lambda>b r. r)\<rparr>,
        ul_string = u_path, ul_path_escape = (\<lambda>s. s), ul_query_escape = (\<lambda>s. s), ul_quote = (\<lambda>s. s)\<rparr>,
      ge_answer = (\<lambda>n r. GhDown False), ge_now = (\<lambda>n. 0), ge_wait_ends = (\<lambda>n. False), ge_ctx_done = (\<lambda>n. False),
      ge_decode_code = (\<lambda>b. None), ge_decode_issues = (\<lambda>b. None), ge_encode_comment = (\<lambda>b. b),
      ge_decode_comment = (\<lambda>b. None)\<rparr>"

definition waiting_client :: gh_client where
  "waiting_client = (new_client ''t'')\<lparr>gc_max_wait := 90 * second\<rparr>"

theorem transport_failure_paces_witness:
  "gc_limits (snd (snd (gh_do down_github waiting_client ''/search/code?q=x'' ''json''))) ''/search/code'' = Some no_limit"
proof -
  let ?r = "gh_do down_github waiting_client ''/search/code?q=x'' ''json''"
  have e: "endpoint_only ''/search/code?q=x'' = ''/search/code''" by code_simp
  have "gc_limits (snd (snd ?r)) (endpoint_only ''/search/code?q=x'') = Some no_limit"
    by (rule transport_failure_paces [where r = "fst ?r" and rl = "fst (snd ?r)" and G = down_github and
          c = waiting_client and accept = "''json''" and deadline = False, THEN conjunct1])
       (simp_all add: down_github_def waiting_client_def new_client_def)
  with e show ?thesis by simp
qed

end
