(* ===== verification/GitHubLog.thy ===== *)
theory GitHubLog imports GitHub begin

text \<open>
  What the log of requests of \<open>internal/leakcheck/github.go\<close> (\<open>gc_sent\<close>) tells of a search and of a comment: a
  search only reads, and one that succeeds leaves in the log the request whose answer it returned; a comment is one
  POST, written out here.
\<close>

definition posts :: "gh_request list \<Rightarrow> gh_request list" where
  "posts log = filter (\<lambda>r. case r of GhGet _ _ \<Rightarrow> False | GhPost _ _ \<Rightarrow> True) log"

lemma posts_simps [simp]:
  "posts [] = []" "posts (log @ log') = posts log @ posts log'" "posts (GhGet p a # log) = posts log"
  "posts (GhPost p b # log) = GhPost p b # posts log"
  by (simp_all add: posts_def)

text \<open>The client after some requests that change nothing at GitHub.\<close>

definition only_reads :: "gh_client \<Rightarrow> gh_client \<Rightarrow> bool" where
  "only_reads c c' \<longleftrightarrow> (\<exists>log. gc_sent c' = gc_sent c @ log \<and> posts log = [])"

lemma only_reads_refl [simp, intro]: "only_reads c c"
  by (simp add: only_reads_def)

lemma only_reads_trans: "only_reads c c' \<Longrightarrow> only_reads c' c'' \<Longrightarrow> only_reads c c''"
  by (auto simp: only_reads_def)

lemma only_reads_posts: "only_reads c c' \<Longrightarrow> posts (gc_sent c') = posts (gc_sent c)"
  by (auto simp: only_reads_def)

text \<open>The request is in the log, and GitHub answered it with a success and this body, read to its end or to the limit.\<close>

definition answered :: "gh_env \<Rightarrow> gh_request list \<Rightarrow> gh_request \<Rightarrow> bytes \<Rightarrow> bool" where
  "answered G log r body \<longleftrightarrow>
     (\<exists>n status remaining reset data complete. n < length log \<and> log ! n = r \<and>
        ge_answer G n r = GhAnswer status remaining reset data complete \<and> status < 400 \<and>
        (complete \<or> body_limit \<le> int (length data)) \<and> body = limit_reader body_limit data)"

lemma answered_append: "answered G log r body \<Longrightarrow> answered G (log @ log') r body"
  unfolding answered_def by (metis (no_types) length_append nth_append trans_less_add1)

section \<open>Searches\<close>

lemma remember_sent [simp]: "gc_sent (remember b rl c) = gc_sent c"
  by (simp add: remember_def)

lemma do_once_log:
  assumes "do_once G c path accept = (r, rl, c')"
  shows "only_reads c c' \<and> (\<forall>body. r = Inr body \<longrightarrow> answered G (gc_sent c') (GhGet path accept) body)"
proof (cases "url_parse (ul_ops (ge_urls G)) (gc_base_url c @ path) = None")
  case True
  with assms show ?thesis by (auto simp: do_once_def)
next
  case False
  let ?n = "length (gc_sent c)"
  let ?c = "c\<lparr>gc_sent := gc_sent c @ [GhGet path accept]\<rparr>"
  have reads: "only_reads c ?c" by (simp add: only_reads_def)
  show ?thesis
  proof (cases "ge_answer G ?n (GhGet path accept)")
    case (GhDown d)
    with assms False reads show ?thesis by (auto simp: do_once_def gh_send_def)
  next
    case (GhAnswer status remaining reset data complete)
    with assms False have "c' = ?c"
      and "\<And>body. r = Inr body \<Longrightarrow> status < 400 \<and> (complete \<or> body_limit \<le> int (length data)) \<and> body = limit_reader body_limit data"
      by (auto simp: do_once_def gh_send_def Let_def split: if_splits)
    note c' = this
    have "answered G (gc_sent c') (GhGet path accept) body" if "r = Inr body" for body
      unfolding answered_def using GhAnswer c'(1) c'(2) [OF that]
      by (intro exI [of _ ?n] exI [of _ status] exI [of _ remaining] exI [of _ reset] exI [of _ data] exI [of _ complete])
         simp
    with reads c'(1) show ?thesis by blast
  qed
qed

lemma gh_paced_log:
  assumes "gh_paced G c path accept = (r, rl, c')"
  shows "only_reads c c' \<and> (\<forall>body. r = Inr body \<longrightarrow> answered G (gc_sent c') (GhGet path accept) body)"
proof -
  obtain r1 rl1 c1 where 1: "do_once G c path accept = (r1, rl1, c1)" by (rule prod_cases3)
  obtain r2 rl2 c2 where 2: "do_once G c1 path accept = (r2, rl2, c2)" by (rule prod_cases3)
  note d = do_once_log [OF 1] do_once_log [OF 2]
  have r: "only_reads c' (remember b l c')" "only_reads (remember b l c') c'" for b l c' by (simp_all add: only_reads_def)
  show ?thesis
  proof (cases "r1 = Inl RateLimited \<and> gc_max_wait c1 > 0")
    case True
    show ?thesis
    proof (cases "wait_for_reset G c1 rl1")
      case True
      with assms 1 2 \<open>r1 = Inl RateLimited \<and> _\<close> have "r = r2" "c' = remember (endpoint_only path) rl2 c2"
        by (auto simp: gh_paced_def)
      with d r show ?thesis by (auto intro: only_reads_trans)
    next
      case False
      with assms 1 2 True have "r = Inl RateLimited" "c' = c1" by (auto simp: gh_paced_def)
      with d show ?thesis by simp
    qed
  next
    case False
    with assms 1 have "r = r1" "c' = remember (endpoint_only path) rl1 c1" by (auto simp: gh_paced_def Let_def)
    with d r show ?thesis by (auto intro: only_reads_trans)
  qed
qed

lemma gh_do_log:
  assumes "gh_do G c path accept = (r, rl, c')"
  shows "only_reads c c' \<and> (\<forall>body. r = Inr body \<longrightarrow> answered G (gc_sent c') (GhGet path accept) body)"
  using assms gh_paced_log [of G c path accept r rl c'] by (auto simp: gh_do_def split: option.splits if_splits)

lemma search_code_log:
  assumes "search_code G c query = (r, meta, c')"
  shows "only_reads c c' \<and>
    (\<forall>items. r = Inr items \<longrightarrow>
       (\<exists>body. answered G (gc_sent c') (GhGet (''/search/code?q='' @ ul_query_escape (ge_urls G) query @ ''&per_page=30'')
            ''application/vnd.github.v3.text-match+json'') body \<and>
          ge_decode_code G body = Some (se_incomplete meta, items)))"
proof -
  let ?p = "''/search/code?q='' @ ul_query_escape (ge_urls G) query @ ''&per_page=30''"
  obtain r1 rl c1 where 1: "gh_do G c ?p ''application/vnd.github.v3.text-match+json'' = (r1, rl, c1)"
    by (rule prod_cases3)
  from gh_do_log [OF 1] assms 1 show ?thesis
    by (auto simp: search_code_def split: sum.splits option.splits)
qed

lemma search_issues_log:
  assumes "search_issues G c query None kind = (r, meta, c')"
  shows "only_reads c c' \<and>
    (\<forall>items. r = Inr items \<longrightarrow>
       (\<exists>body. answered G (gc_sent c') (GhGet (''/search/issues?q='' @ ul_query_escape (ge_urls G) (query @ '' is:'' @ kind) @
            ''&per_page=30&sort=updated&order=desc'') ''application/vnd.github+json'') body \<and>
          ge_decode_issues G body = Some (se_incomplete meta, items)))"
proof (cases "kind \<noteq> ''issue'' \<and> kind \<noteq> ''pr''")
  case True
  with assms show ?thesis by (auto simp: search_issues_def)
next
  case False
  let ?p = "''/search/issues?q='' @ ul_query_escape (ge_urls G) (query @ '' is:'' @ kind) @ ''&per_page=30&sort=updated&order=desc''"
  obtain r1 rl c1 where 1: "gh_do G c ?p ''application/vnd.github+json'' = (r1, rl, c1)"
    by (rule prod_cases3)
  from gh_do_log [OF 1] assms 1 False show ?thesis
    by (auto simp: search_issues_def split: sum.splits option.splits)
qed

section \<open>Comments\<close>

text \<open>A comment sends at most its one POST, and has sent it when it succeeded.\<close>

lemma post_issue_comment_log:
  assumes "post_issue_comment G c owner repo number text = (r, c')"
  shows "gc_sent c' = gc_sent c @ [GhPost (''/repos/'' @ ul_path_escape (ge_urls G) owner @ ''/'' @
        ul_path_escape (ge_urls G) repo @ ''/issues/'' @ format_int number @ ''/comments'') (ge_encode_comment G text)] \<or>
    c' = c \<and> (\<exists>e. r = Inl e)"
  using assms by (auto simp: post_issue_comment_def gh_send_def Let_def split: if_splits gh_answer.splits option.splits)

end
