(* ===== verification/LeakScan.thy ===== *)
theory LeakScan imports LeakActions GitHubLog begin

text \<open>
  \<open>internal/leakcheck/scanner.go\<close>: one pass over every active access point. The state holds the database, the
  GitHub client with the log of its requests, the summary of the run, and how many database operations were made so
  far (the environment says of each whether it is answered, and what the clock reads).
\<close>

section \<open>State\<close>

record scanner =
  sx_base_url :: string
  sx_owner :: "int option"

record scan_env =
  sv_leak :: leak_env
  sv_clock :: "nat \<Rightarrow> clock"
  sv_at :: "nat \<Rightarrow> string"
  sv_up :: "nat \<Rightarrow> bool"
  sv_notice_time :: "nat \<Rightarrow> string"
  sv_db_error :: string
  sv_github :: gh_env

record scan_state =
  sn_db :: db
  sn_gh :: gh_client
  sn_sum :: run_summary
  sn_calls :: nat

definition env_at :: "scan_env \<Rightarrow> nat \<Rightarrow> leak_env" where
  "env_at V n = (sv_leak V)\<lparr>le_clock := sv_clock V n, le_at := sv_at V n\<rparr>"

definition count_call :: "scan_state \<Rightarrow> scan_state" where
  "count_call st = st\<lparr>sn_calls := Suc (sn_calls st)\<rparr>"

definition with_sum :: "(run_summary \<Rightarrow> run_summary) \<Rightarrow> scan_state \<Rightarrow> scan_state" where
  "with_sum f st = st\<lparr>sn_sum := f (sn_sum st)\<rparr>"

definition add_findings :: "run_summary \<Rightarrow> run_summary" where
  "add_findings s = s\<lparr>rs_findings_created := rs_findings_created s + 1\<rparr>"

definition add_revoked :: "run_summary \<Rightarrow> run_summary" where
  "add_revoked s = s\<lparr>rs_auto_revoked := rs_auto_revoked s + 1\<rparr>"

definition add_reply :: "run_summary \<Rightarrow> run_summary" where
  "add_reply s = s\<lparr>rs_replies_posted := rs_replies_posted s + 1\<rparr>"

definition add_query :: "run_summary \<Rightarrow> run_summary" where
  "add_query s = s\<lparr>rs_queries_made := rs_queries_made s + 1\<rparr>"

definition add_stream :: "run_summary \<Rightarrow> run_summary" where
  "add_stream s = s\<lparr>rs_streams_checked := rs_streams_checked s + 1\<rparr>"

section \<open>Responding to a confirmed leak\<close>

text \<open>The public notice: allowlist, earlier reply, comment, record. \<open>True\<close> is a \<open>nil\<close> error.\<close>

definition post_notice ::
  "scanner \<Rightarrow> scan_env \<Rightarrow> string \<Rightarrow> string \<Rightarrow> int \<Rightarrow> string \<Rightarrow> int \<Rightarrow> scan_state \<Rightarrow> bool \<times> scan_state" where
  "post_notice X V owner repo number url incident st =
     (let n = sn_calls st;
          (res, c) = post_issue_comment (sv_github V) (sn_gh st) owner repo number
                       (notice_body (ge_urls (sv_github V)) (sx_base_url X) (sv_notice_time V n))
      in case res of
           Inl e \<Rightarrow> (False, st\<lparr>sn_gh := c\<rparr>)
         | Inr comment_url \<Rightarrow>
             (let st1 = count_call (with_sum add_reply (st\<lparr>sn_gh := c\<rparr>))
              in case record_reply (env_at V n) (sv_up V n) (sn_db st) url incident comment_url ''leakchecker'' of
                   Inl e \<Rightarrow> (False, st1)
                 | Inr D \<Rightarrow> (True, st1\<lparr>sn_db := D\<rparr>)))"

definition reply_publicly :: "scanner \<Rightarrow> scan_env \<Rightarrow> string \<Rightarrow> int \<Rightarrow> scan_state \<Rightarrow> bool \<times> scan_state" where
  "reply_publicly X V url incident st =
     (case parse_issue_url url of
        None \<Rightarrow> (True, st)
      | Some (owner, repo, number) \<Rightarrow>
          (case reply_allowlist (sv_up V (sn_calls st)) (sn_db st) of
             Inl e \<Rightarrow> (False, count_call st)
           | Inr allow \<Rightarrow>
               if to_lower (owner @ ''/'' @ repo) \<notin> set allow then (True, count_call st)
               else (case has_reply (sv_up V (Suc (sn_calls st))) (sn_db st) url of
                       Inl e \<Rightarrow> (False, count_call (count_call st))
                     | Inr True \<Rightarrow> (True, count_call (count_call st))
                     | Inr False \<Rightarrow> post_notice X V owner repo number url incident (count_call (count_call st)))))"

definition respond ::
  "scanner \<Rightarrow> scan_env \<Rightarrow> leak_match \<Rightarrow> int \<Rightarrow> string \<Rightarrow> string \<Rightarrow> scan_state \<Rightarrow> bool \<times> scan_state" where
  "respond X V m incident source url st =
     (let n = sn_calls st
      in case rotation_mode (sv_up V n) (sn_db st) (lm_stream_id m) of
           Inl e \<Rightarrow> (False, count_call st)
         | Inr mode \<Rightarrow>
             if mode \<noteq> ''auto'' then (True, count_call st)
             else (let (res, D) = auto_revoke (env_at V (Suc n)) (sv_up V (Suc n)) (sn_db st) m incident;
                       st1 = (count_call (count_call st))\<lparr>sn_db := D\<rparr>
                   in case res of
                        Inl e \<Rightarrow> (False, st1)
                      | Inr (target, inactive, revoked_now) \<Rightarrow>
                          (let st2 = (if revoked_now then with_sum add_revoked st1 else st1)
                           in if sx_owner X \<noteq> None \<or> \<not> inactive \<or>
                                 \<not> (has_prefix source ''github_issue'' \<or> has_prefix source ''github_pr'')
                              then (True, st2)
                              else reply_publicly X V url incident st2)))"

definition record_if_match ::
  "scanner \<Rightarrow> scan_env \<Rightarrow> leak_ap \<Rightarrow> string \<Rightarrow> string \<Rightarrow> string \<Rightarrow> scan_state \<Rightarrow> bool \<times> scan_state" where
  "record_if_match X V ap text source url st =
     (case classify (le_hashes (sv_leak V)) ap (sx_base_url X) text of
        None \<Rightarrow> (True, st)
      | Some m \<Rightarrow>
          (let n = sn_calls st;
               (res, D) = record_match (env_at V n) (sv_up V n) (sn_db st) m source url;
               st1 = (count_call st)\<lparr>sn_db := D\<rparr>
           in case res of
                Inl e \<Rightarrow> (False, st1)
              | Inr (created, incident) \<Rightarrow>
                  (let st2 = (if created then with_sum add_findings st1 else st1)
                   in case incident of
                        None \<Rightarrow> (True, st2)
                      | Some i \<Rightarrow> if lm_confidence m = Confirmed then respond X V m i source url st2 else (True, st2))))"

section \<open>Searching\<close>

record tally =
  ty_query_errors :: int
  ty_incomplete :: int
  ty_record_errors :: int

definition no_errors :: tally where
  "no_errors = \<lparr>ty_query_errors = 0, ty_incomplete = 0, ty_record_errors = 0\<rparr>"

fun record_all ::
  "scanner \<Rightarrow> scan_env \<Rightarrow> leak_ap \<Rightarrow> string \<Rightarrow> (string \<times> string) list \<Rightarrow> tally \<times> scan_state \<Rightarrow> tally \<times> scan_state" where
  "record_all X V ap source [] (ty, st) = (ty, st)"
| "record_all X V ap source ((text, url) # items) (ty, st) =
     (let (ok, st1) = record_if_match X V ap text source url st
      in record_all X V ap source items
           (if ok then ty else ty\<lparr>ty_record_errors := ty_record_errors ty + 1\<rparr>, st1))"

text \<open>
  What follows each of the three searches. The first component says that the run stops: the rate limit is
  exhausted.
\<close>

definition absorb_search ::
  "scanner \<Rightarrow> scan_env \<Rightarrow> leak_ap \<Rightarrow> string \<Rightarrow> (gh_error, (string \<times> string) list) result \<Rightarrow> search_meta \<Rightarrow>
   tally \<times> scan_state \<Rightarrow> bool \<times> tally \<times> scan_state" where
  "absorb_search X V ap source res meta = (\<lambda>(ty, st0).
     (let st = with_sum add_query st0
      in if res = Inl RateLimited then (True, ty, st)
         else (let ty1 = (if is_ok res then ty else ty\<lparr>ty_query_errors := ty_query_errors ty + 1\<rparr>);
                   ty2 = (if se_incomplete meta then ty1\<lparr>ty_incomplete := ty_incomplete ty1 + 1\<rparr> else ty1);
                   (ty3, st3) = record_all X V ap source (or_else res []) (ty2, st)
               in (rl_remaining (se_limit meta) = 0 \<and> gc_max_wait (sn_gh st3) = 0, ty3, st3))))"

definition code_items :: "code_result list \<Rightarrow> (string \<times> string) list" where
  "code_items rs = concat (map (\<lambda>r. map (\<lambda>f. (f, cr_url r)) (cr_fragments r)) rs)"

definition issue_items :: "issue_result list \<Rightarrow> (string \<times> string) list" where
  "issue_items rs = map (\<lambda>r. (ir_title r @ [newline] @ ir_body r, ir_url r)) rs"

definition code_pass ::
  "scanner \<Rightarrow> scan_env \<Rightarrow> leak_ap \<Rightarrow> string \<Rightarrow> string \<Rightarrow> tally \<times> scan_state \<Rightarrow> bool \<times> tally \<times> scan_state" where
  "code_pass X V ap query source = (\<lambda>(ty, st).
     (let (res, meta, c) = search_code (sv_github V) (sn_gh st) query
      in absorb_search X V ap source (map_sum id code_items res) meta (ty, st\<lparr>sn_gh := c\<rparr>)))"

text \<open>\<open>strings.Replace(issueSource, "issue", "pr", 1)\<close>\<close>

definition replace_first :: "string \<Rightarrow> string \<Rightarrow> string \<Rightarrow> string" where
  "replace_first s old new =
     (case str_index s old of None \<Rightarrow> s | Some i \<Rightarrow> take i s @ new @ drop (i + length old) s)"

definition issue_pass ::
  "scanner \<Rightarrow> scan_env \<Rightarrow> leak_ap \<Rightarrow> string \<Rightarrow> string \<Rightarrow> string \<Rightarrow> tally \<times> scan_state \<Rightarrow> bool \<times> tally \<times> scan_state" where
  "issue_pass X V ap query issue_source kind = (\<lambda>(ty, st).
     (let (res, meta, c) = search_issues (sv_github V) (sn_gh st) query None kind;
          source = (if kind = ''pr'' then replace_first issue_source ''issue'' ''pr'' else issue_source)
      in absorb_search X V ap source (map_sum id issue_items res) meta (ty, st\<lparr>sn_gh := c\<rparr>)))"

definition search_and_record ::
  "scanner \<Rightarrow> scan_env \<Rightarrow> leak_ap \<Rightarrow> string \<Rightarrow> string \<Rightarrow> string \<Rightarrow> tally \<times> scan_state \<Rightarrow> bool \<times> tally \<times> scan_state" where
  "search_and_record X V ap query code_source issue_source s0 =
     (let (stop1, s1) = code_pass X V ap query code_source s0
      in if stop1 then (True, s1)
         else (let (stop2, s2) = issue_pass X V ap query issue_source ''issue'' s1
               in if stop2 then (True, s2) else issue_pass X V ap query issue_source ''pr'' s2))"

section \<open>A run\<close>

definition scope_qualifier :: "leak_source \<Rightarrow> string" where
  "scope_qualifier src =
     (if ks_provider src = ''github_repo'' then ''repo:'' @ ks_identifier src
      else if ks_provider src = ''github_org'' then ''org:'' @ ks_identifier src
      else [])"

fun scan_sources ::
  "scanner \<Rightarrow> scan_env \<Rightarrow> leak_ap \<Rightarrow> leak_source list \<Rightarrow> tally \<times> scan_state \<Rightarrow> bool \<times> tally \<times> scan_state" where
  "scan_sources X V ap [] s = (False, s)"
| "scan_sources X V ap (src # srcs) s =
     (if scope_qualifier src = [] then scan_sources X V ap srcs s
      else (let (stop, ty, st) = search_and_record X V ap
                  (build_anchor_query (anchor ap (sx_base_url X)) @ '' '' @ scope_qualifier src)
                  (''github_code:'' @ ks_identifier src) (''github_issue:'' @ ks_identifier src) s
            in if stop then (True, ty, st)
               else (let n = sn_calls st
                     in case touch_leak_source (sv_clock V n) (sv_up V n) (sn_db st) (ks_id src) of
                          Inl e \<Rightarrow> scan_sources X V ap srcs (ty\<lparr>ty_record_errors := ty_record_errors ty + 1\<rparr>, count_call st)
                        | Inr D \<Rightarrow> scan_sources X V ap srcs (ty, (count_call st)\<lparr>sn_db := D\<rparr>))))"

definition scan_ap ::
  "scanner \<Rightarrow> scan_env \<Rightarrow> leak_source list \<Rightarrow> leak_ap \<Rightarrow> tally \<times> scan_state \<Rightarrow> bool \<times> tally \<times> scan_state" where
  "scan_ap X V srcs ap = (\<lambda>(ty, st).
     (let (stop, s1) = search_and_record X V ap (build_anchor_query (anchor ap (sx_base_url X)))
            ''github_code'' ''github_issue'' (ty, with_sum add_stream st)
      in if stop then (True, s1) else scan_sources X V ap srcs s1))"

definition stop_text :: "run_summary \<Rightarrow> string" where
  "stop_text s =
     ''stopped early: GitHub search rate limit exhausted after '' @ format_int (rs_streams_checked s) @ '' access points''"

definition partial_text :: "tally \<Rightarrow> run_summary \<Rightarrow> string" where
  "partial_text ty s =
     ''partial coverage: '' @ format_int (ty_query_errors ty) @ ''/'' @ format_int (rs_queries_made s) @
     '' queries failed, '' @ format_int (ty_incomplete ty) @ '' returned incomplete_results from GitHub, '' @
     format_int (ty_record_errors ty) @
     '' findings failed to record -- see logs for detail (never logged: search query text, to avoid leaking a path_is_secret anchor)''"

definition set_err :: "string \<Rightarrow> run_summary \<Rightarrow> run_summary" where
  "set_err e s = s\<lparr>rs_err := Some e\<rparr>"

fun scan_aps ::
  "scanner \<Rightarrow> scan_env \<Rightarrow> leak_source list \<Rightarrow> leak_ap list \<Rightarrow> tally \<times> scan_state \<Rightarrow> tally \<times> scan_state" where
  "scan_aps X V srcs [] s = s"
| "scan_aps X V srcs (ap # aps) (ty, st) =
     (if ge_ctx_done (sv_github V) (length (gc_sent (sn_gh st)))
      then (ty, with_sum (set_err ''context deadline exceeded'') st)
      else (let (stop, ty1, st1) = scan_ap X V srcs ap (ty, st)
            in if stop then (ty1, with_sum (set_err (stop_text (sn_sum st1))) st1)
               else scan_aps X V srcs aps (ty1, st1)))"

definition fold_errors :: "tally \<times> scan_state \<Rightarrow> scan_state" where
  "fold_errors = (\<lambda>(ty, st).
     (if rs_err (sn_sum st) = None \<and> (ty_query_errors ty > 0 \<or> ty_incomplete ty > 0 \<or> ty_record_errors ty > 0)
      then with_sum (set_err (partial_text ty (sn_sum st))) st else st))"

text \<open>The access points and the sources are loaded first; loading takes as many database operations as there are
  access points, and two more.\<close>

definition scan_run :: "scanner \<Rightarrow> scan_env \<Rightarrow> scan_state \<Rightarrow> scan_state" where
  "scan_run X V st0 =
     (let st = st0\<lparr>sn_sum := empty_summary\<rparr>; n = sn_calls st
      in case active_access_points (sv_clock V n) (\<lambda>i. sv_up V (n + i)) (sn_db st) (sx_owner X) of
           Inl e \<Rightarrow> with_sum (set_err (''loading access points: '' @ sv_db_error V)) (count_call st)
         | Inr aps \<Rightarrow>
             (let k = n + Suc (length aps)
              in case enabled_github_sources (sv_up V k) (sn_db st) (sx_owner X) of
                   Inl e \<Rightarrow> with_sum (set_err (''loading leak sources: '' @ sv_db_error V)) (st\<lparr>sn_calls := Suc k\<rparr>)
                 | Inr srcs \<Rightarrow> fold_errors (scan_aps X V srcs aps (no_errors, st\<lparr>sn_calls := Suc k\<rparr>))))"

section \<open>Invariants of a run\<close>

text \<open>
  A run changes the database in two places, where a text is recorded and where a source is touched; everything
  else it does to it is bookkeeping, and its searches only read. A property of the tallies and the state that
  these keep holds throughout.
\<close>

definition tallies_grow :: "tally \<Rightarrow> tally \<Rightarrow> bool" where
  "tallies_grow ty ty' \<longleftrightarrow>
     ty_query_errors ty \<le> ty_query_errors ty' \<and> ty_incomplete ty \<le> ty_incomplete ty' \<and>
     ty_record_errors ty \<le> ty_record_errors ty'"

locale scan_invariant =
  fixes X :: scanner and V :: scan_env and P :: "tally \<times> scan_state \<Rightarrow> bool"
  assumes frame: "P (ty, st) \<Longrightarrow> tallies_grow ty ty' \<Longrightarrow> ty_record_errors ty' = ty_record_errors ty \<Longrightarrow>
      sn_db st' = sn_db st \<Longrightarrow> only_reads (sn_gh st) (sn_gh st') \<Longrightarrow> P (ty', st')"
    and recorded: "P (ty, st) \<Longrightarrow> record_if_match X V ap text source url st = (ok, st') \<Longrightarrow>
      P (if ok then ty else ty\<lparr>ty_record_errors := ty_record_errors ty + 1\<rparr>, st')"
    and touch: "P (ty, st) \<Longrightarrow> touch_leak_source ck up (sn_db st) i = Inr D \<Longrightarrow> P (ty, st\<lparr>sn_db := D\<rparr>)"
    and failed: "P (ty, st) \<Longrightarrow> P (ty\<lparr>ty_record_errors := ty_record_errors ty + 1\<rparr>, st)"
begin

lemma same: "P (ty, st) \<Longrightarrow> sn_db st' = sn_db st \<Longrightarrow> sn_gh st' = sn_gh st \<Longrightarrow> P (ty, st')"
  by (rule frame [of ty st]) (simp_all add: tallies_grow_def)

lemma record_all_inv: "P s \<Longrightarrow> P (record_all X V ap source items s)"
proof (induction items arbitrary: s)
  case Nil
  then show ?case by (cases s) simp
next
  case (Cons i items)
  obtain tx url ty st where [simp]: "i = (tx, url)" "s = (ty, st)" by (metis surj_pair)
  obtain ok st1 where r: "record_if_match X V ap tx source url st = (ok, st1)" by fastforce
  from Cons.IH [OF recorded [OF Cons.prems [simplified] r]] show ?case by (simp add: r)
qed

lemma absorb_inv: "P s \<Longrightarrow> P (snd (absorb_search X V ap source res meta s))"
proof -
  assume P: "P s"
  obtain ty st0 where s: "s = (ty, st0)" by fastforce
  define st where "st = with_sum add_query st0"
  define ty2 where "ty2 = (let ty1 = (if is_ok res then ty else ty\<lparr>ty_query_errors := ty_query_errors ty + 1\<rparr>)
    in if se_incomplete meta then ty1\<lparr>ty_incomplete := ty_incomplete ty1 + 1\<rparr> else ty1)"
  have "P (ty2, st)"
    by (rule frame [OF P [unfolded s]]) (simp_all add: ty2_def st_def with_sum_def tallies_grow_def Let_def)
  then have "P (record_all X V ap source (or_else res []) (ty2, st))" by (rule record_all_inv)
  moreover have "P (ty, st)" by (rule same [OF P [unfolded s]]) (simp_all add: st_def with_sum_def)
  ultimately show ?thesis
    by (auto simp: absorb_search_def s st_def [symmetric] ty2_def Let_def split: prod.split)
qed

lemma pass_inv:
  "P s \<Longrightarrow> P (snd (code_pass X V ap query source s))"
  "P s \<Longrightarrow> P (snd (issue_pass X V ap query issue_source kind s))"
proof -
  assume P: "P s"
  obtain ty st where s: "s = (ty, st)" by fastforce
  have c: "P (ty, st\<lparr>sn_gh := c\<rparr>)" if "only_reads (sn_gh st) c" for c
    using that by (intro frame [OF P [unfolded s]]) (simp_all add: tallies_grow_def)
  show "P (snd (code_pass X V ap query source s))"
    using search_code_log [of "sv_github V" "sn_gh st" query]
    by (auto simp: code_pass_def s Let_def intro!: absorb_inv c split: prod.split)
  show "P (snd (issue_pass X V ap query issue_source kind s))"
    using search_issues_log [of "sv_github V" "sn_gh st" query kind]
    by (auto simp: issue_pass_def s Let_def intro!: absorb_inv c split: prod.split)
qed

lemma search_and_record_inv: "P s \<Longrightarrow> P (snd (search_and_record X V ap query code_source issue_source s))"
  by (auto simp: search_and_record_def Let_def split: prod.split dest: pass_inv)
     (metis pass_inv snd_conv)+

lemma scan_sources_inv: "P s \<Longrightarrow> P (snd (scan_sources X V ap srcs s))"
proof (induction srcs arbitrary: s)
  case Nil
  then show ?case by simp
next
  case (Cons src srcs)
  let ?s = "search_and_record X V ap (build_anchor_query (anchor ap (sx_base_url X)) @ '' '' @ scope_qualifier src)
                  (''github_code:'' @ ks_identifier src) (''github_issue:'' @ ks_identifier src) s"
  obtain stop ty st where r: "?s = (stop, ty, st)" by (metis prod_cases3)
  have P: "P (ty, st)" using search_and_record_inv [OF Cons.prems] r by (metis snd_conv)
  have c: "P (ty', count_call st)" if "P (ty', st)" for ty' by (rule same [OF that]) (simp_all add: count_call_def)
  let ?t = "touch_leak_source (sv_clock V (sn_calls st)) (sv_up V (sn_calls st)) (sn_db st) (ks_id src)"
  have t: "P (ty, (count_call st)\<lparr>sn_db := D\<rparr>)" if "?t = Inr D" for D
    using touch [OF c [OF P], of "sv_clock V (sn_calls st)" "sv_up V (sn_calls st)" "ks_id src" D] that
    by (simp add: count_call_def)
  show ?case
  proof (cases "scope_qualifier src = [] \<or> stop")
    case True
    then show ?thesis using Cons r P by auto
  next
    case False
    then show ?thesis
      using r Cons.IH [OF c [OF failed [OF P]]] Cons.IH [OF t] by (cases ?t) auto
  qed
qed

lemma scan_ap_inv: "P s \<Longrightarrow> P (snd (scan_ap X V srcs ap s))"
proof -
  assume P: "P s"
  obtain ty st where s: "s = (ty, st)" by fastforce
  have "P (ty, with_sum add_stream st)" by (rule same [OF P [unfolded s]]) (simp_all add: with_sum_def)
  from search_and_record_inv [OF this] show ?thesis
    by (auto simp: scan_ap_def s Let_def split: prod.split intro: scan_sources_inv)
       (metis scan_sources_inv search_and_record_inv snd_conv)+
qed

lemma scan_aps_inv: "P s \<Longrightarrow> P (scan_aps X V srcs aps s)"
proof (induction aps arbitrary: s)
  case Nil
  then show ?case by simp
next
  case (Cons ap aps)
  obtain ty st where s: "s = (ty, st)" by fastforce
  obtain stop ty1 st1 where r: "scan_ap X V srcs ap (ty, st) = (stop, ty1, st1)" by (metis prod_cases3)
  have P1: "P (ty1, st1)" using scan_ap_inv [OF Cons.prems [unfolded s], of srcs ap] r by simp
  have e: "P (ty', with_sum (set_err e) st')" if "P (ty', st')" for ty' st' e
    by (rule same [OF that]) (simp_all add: with_sum_def)
  show ?case using Cons.IH [OF P1] e [OF P1] e [OF Cons.prems [unfolded s]] r by (simp add: s)
qed

text \<open>The end of a run, when its loading succeeded and when it did not.\<close>

lemma scan_run_inv:
  assumes "P (no_errors, st0)"
  shows "\<exists>ty. P (ty, scan_run X V st0) \<and> (rs_err (sn_sum (scan_run X V st0)) = None \<longrightarrow> tallies_grow ty no_errors)"
proof -
  have b: "P (no_errors, st)" if "sn_db st = sn_db st0" "sn_gh st = sn_gh st0" for st
    using that by (intro same [OF assms]) simp_all
  have e: "\<exists>ty'. P (ty', fold_errors (ty, st)) \<and> (rs_err (sn_sum (fold_errors (ty, st))) = None \<longrightarrow> tallies_grow ty' no_errors)"
    if "P (ty, st)" for ty st
  proof (intro exI conjI)
    show "P (ty, fold_errors (ty, st))" by (rule same [OF that]) (simp_all add: fold_errors_def with_sum_def)
    show "rs_err (sn_sum (fold_errors (ty, st))) = None \<longrightarrow> tallies_grow ty no_errors"
      by (auto simp: fold_errors_def with_sum_def set_err_def tallies_grow_def no_errors_def)
  qed
  let ?st = "st0\<lparr>sn_sum := empty_summary\<rparr>"
  let ?a = "active_access_points (sv_clock V (sn_calls st0)) (\<lambda>i. sv_up V (sn_calls st0 + i)) (sn_db st0) (sx_owner X)"
  show ?thesis
  proof (cases ?a)
    case (Inl d)
    then show ?thesis
      by (auto simp: scan_run_def Let_def with_sum_def count_call_def set_err_def intro!: exI [of _ no_errors] b)
  next
    case (Inr aps)
    let ?k = "sn_calls st0 + Suc (length aps)"
    let ?g = "enabled_github_sources (sv_up V ?k) (sn_db st0) (sx_owner X)"
    show ?thesis
    proof (cases ?g)
      case (Inl d)
      with Inr show ?thesis
        by (auto simp: scan_run_def Let_def with_sum_def count_call_def set_err_def intro!: exI [of _ no_errors] b)
    next
      case (Inr srcs)
      have "P (scan_aps X V srcs aps (no_errors, ?st\<lparr>sn_calls := Suc ?k\<rparr>))"
        by (rule scan_aps_inv, rule b) simp_all
      then have "P (fst (scan_aps X V srcs aps (no_errors, ?st\<lparr>sn_calls := Suc ?k\<rparr>)),
                    snd (scan_aps X V srcs aps (no_errors, ?st\<lparr>sn_calls := Suc ?k\<rparr>)))" by simp
      from e [OF this] show ?thesis using Inr \<open>?a = Inr aps\<close> by (simp add: scan_run_def Let_def)
    qed
  qed
qed

end

end
