(* ===== verification/LeakSafety.thy ===== *)
theory LeakSafety imports LeakScan "HOL-Library.Code_Target_Nat" begin

text \<open>
  What a run of the leak checker guarantees (\<open>internal/leakcheck/scanner.go\<close> over \<open>store.go\<close> and
  \<open>actions.go\<close>): a run without an error missed nothing, comments go only where they may and once, and a live token
  found in public is revoked for the gateway.
\<close>


section \<open>What a response changes\<close>

abbreviation replied :: "db \<Rightarrow> string set" where
  "replied D \<equiv> rp_source_url ` set (db_replies D)"

text \<open>Somebody may be answered: the global scanner, about an issue of an allowlisted repository, that had no reply.\<close>

definition may_comment :: "scanner \<Rightarrow> db \<Rightarrow> string \<Rightarrow> bool" where
  "may_comment X D url \<longleftrightarrow>
     sx_owner X = None \<and> url \<notin> replied D \<and>
     (\<exists>owner repo number allow. parse_issue_url url = Some (owner, repo, number) \<and>
        reply_allowlist True D = Inr allow \<and> to_lower (owner @ ''/'' @ repo) \<in> set allow)"

text \<open>The request that posts the notice on the issue at an address: its repository, its number, the notice text.\<close>

definition notice_for :: "scanner \<Rightarrow> scan_env \<Rightarrow> string \<Rightarrow> gh_request \<Rightarrow> bool" where
  "notice_for X V url r \<longleftrightarrow>
     (\<exists>owner repo number n. parse_issue_url url = Some (owner, repo, number) \<and>
        r = GhPost (''/repos/'' @ ul_path_escape (ge_urls (sv_github V)) owner @ ''/'' @
                    ul_path_escape (ge_urls (sv_github V)) repo @ ''/issues/'' @ format_int number @ ''/comments'')
              (ge_encode_comment (sv_github V) (notice_body (ge_urls (sv_github V)) (sx_base_url X) (sv_notice_time V n))))"

definition sent_to :: "scan_state \<Rightarrow> gh_request list" where
  "sent_to st = gc_sent (sn_gh st)"

text \<open>No comment, or one comment that was allowed and is on file when all went well.\<close>

definition comment_effect :: "scanner \<Rightarrow> scan_env \<Rightarrow> string \<Rightarrow> bool \<Rightarrow> scan_state \<Rightarrow> scan_state \<Rightarrow> bool" where
  "comment_effect X V url ok st st' \<longleftrightarrow>
     sent_to st' = sent_to st \<and> replied (sn_db st') = replied (sn_db st) \<or>
     may_comment X (sn_db st) url \<and> (\<exists>r. sent_to st' = sent_to st @ [r] \<and> posts [r] = [r] \<and> notice_for X V url r) \<and>
     (replied (sn_db st') = insert url (replied (sn_db st)) \<or> \<not> ok \<and> replied (sn_db st') = replied (sn_db st))"

definition response_frame :: "scan_state \<Rightarrow> scan_state \<Rightarrow> bool" where
  "response_frame st st' \<longleftrightarrow>
     db_findings (sn_db st') = db_findings (sn_db st) \<and> db_settings (sn_db st') = db_settings (sn_db st)"

lemma count_call_simps [simp]:
  "sn_db (count_call st) = sn_db st" "sn_gh (count_call st) = sn_gh st"
  "sn_sum (count_call st) = sn_sum st" "sn_calls (count_call st) = Suc (sn_calls st)"
  "sent_to (count_call st) = sent_to st"
  by (simp_all add: count_call_def sent_to_def)

lemma with_sum_simps [simp]:
  "sn_db (with_sum f st) = sn_db st" "sn_gh (with_sum f st) = sn_gh st"
  "sn_sum (with_sum f st) = f (sn_sum st)" "sn_calls (with_sum f st) = sn_calls st"
  "sent_to (with_sum f st) = sent_to st"
  by (simp_all add: with_sum_def sent_to_def)

lemma sent_to_simps [simp]: "sent_to (st\<lparr>sn_db := D\<rparr>) = sent_to st" "sent_to (st\<lparr>sn_gh := c\<rparr>) = gc_sent c"
  by (simp_all add: sent_to_def)

lemma record_reply_keeps:
  "record_reply E up D url i comment actor = Inr D' \<Longrightarrow>
   db_findings D' = db_findings D \<and> db_settings D' = db_settings D \<and> replied D' = insert url (replied D)"
  using record_reply_frame by (metis (no_types) db.select_convs(6,10) db.surjective db.update_convs(9,14))

lemma auto_revoke_keeps:
  "auto_revoke E up D m i = (res, D') \<Longrightarrow>
   db_findings D' = db_findings D \<and> db_settings D' = db_settings D \<and> db_replies D' = db_replies D \<and>
   db_streams D' = db_streams D"
  by (auto simp: auto_revoke_def revoke_leaked_def revoke_token_def revoke_ap_def confirm_incident_def Let_def
      split: if_splits option.splits)

lemma post_notice_effect:
  assumes "post_notice X V owner repo number url i st = (ok, st')"
    and "parse_issue_url url = Some (owner, repo, number)" and "may_comment X (sn_db st) url"
  shows "response_frame st st' \<and> comment_effect X V url ok st st'"
proof -
  let ?G = "sv_github V"
  let ?text = "notice_body (ge_urls ?G) (sx_base_url X) (sv_notice_time V (sn_calls st))"
  let ?r = "GhPost (''/repos/'' @ ul_path_escape (ge_urls ?G) owner @ ''/'' @ ul_path_escape (ge_urls ?G) repo @
      ''/issues/'' @ format_int number @ ''/comments'') (ge_encode_comment ?G ?text)"
  obtain res c where p: "post_issue_comment ?G (sn_gh st) owner repo number ?text = (res, c)" by fastforce
  have notice: "notice_for X V url ?r" unfolding notice_for_def using assms(2) by blast
  from post_issue_comment_log [OF p]
  have log: "gc_sent c = sent_to st @ [?r] \<or> gc_sent c = sent_to st \<and> (\<exists>e. res = Inl e)"
    unfolding sent_to_def by auto
  show ?thesis
  proof (cases res)
    case (Inl e)
    with assms(1) p have "ok = False" "st' = st\<lparr>sn_gh := c\<rparr>" by (auto simp: post_notice_def)
    with log notice assms(3) show ?thesis by (auto simp: response_frame_def comment_effect_def)
  next
    case (Inr comment_url)
    let ?w = "record_reply (env_at V (sn_calls st)) (sv_up V (sn_calls st)) (sn_db st) url i comment_url ''leakchecker''"
    from log Inr have sent: "gc_sent c = sent_to st @ [?r]" by simp
    show ?thesis
    proof (cases ?w)
      case (Inl e)
      with assms(1) p \<open>res = Inr comment_url\<close>
      have "ok = False" "sn_db st' = sn_db st" "sent_to st' = gc_sent c" by (auto simp: post_notice_def Let_def)
      with sent notice assms(3) show ?thesis by (simp add: response_frame_def comment_effect_def)
    next
      case (Inr D)
      with assms(1) p \<open>res = Inr comment_url\<close>
      have "sn_db st' = D" "sent_to st' = gc_sent c" by (auto simp: post_notice_def Let_def)
      with sent notice assms(3) record_reply_keeps [OF Inr] show ?thesis
        by (simp add: response_frame_def comment_effect_def)
    qed
  qed
qed

lemma allowlist_up: "reply_allowlist up D = Inr allow \<Longrightarrow> reply_allowlist True D = Inr allow"
  by (auto simp: reply_allowlist_def leak_setting_def split: if_splits)

lemma has_reply_False: "has_reply up D url = Inr False \<Longrightarrow> url \<notin> replied D"
  by (auto simp: has_reply_def split: if_splits)

lemma comment_effect_none:
  "sent_to st' = sent_to st \<Longrightarrow> replied (sn_db st') = replied (sn_db st) \<Longrightarrow> comment_effect X V url ok st st'"
  by (simp add: comment_effect_def)

lemma reply_publicly_effect:
  assumes "reply_publicly X V url i st = (ok, st')" and "sx_owner X = None"
  shows "response_frame st st' \<and> comment_effect X V url ok st st'"
proof (cases "parse_issue_url url")
  case None
  with assms show ?thesis by (auto simp: reply_publicly_def response_frame_def intro: comment_effect_none)
next
  case (Some p)
  obtain owner repo number where p: "p = (owner, repo, number)" by (rule prod_cases3)
  show ?thesis
  proof (cases "reply_allowlist (sv_up V (sn_calls st)) (sn_db st)")
    case (Inl e)
    with assms Some p show ?thesis by (auto simp: reply_publicly_def response_frame_def intro: comment_effect_none)
  next
    case (Inr allow)
    show ?thesis
    proof (cases "to_lower (owner @ ''/'' @ repo) \<in> set allow \<and>
        has_reply (sv_up V (Suc (sn_calls st))) (sn_db st) url = Inr False")
      case False
      with assms Some p Inr show ?thesis
        by (auto simp: reply_publicly_def response_frame_def intro!: comment_effect_none
            split: if_splits sum.splits bool.splits)
    next
      case True
      have may: "may_comment X (sn_db (count_call (count_call st))) url"
        unfolding may_comment_def count_call_simps using assms(2) Some p Inr True allowlist_up has_reply_False by blast
      from assms(1) Some p Inr True
      have "post_notice X V owner repo number url i (count_call (count_call st)) = (ok, st')"
        by (simp add: reply_publicly_def)
      from post_notice_effect [OF this Some [unfolded p] may] show ?thesis
        by (simp add: comment_effect_def response_frame_def)
    qed
  qed
qed

lemma respond_effect:
  assumes "respond X V m i source url st = (ok, st')"
  shows "response_frame st st' \<and> comment_effect X V url ok st st'"
proof (cases "rotation_mode (sv_up V (sn_calls st)) (sn_db st) (lm_stream_id m) = Inr ''auto''")
  case False
  with assms show ?thesis
    by (auto simp: respond_def response_frame_def Let_def intro!: comment_effect_none split: sum.splits if_splits)
next
  case mode: True
  obtain res D where r: "auto_revoke (env_at V (Suc (sn_calls st))) (sv_up V (Suc (sn_calls st))) (sn_db st) m i = (res, D)"
    by fastforce
  note keeps = auto_revoke_keeps [OF r]
  show ?thesis
  proof (cases res)
    case (Inl e)
    with assms mode r keeps show ?thesis
      by (auto simp: respond_def response_frame_def Let_def intro!: comment_effect_none)
  next
    case (Inr p)
    obtain target inactive now where p: "p = (target, inactive, now)" by (rule prod_cases3)
    let ?st1 = "(count_call (count_call st))\<lparr>sn_db := D\<rparr>"
    let ?st2 = "if now then with_sum add_revoked ?st1 else ?st1"
    have same: "sn_db ?st2 = D" "sent_to ?st2 = sent_to st" by auto
    show ?thesis
    proof (cases "sx_owner X \<noteq> None \<or> \<not> inactive \<or> \<not> (has_prefix source ''github_issue'' \<or> has_prefix source ''github_pr'')")
      case True
      with assms mode r Inr p have "ok = True" "st' = ?st2" by (auto simp: respond_def Let_def)
      with keeps same show ?thesis by (simp add: response_frame_def comment_effect_none)
    next
      case False
      with assms mode r Inr p have "reply_publicly X V url i ?st2 = (ok, st')"
        by (auto simp: respond_def Let_def split: if_splits)
      from reply_publicly_effect [OF this] False have e: "response_frame ?st2 st' \<and> comment_effect X V url ok ?st2 st'"
        by simp
      have "may_comment X D url = may_comment X (sn_db st) url"
        using keeps by (simp add: may_comment_def reply_allowlist_def leak_setting_def)
      with e keeps same show ?thesis by (simp add: response_frame_def comment_effect_def)
    qed
  qed
qed

text \<open>Recording a text: what it adds to the findings, and the response it may lead to.\<close>

lemma record_if_match_effect:
  assumes "record_if_match X V ap tx source url st = (ok, st')"
  shows "db_settings (sn_db st') = db_settings (sn_db st) \<and> comment_effect X V url ok st st' \<and>
    (case classify (le_hashes (sv_leak V)) ap (sx_base_url X) tx of
       None \<Rightarrow> db_findings (sn_db st') = db_findings (sn_db st)
     | Some m \<Rightarrow>
         (\<exists>res D. record_match (env_at V (sn_calls st)) (sv_up V (sn_calls st)) (sn_db st) m source url = (res, D) \<and>
            db_findings (sn_db st') = db_findings D \<and> (ok \<longrightarrow> is_ok res)))"
proof (cases "classify (le_hashes (sv_leak V)) ap (sx_base_url X) tx")
  case None
  with assms show ?thesis by (auto simp: record_if_match_def Let_def comment_effect_def)
next
  case (Some m)
  obtain res D where r: "record_match (env_at V (sn_calls st)) (sv_up V (sn_calls st)) (sn_db st) m source url = (res, D)"
    by fastforce
  from record_match_frame [OF r]
  have D: "db_settings D = db_settings (sn_db st)" "db_replies D = db_replies (sn_db st)"
    by (metis (no_types) db.select_convs(6,14) db.surjective db.update_convs(9,10))+
  show ?thesis
  proof (cases res)
    case (Inl e)
    with assms Some r D show ?thesis
      by (auto simp: record_if_match_def Let_def comment_effect_def)
  next
    case (Inr p)
    obtain created incident where p: "p = (created, incident)" by fastforce
    let ?st1 = "(count_call st)\<lparr>sn_db := D\<rparr>"
    let ?st2 = "if created then with_sum add_findings ?st1 else ?st1"
    have same: "sn_db ?st2 = D" "sent_to ?st2 = sent_to st" by auto
    have may: "may_comment X D url = may_comment X (sn_db st) url"
      using D by (simp add: may_comment_def reply_allowlist_def leak_setting_def)
    consider (quiet) "st' = ?st2" "ok" | (response) i where "respond X V m i source url ?st2 = (ok, st')"
    proof -
      have "(case incident of None \<Rightarrow> (True, ?st2)
         | Some i \<Rightarrow> if lm_confidence m = Confirmed then respond X V m i source url ?st2 else (True, ?st2)) = (ok, st')"
        using assms Some r Inr p by (simp add: record_if_match_def Let_def)
      then show thesis using quiet response
        by (cases incident; cases "lm_confidence m = Confirmed") auto
    qed
    then have "db_settings (sn_db st') = db_settings (sn_db st) \<and>
      db_findings (sn_db st') = db_findings D \<and> comment_effect X V url ok st st'"
    proof cases
      case quiet
      with same D show ?thesis by (simp add: comment_effect_none)
    next
      case response
      from respond_effect [OF response] same D may show ?thesis
        by (simp add: response_frame_def comment_effect_def)
    qed
    with Some r Inr show ?thesis by auto
  qed
qed

section \<open>Nothing seen is lost\<close>

text \<open>A text that gives the access point away is on file as a finding at least as strong as the match.\<close>

definition on_file :: "scanner \<Rightarrow> scan_env \<Rightarrow> db \<Rightarrow> leak_ap \<Rightarrow> string \<Rightarrow> string \<Rightarrow> string \<Rightarrow> bool" where
  "on_file X V D ap text source url =
     (case classify (le_hashes (sv_leak V)) ap (sx_base_url X) text of
        None \<Rightarrow> True
      | Some m \<Rightarrow> has_finding D (dedupe_key (le_hashes (sv_leak V)) source url (lm_value m)) (lm_confidence m))"

lemma findings_cong:
  "db_findings D = db_findings D' \<Longrightarrow> findings_ok D = findings_ok D'"
  "db_findings D = db_findings D' \<Longrightarrow> has_finding D k c = has_finding D' k c"
  by (simp_all add: findings_ok_def has_finding_def)

lemma le_hashes_env_at [simp]: "le_hashes (env_at V n) = le_hashes (sv_leak V)"
  by (simp add: env_at_def)

text \<open>From one moment of a run to a later one: the tallies and the log grow, and no finding goes or weakens.\<close>

definition findings_grow :: "db \<Rightarrow> db \<Rightarrow> bool" where
  "findings_grow D D' \<longleftrightarrow>
     (findings_ok D \<longrightarrow> findings_ok D' \<and> (\<forall>k c. has_finding D k c \<longrightarrow> has_finding D' k c))"

definition grown :: "tally \<times> scan_state \<Rightarrow> tally \<times> scan_state \<Rightarrow> bool" where
  "grown s s' \<longleftrightarrow>
     tallies_grow (fst s) (fst s') \<and> (\<exists>log. sent_to (snd s') = sent_to (snd s) @ log) \<and>
     findings_grow (sn_db (snd s)) (sn_db (snd s'))"

lemma findings_grow_same: "db_findings D' = db_findings D \<Longrightarrow> findings_grow D D'"
  using findings_cong [of D D'] by (simp add: findings_grow_def)

lemma findings_grow_trans: "findings_grow D D' \<Longrightarrow> findings_grow D' D'' \<Longrightarrow> findings_grow D D''"
  by (simp add: findings_grow_def)

lemma tallies_grow_trans: "tallies_grow a b \<Longrightarrow> tallies_grow b c \<Longrightarrow> tallies_grow a c"
  by (simp add: tallies_grow_def)

lemma grown_refl [simp]: "grown s s"
  by (simp add: grown_def tallies_grow_def findings_grow_def)

lemma grown_trans: "grown s s' \<Longrightarrow> grown s' s'' \<Longrightarrow> grown s s''"
  by (auto simp: grown_def intro: tallies_grow_trans findings_grow_trans)

lemma record_if_match_sent:
  "record_if_match X V ap tx source url st = (ok, st') \<Longrightarrow> \<exists>log. sent_to st' = sent_to st @ log"
  using record_if_match_effect [of X V ap tx source url st ok st'] by (auto simp: comment_effect_def)

lemma record_if_match_findings:
  assumes r: "record_if_match X V ap tx source url st = (ok, st')"
  shows "findings_grow (sn_db st) (sn_db st')"
    and "findings_ok (sn_db st) \<Longrightarrow> ok \<Longrightarrow> on_file X V (sn_db st') ap tx source url"
proof -
  let ?H = "le_hashes (sv_leak V)"
  have "findings_grow (sn_db st) (sn_db st') \<and> (findings_ok (sn_db st) \<longrightarrow> ok \<longrightarrow> on_file X V (sn_db st') ap tx source url)"
  proof (cases "classify ?H ap (sx_base_url X) tx")
    case None
    with record_if_match_effect [OF r] show ?thesis by (simp add: on_file_def findings_grow_same)
  next
    case (Some m)
    with record_if_match_effect [OF r] obtain res D where rm:
      "record_match (env_at V (sn_calls st)) (sv_up V (sn_calls st)) (sn_db st) m source url = (res, D)"
      and f: "db_findings (sn_db st') = db_findings D" and ok: "ok \<longrightarrow> is_ok res" by auto
    have "findings_grow (sn_db st) D" using record_match_findings(1,2) [OF rm] by (simp add: findings_grow_def)
    moreover have "findings_grow D (sn_db st')" using f by (rule findings_grow_same)
    moreover have "on_file X V (sn_db st') ap tx source url" if "findings_ok (sn_db st)" ok
      using record_match_findings(3) [OF rm that(1)] that(2) ok Some findings_cong(2) [OF f] by (simp add: on_file_def)
    ultimately show ?thesis by (blast intro: findings_grow_trans)
  qed
  then show "findings_grow (sn_db st) (sn_db st')"
    and "findings_ok (sn_db st) \<Longrightarrow> ok \<Longrightarrow> on_file X V (sn_db st') ap tx source url" by blast+
qed

interpretation growth: scan_invariant X V "grown s0" for X V s0
proof
  fix ty ty' :: tally and st st' :: scan_state
  assume I: "grown s0 (ty, st)" and t: "tallies_grow ty ty'" and "sn_db st' = sn_db st" "only_reads (sn_gh st) (sn_gh st')"
  then have "grown (ty, st) (ty', st')"
    by (auto simp: grown_def only_reads_def sent_to_def findings_grow_def)
  with I show "grown s0 (ty', st')" by (rule grown_trans)
next
  fix ty st ap tx source url ok st'
  assume I: "grown s0 (ty, st)" and r: "record_if_match X V ap tx source url st = (ok, st')"
  have "grown (ty, st) (if ok then ty else ty\<lparr>ty_record_errors := ty_record_errors ty + 1\<rparr>, st')"
    using record_if_match_findings(1) [OF r] record_if_match_sent [OF r] by (simp add: grown_def tallies_grow_def)
  with I show "grown s0 (if ok then ty else ty\<lparr>ty_record_errors := ty_record_errors ty + 1\<rparr>, st')" by (rule grown_trans)
next
  fix ty st ck up i D
  assume I: "grown s0 (ty, st)" and t: "touch_leak_source ck up (sn_db st) i = Inr D"
  have "db_findings D = db_findings (sn_db st)" using t by (auto simp: touch_leak_source_def split: if_splits)
  then have "grown (ty, st) (ty, st\<lparr>sn_db := D\<rparr>)"
    by (simp add: grown_def tallies_grow_def findings_grow_same)
  with I show "grown s0 (ty, st\<lparr>sn_db := D\<rparr>)" by (rule grown_trans)
next
  fix ty st
  assume "grown s0 (ty, st)"
  then show "grown s0 (ty\<lparr>ty_record_errors := ty_record_errors ty + 1\<rparr>, st)"
    by (simp add: grown_def tallies_grow_def)
qed

section \<open>Comments\<close>

text \<open>The POSTs of a run so far are the notices for some addresses.\<close>

definition comments_ok :: "scanner \<Rightarrow> scan_env \<Rightarrow> scan_state \<Rightarrow> tally \<times> scan_state \<Rightarrow> bool" where
  "comments_ok X V st0 = (\<lambda>(ty, st).
     db_settings (sn_db st) = db_settings (sn_db st0) \<and> replied (sn_db st0) \<subseteq> replied (sn_db st) \<and> 0 \<le> ty_record_errors ty \<and>
     (\<exists>us rs. posts (sent_to st) = posts (sent_to st0) @ rs \<and> list_all2 (notice_for X V) us rs \<and>
        (\<forall>u \<in> set us. may_comment X (sn_db st0) u) \<and>
        (ty_record_errors ty = 0 \<longrightarrow> distinct us \<and> set us \<subseteq> replied (sn_db st))))"

lemma may_comment_before:
  "may_comment X D u \<Longrightarrow> db_settings D = db_settings D0 \<Longrightarrow> replied D0 \<subseteq> replied D \<Longrightarrow> may_comment X D0 u"
  by (auto simp: may_comment_def reply_allowlist_def leak_setting_def)

lemma comments_ok_record:
  assumes I: "comments_ok X V st0 (ty, st)" and r: "record_if_match X V ap tx source url st = (ok, st')"
  shows "comments_ok X V st0 (if ok then ty else ty\<lparr>ty_record_errors := ty_record_errors ty + 1\<rparr>, st')"
proof -
  from I obtain us rs where us: "posts (sent_to st) = posts (sent_to st0) @ rs" "list_all2 (notice_for X V) us rs"
      "\<forall>u \<in> set us. may_comment X (sn_db st0) u"
      "ty_record_errors ty = 0 \<longrightarrow> distinct us \<and> set us \<subseteq> replied (sn_db st)"
    and I': "db_settings (sn_db st) = db_settings (sn_db st0)" "replied (sn_db st0) \<subseteq> replied (sn_db st)"
      "0 \<le> ty_record_errors ty" by (auto simp: comments_ok_def)
  from record_if_match_effect [OF r] have s: "db_settings (sn_db st') = db_settings (sn_db st)"
    and "comment_effect X V url ok st st'" by blast+
  then consider (none) "sent_to st' = sent_to st" "replied (sn_db st') = replied (sn_db st)"
    | (one) q where "may_comment X (sn_db st) url" "sent_to st' = sent_to st @ [q]" "posts [q] = [q]" "notice_for X V url q"
        "replied (sn_db st') = insert url (replied (sn_db st)) \<or> \<not> ok \<and> replied (sn_db st') = replied (sn_db st)"
    by (auto simp: comment_effect_def)
  then show ?thesis
  proof cases
    case none
    with us I' s show ?thesis by (auto simp: comments_ok_def)
  next
    case one
    then have new: "url \<notin> replied (sn_db st)" by (simp add: may_comment_def)
    have "may_comment X (sn_db st0) url" using may_comment_before [OF one(1)] I' by simp
    moreover have "posts (sent_to st') = posts (sent_to st0) @ rs @ [q]" using us(1) one(2,3) by simp
    moreover have "list_all2 (notice_for X V) (us @ [url]) (rs @ [q])"
      using us(2) one(4) by (intro list_all2_appendI) simp_all
    moreover have "distinct (us @ [url]) \<and> set (us @ [url]) \<subseteq> replied (sn_db st')" if "ok" "ty_record_errors ty = 0"
      using that us(4) new one(5) by auto
    ultimately have "\<exists>us rs. posts (sent_to st') = posts (sent_to st0) @ rs \<and> list_all2 (notice_for X V) us rs \<and>
        (\<forall>u \<in> set us. may_comment X (sn_db st0) u) \<and>
        (ok \<and> ty_record_errors ty = 0 \<longrightarrow> distinct us \<and> set us \<subseteq> replied (sn_db st'))"
      using us(3) by (intro exI [of _ "us @ [url]"] exI [of _ "rs @ [q]"]) auto
    moreover have "replied (sn_db st0) \<subseteq> replied (sn_db st')" using I'(2) one(5) by auto
    ultimately show ?thesis using s I' by (auto simp: comments_ok_def)
  qed
qed

interpretation comments: scan_invariant X V "comments_ok X V st0" for X V st0
proof
  fix ty ty' :: tally and st st' :: scan_state
  assume "comments_ok X V st0 (ty, st)" "ty_record_errors ty' = ty_record_errors ty" "sn_db st' = sn_db st"
    "only_reads (sn_gh st) (sn_gh st')"
  then show "comments_ok X V st0 (ty', st')" by (simp add: comments_ok_def sent_to_def only_reads_posts)
next
  fix ty st ap tx source url ok st'
  assume "comments_ok X V st0 (ty, st)" "record_if_match X V ap tx source url st = (ok, st')"
  then show "comments_ok X V st0 (if ok then ty else ty\<lparr>ty_record_errors := ty_record_errors ty + 1\<rparr>, st')"
    by (rule comments_ok_record)
next
  fix ty st ck up i D
  assume I: "comments_ok X V st0 (ty, st)" and t: "touch_leak_source ck up (sn_db st) i = Inr D"
  have "db_settings D = db_settings (sn_db st)" "db_replies D = db_replies (sn_db st)"
    using t by (auto simp: touch_leak_source_def split: if_splits)
  with I show "comments_ok X V st0 (ty, st\<lparr>sn_db := D\<rparr>)" by (simp add: comments_ok_def)
next
  fix ty st
  assume "comments_ok X V st0 (ty, st)"
  then show "comments_ok X V st0 (ty\<lparr>ty_record_errors := ty_record_errors ty + 1\<rparr>, st)"
    by (fastforce simp: comments_ok_def)
qed

section \<open>Counting\<close>

definition summary_key :: "run_summary \<Rightarrow> int \<times> int \<times> string option" where
  "summary_key s = (rs_queries_made s, rs_streams_checked s, rs_err s)"

lemma summary_key_simps [simp]:
  "summary_key (add_findings s) = summary_key s" "summary_key (add_revoked s) = summary_key s"
  "summary_key (add_reply s) = summary_key s"
  by (simp_all add: summary_key_def add_findings_def add_revoked_def add_reply_def)

lemma post_notice_key:
  "summary_key (sn_sum (snd (post_notice X V owner repo number url i st))) = summary_key (sn_sum st)"
  by (auto simp: post_notice_def Let_def split: prod.split sum.split)

lemma reply_publicly_key:
  "summary_key (sn_sum (snd (reply_publicly X V url i st))) = summary_key (sn_sum st)"
  by (auto simp: reply_publicly_def post_notice_key split: option.split prod.split sum.split bool.split)

lemma respond_key:
  "summary_key (sn_sum (snd (respond X V m i source url st))) = summary_key (sn_sum st)"
  by (auto simp: respond_def Let_def reply_publicly_key split: prod.split sum.split)

lemma record_if_match_key:
  "summary_key (sn_sum (snd (record_if_match X V ap tx source url st))) = summary_key (sn_sum st)"
  by (auto simp: record_if_match_def Let_def respond_key split: prod.split sum.split option.split)

lemma record_all_key:
  "summary_key (sn_sum (snd (record_all X V ap source items s))) = summary_key (sn_sum (snd s))"
proof (induction items arbitrary: s)
  case Nil
  then show ?case by (cases s) simp
next
  case (Cons i items)
  obtain tx url ty st where s: "i = (tx, url)" "s = (ty, st)" by (metis surj_pair)
  obtain ok st1 where r: "record_if_match X V ap tx source url st = (ok, st1)" by (rule prod.exhaust)
  with record_if_match_key [of X V ap tx source url st] Cons.IH show ?case by (simp add: s)
qed

text \<open>A key moves by some queries and some access points.\<close>

definition key_moves :: "int \<Rightarrow> int \<Rightarrow> scan_state \<Rightarrow> scan_state \<Rightarrow> bool" where
  "key_moves q n st st' \<longleftrightarrow>
     summary_key (sn_sum st') =
       (rs_queries_made (sn_sum st) + q, rs_streams_checked (sn_sum st) + n, rs_err (sn_sum st))"

lemma key_moves_refl [simp]: "key_moves 0 0 st st"
  by (simp add: key_moves_def summary_key_def)

lemma key_moves_trans:
  "key_moves q n st st' \<Longrightarrow> key_moves q' n' st' st'' \<Longrightarrow> key_moves (q + q') (n + n') st st''"
  by (simp add: key_moves_def summary_key_def)

lemma absorb_moves: "key_moves 1 0 (snd s) (snd (snd (absorb_search X V ap source res meta s)))"
proof -
  obtain ty st where s: "s = (ty, st)" by fastforce
  have q: "summary_key (sn_sum (with_sum add_query st)) =
    (rs_queries_made (sn_sum st) + 1, rs_streams_checked (sn_sum st) + 0, rs_err (sn_sum st))"
    by (simp add: summary_key_def add_query_def)
  show ?thesis
  proof (cases "res = Inl RateLimited")
    case True
    with q show ?thesis by (simp add: absorb_search_def s key_moves_def)
  next
    case False
    define ty1 where "ty1 = (if is_ok res then ty else ty\<lparr>ty_query_errors := ty_query_errors ty + 1\<rparr>)"
    define ty2 where "ty2 = (if se_incomplete meta then ty1\<lparr>ty_incomplete := ty_incomplete ty1 + 1\<rparr> else ty1)"
    obtain ty3 st3 where r: "record_all X V ap source (or_else res []) (ty2, with_sum add_query st) = (ty3, st3)"
      by (rule prod.exhaust)
    with False have e: "snd (snd (absorb_search X V ap source res meta s)) = st3"
      by (cases "is_ok res"; cases "se_incomplete meta") (simp_all add: absorb_search_def s Let_def ty1_def ty2_def)
    from record_all_key [of X V ap source "or_else res []" "(ty2, with_sum add_query st)"] r q
    show ?thesis unfolding e by (simp add: s key_moves_def)
  qed
qed

lemma pass_moves:
  "key_moves 1 0 (snd s) (snd (snd (code_pass X V ap query source s)))"
  "key_moves 1 0 (snd s) (snd (snd (issue_pass X V ap query issue_source kind s)))"
proof -
  obtain ty st where s: "s = (ty, st)" by fastforce
  have c: "key_moves 1 0 (st\<lparr>sn_gh := c\<rparr>) st' = key_moves 1 0 st st'" for c st' by (simp add: key_moves_def)
  have "key_moves 1 0 st (snd (snd (absorb_search X V ap source' res meta (ty, st\<lparr>sn_gh := c\<rparr>))))" for source' res meta c
    using absorb_moves [of "(ty, st\<lparr>sn_gh := c\<rparr>)" X V ap source' res meta] c by simp
  then show "key_moves 1 0 (snd s) (snd (snd (code_pass X V ap query source s)))"
    and "key_moves 1 0 (snd s) (snd (snd (issue_pass X V ap query issue_source kind s)))"
    by (simp_all add: code_pass_def issue_pass_def s Let_def split: prod.split)
qed

lemma search_and_record_moves:
  assumes "search_and_record X V ap query code_source issue_source s = (False, s')"
  shows "key_moves 3 0 (snd s) (snd s')"
proof -
  obtain stop1 s1 where 1: "code_pass X V ap query code_source s = (stop1, s1)" by (rule prod.exhaust)
  obtain stop2 s2 where 2: "issue_pass X V ap query issue_source ''issue'' s1 = (stop2, s2)" by (rule prod.exhaust)
  from assms 1 2 have 3: "issue_pass X V ap query issue_source ''pr'' s2 = (False, s')"
    by (auto simp: search_and_record_def split: if_splits)
  have "key_moves 1 0 (snd s) (snd s1)" using pass_moves(1) [of s X V ap query code_source] by (simp add: 1)
  moreover have "key_moves 1 0 (snd s1) (snd s2)" using pass_moves(2) [of s1 X V ap query issue_source "''issue''"] by (simp add: 2)
  moreover have "key_moves 1 0 (snd s2) (snd s')" using pass_moves(2) [of s2 X V ap query issue_source "''pr''"] by (simp add: 3)
  ultimately have "key_moves (1 + (1 + 1)) (0 + (0 + 0)) (snd s) (snd s')" by (intro key_moves_trans)
  then show ?thesis by simp
qed

lemma scan_sources_moves:
  assumes "scan_sources X V ap srcs s = (False, s')" and "\<forall>src \<in> set srcs. scope_qualifier src \<noteq> []"
  shows "key_moves (3 * int (length srcs)) 0 (snd s) (snd s')"
  using assms
proof (induction srcs arbitrary: s)
  case Nil
  then show ?case by simp
next
  case (Cons src srcs)
  let ?s = "search_and_record X V ap (build_anchor_query (anchor ap (sx_base_url X)) @ '' '' @ scope_qualifier src)
                  (''github_code:'' @ ks_identifier src) (''github_issue:'' @ ks_identifier src) s"
  obtain stop ty st where r: "?s = (stop, ty, st)" by (metis prod_cases3)
  with Cons.prems have stop: "stop = False" by (cases stop) auto
  from search_and_record_moves [OF r [unfolded stop]] have m: "key_moves 3 0 (snd s) st" by simp
  from Cons.prems r stop obtain ty' st' where n: "scan_sources X V ap srcs (ty', st') = (False, s')"
    and k: "sn_sum st' = sn_sum st" by (auto simp: Let_def split: sum.splits)
  from Cons.IH [OF n] Cons.prems(2) have "key_moves (3 * int (length srcs)) 0 st' (snd s')" by simp
  with k have "key_moves (3 * int (length srcs)) 0 st (snd s')" by (simp add: key_moves_def)
  from key_moves_trans [OF m this] show ?case by (simp add: algebra_simps)
qed

lemma scan_ap_moves:
  assumes "scan_ap X V srcs ap s = (False, s')" and "\<forall>src \<in> set srcs. scope_qualifier src \<noteq> []"
  shows "key_moves (3 * (1 + int (length srcs))) 1 (snd s) (snd s')"
proof -
  obtain ty st where s: "s = (ty, st)" by fastforce
  obtain stop s1 where r: "search_and_record X V ap (build_anchor_query (anchor ap (sx_base_url X)))
            ''github_code'' ''github_issue'' (ty, with_sum add_stream st) = (stop, s1)" by (rule prod.exhaust)
  with assms(1) s have "stop = False" and n: "scan_sources X V ap srcs s1 = (False, s')"
    by (auto simp: scan_ap_def split: if_splits)
  have "key_moves 0 1 st (with_sum add_stream st)" by (simp add: key_moves_def summary_key_def add_stream_def)
  moreover have "key_moves 3 0 (with_sum add_stream st) (snd s1)"
    using search_and_record_moves [OF r [unfolded \<open>stop = False\<close>]] by simp
  ultimately have "key_moves (0 + (3 + 3 * int (length srcs))) (1 + (0 + 0)) st (snd s')"
    using scan_sources_moves [OF n assms(2)] by (intro key_moves_trans)
  then show ?thesis by (simp add: s algebra_simps)
qed

lemma scan_aps_moves:
  assumes "rs_err (sn_sum (snd (scan_aps X V srcs aps s))) = None"
    and "\<forall>src \<in> set srcs. scope_qualifier src \<noteq> []"
  shows "key_moves (3 * (1 + int (length srcs)) * int (length aps)) (int (length aps)) (snd s) (snd (scan_aps X V srcs aps s))"
  using assms(1)
proof (induction aps arbitrary: s)
  case Nil
  then show ?case by simp
next
  case (Cons ap aps)
  obtain ty st where s: "s = (ty, st)" by fastforce
  obtain stop s1 where r: "scan_ap X V srcs ap (ty, st) = (stop, s1)" by (rule prod.exhaust)
  with Cons.prems s have go: "stop = False" "scan_aps X V srcs (ap # aps) s = scan_aps X V srcs aps s1"
    by (cases s1; auto simp: set_err_def split: if_splits)+
  from Cons.IH [of s1] Cons.prems go(2) have
    "key_moves (3 * (1 + int (length srcs)) * int (length aps)) (int (length aps)) (snd s1) (snd (scan_aps X V srcs aps s1))"
    by simp
  from key_moves_trans [OF scan_ap_moves [OF r [unfolded go(1)] assms(2)] this]
  show ?case unfolding go(2) by (simp add: s algebra_simps)
qed

section \<open>Complete searches\<close>

text \<open>
  What it takes that one search was complete: the request is in the log, GitHub's answer to it was a success and not
  marked incomplete, and every text of its items is on file where it gives the access point away.
\<close>

definition code_searched :: "scanner \<Rightarrow> scan_env \<Rightarrow> gh_request list \<Rightarrow> db \<Rightarrow> leak_ap \<Rightarrow> string \<Rightarrow> string \<Rightarrow> bool" where
  "code_searched X V sent D ap query source \<longleftrightarrow>
     (\<exists>body items.
        answered (sv_github V) sent
          (GhGet (''/search/code?q='' @ ul_query_escape (ge_urls (sv_github V)) query @ ''&per_page=30'')
             ''application/vnd.github.v3.text-match+json'') body \<and>
        ge_decode_code (sv_github V) body = Some (False, items) \<and>
        (\<forall>r \<in> set items. \<forall>f \<in> set (cr_fragments r). on_file X V D ap f source (cr_url r)))"

definition issues_searched :: "scanner \<Rightarrow> scan_env \<Rightarrow> gh_request list \<Rightarrow> db \<Rightarrow> leak_ap \<Rightarrow> string \<Rightarrow> string \<Rightarrow> bool" where
  "issues_searched X V sent D ap query source \<longleftrightarrow>
     (\<exists>body items.
        answered (sv_github V) sent
          (GhGet (''/search/issues?q='' @ ul_query_escape (ge_urls (sv_github V)) query @
                  ''&per_page=30&sort=updated&order=desc'') ''application/vnd.github+json'') body \<and>
        ge_decode_issues (sv_github V) body = Some (False, items) \<and>
        (\<forall>r \<in> set items. on_file X V D ap (ir_title r @ [newline] @ ir_body r) source (ir_url r)))"

text \<open>The three searches for the quoted address of an access point, within a scope.\<close>

definition searched :: "scanner \<Rightarrow> scan_env \<Rightarrow> gh_request list \<Rightarrow> db \<Rightarrow> string \<Rightarrow> string \<Rightarrow> leak_ap \<Rightarrow> bool" where
  "searched X V sent D scope label ap \<longleftrightarrow>
     (let query = [quote] @ trim_right (sx_base_url X) ''/'' @ ''/'' @ la_public_path ap @ [quote] @ scope
      in code_searched X V sent D ap query (''github_code'' @ label) \<and>
         issues_searched X V sent D ap (query @ '' is:issue'') (''github_issue'' @ label) \<and>
         issues_searched X V sent D ap (query @ '' is:pr'') (''github_pr'' @ label))"

definition source_scope :: "leak_source \<Rightarrow> string" where
  "source_scope src =
     (if ks_provider src = ''github_repo'' then '' repo:'' else '' org:'') @ ks_identifier src"

text \<open>No error was counted from one moment to a later one.\<close>

abbreviation no_loss :: "tally \<times> scan_state \<Rightarrow> tally \<times> scan_state \<Rightarrow> bool" where
  "no_loss s s' \<equiv> tallies_grow (fst s') (fst s)"

lemma no_loss_split:
  "grown s s' \<Longrightarrow> grown s' s'' \<Longrightarrow> no_loss s s'' \<Longrightarrow> no_loss s s' \<and> no_loss s' s''"
  by (auto simp: grown_def tallies_grow_def)

lemma grown_findings_ok: "grown s s' \<Longrightarrow> findings_ok (sn_db (snd s)) \<Longrightarrow> findings_ok (sn_db (snd s'))"
  by (simp add: grown_def findings_grow_def)

lemma on_file_later:
  "grown s s' \<Longrightarrow> findings_ok (sn_db (snd s)) \<Longrightarrow> on_file X V (sn_db (snd s)) ap tx source url \<Longrightarrow>
   on_file X V (sn_db (snd s')) ap tx source url"
  by (simp add: grown_def findings_grow_def on_file_def split: option.splits)

lemma answered_later:
  "grown s s' \<Longrightarrow> answered G (sent_to (snd s)) r body \<Longrightarrow> answered G (sent_to (snd s')) r body"
  by (auto simp: grown_def intro: answered_append)

lemma searched_later:
  assumes "grown s s'" and "findings_ok (sn_db (snd s))"
  shows "code_searched X V (sent_to (snd s)) (sn_db (snd s)) ap query source \<Longrightarrow>
      code_searched X V (sent_to (snd s')) (sn_db (snd s')) ap query source"
    and "issues_searched X V (sent_to (snd s)) (sn_db (snd s)) ap query source \<Longrightarrow>
      issues_searched X V (sent_to (snd s')) (sn_db (snd s')) ap query source"
    and "searched X V (sent_to (snd s)) (sn_db (snd s)) scope label ap \<Longrightarrow>
      searched X V (sent_to (snd s')) (sn_db (snd s')) scope label ap"
proof -
  note later = answered_later [OF assms(1)] on_file_later [OF assms]
  show c: "code_searched X V (sent_to (snd s)) (sn_db (snd s)) ap query source \<Longrightarrow>
      code_searched X V (sent_to (snd s')) (sn_db (snd s')) ap query source" for query source
    unfolding code_searched_def using later by meson
  show i: "issues_searched X V (sent_to (snd s)) (sn_db (snd s)) ap query source \<Longrightarrow>
      issues_searched X V (sent_to (snd s')) (sn_db (snd s')) ap query source" for query source
    unfolding issues_searched_def using later by meson
  show "searched X V (sent_to (snd s)) (sn_db (snd s)) scope label ap \<Longrightarrow>
      searched X V (sent_to (snd s')) (sn_db (snd s')) scope label ap"
    unfolding searched_def Let_def using c i by blast
qed

section \<open>Passes\<close>

lemma record_all_complete:
  assumes "record_all X V ap source items s = s'" and "no_loss s s'" and "findings_ok (sn_db (snd s))"
  shows "\<forall>(tx, url) \<in> set items. on_file X V (sn_db (snd s')) ap tx source url"
  using assms
proof (induction items arbitrary: s)
  case Nil
  then show ?case by simp
next
  case (Cons i items)
  obtain tx url ty st where s: "i = (tx, url)" "s = (ty, st)" by (metis surj_pair)
  obtain ok st1 where r: "record_if_match X V ap tx source url st = (ok, st1)" by fastforce
  let ?s1 = "(if ok then ty else ty\<lparr>ty_record_errors := ty_record_errors ty + 1\<rparr>, st1)"
  from Cons.prems(1) have rest: "record_all X V ap source items ?s1 = s'" by (simp add: s r)
  have g: "grown s ?s1" using growth.recorded [OF grown_refl r] by (simp add: s)
  have g': "grown ?s1 s'" using growth.record_all_inv [OF grown_refl, of ?s1 X V ap source items] rest by simp
  note l = no_loss_split [OF g g' Cons.prems(2)]
  then have ok using s by (cases ok) (simp_all add: tallies_grow_def)
  note fo = grown_findings_ok [OF g Cons.prems(3)]
  have "on_file X V (sn_db (snd ?s1)) ap tx source url"
    using record_if_match_findings(2) [OF r] Cons.prems(3) s \<open>ok\<close> by simp
  then have "on_file X V (sn_db (snd s')) ap tx source url" by (rule on_file_later [OF g' fo])
  with Cons.IH [OF rest _ fo] l show ?case by (simp add: s)
qed

lemma absorb_complete:
  assumes "absorb_search X V ap source res meta s = (False, s')" and "no_loss s s'" and "findings_ok (sn_db (snd s))"
  shows "\<exists>items. res = Inr items \<and> \<not> se_incomplete meta \<and>
    (\<forall>(tx, url) \<in> set items. on_file X V (sn_db (snd s')) ap tx source url)"
proof -
  obtain ty st where s: "s = (ty, st)" by fastforce
  define ty1 where "ty1 = (if is_ok res then ty else ty\<lparr>ty_query_errors := ty_query_errors ty + 1\<rparr>)"
  define ty2 where "ty2 = (if se_incomplete meta then ty1\<lparr>ty_incomplete := ty_incomplete ty1 + 1\<rparr> else ty1)"
  let ?s2 = "(ty2, with_sum add_query st)"
  from assms(1) have r: "record_all X V ap source (or_else res []) ?s2 = s'"
    by (auto simp: absorb_search_def s Let_def ty1_def [symmetric] ty2_def [symmetric] split: if_splits prod.splits)
  have "grown ?s2 s'" using growth.record_all_inv [OF grown_refl, of ?s2 X V ap source "or_else res []"] r by simp
  then have t: "tallies_grow ty2 (fst s')" by (simp add: grown_def)
  with assms(2) have t2: "tallies_grow ty2 ty" by (auto simp: s tallies_grow_def)
  then have ok: "is_ok res" "\<not> se_incomplete meta"
    by (auto simp: ty2_def ty1_def tallies_grow_def split: if_splits)
  then have "no_loss ?s2 s'" using assms(2) by (simp add: ty2_def ty1_def s)
  from record_all_complete [OF r this] assms(3) ok show ?thesis by (cases res) (auto simp: s or_else_def)
qed

lemma absorb_sent:
  assumes "absorb_search X V ap source res meta s = (stop, s')"
  shows "\<exists>sent. sent_to (snd s') = sent_to (snd s) @ sent"
  using growth.absorb_inv [OF grown_refl, of s X V ap source res meta] assms by (simp add: grown_def)

lemma code_pass_complete:
  assumes "code_pass X V ap query source s = (False, s')" and "no_loss s s'" and "findings_ok (sn_db (snd s))"
  shows "code_searched X V (sent_to (snd s')) (sn_db (snd s')) ap query source"
proof -
  obtain ty st where s: "s = (ty, st)" by fastforce
  obtain res meta c where r: "search_code (sv_github V) (sn_gh st) query = (res, meta, c)" by (rule prod_cases3)
  with assms(1) have a: "absorb_search X V ap source (map_sum id code_items res) meta (ty, st\<lparr>sn_gh := c\<rparr>) = (False, s')"
    by (simp add: code_pass_def s)
  from absorb_complete [OF a] assms(2,3) obtain items where
    i: "map_sum id code_items res = Inr items" "\<not> se_incomplete meta"
       "\<forall>(tx, url) \<in> set items. on_file X V (sn_db (snd s')) ap tx source url" by (auto simp: s)
  then obtain rs where rs: "res = Inr rs" "items = code_items rs" by (cases res) auto
  with search_code_log [OF r] i(2) obtain body where
    b: "answered (sv_github V) (gc_sent c) (GhGet (''/search/code?q='' @ ul_query_escape (ge_urls (sv_github V)) query @
          ''&per_page=30'') ''application/vnd.github.v3.text-match+json'') body"
      "ge_decode_code (sv_github V) body = Some (False, rs)" by auto
  from absorb_sent [OF a] obtain sent where "sent_to (snd s') = gc_sent c @ sent" by auto
  with answered_append [OF b(1)] have "answered (sv_github V) (sent_to (snd s')) (GhGet (''/search/code?q='' @
      ul_query_escape (ge_urls (sv_github V)) query @ ''&per_page=30'') ''application/vnd.github.v3.text-match+json'') body"
    by simp
  moreover have "\<forall>r \<in> set rs. \<forall>f \<in> set (cr_fragments r). on_file X V (sn_db (snd s')) ap f source (cr_url r)"
    using i(3) rs(2) by (auto simp: code_items_def)
  ultimately show ?thesis unfolding code_searched_def using b(2) by blast
qed

lemma replace_issue_pr: "replace_first (''github_issue'' @ label) ''issue'' ''pr'' = ''github_pr'' @ label"
  by (simp add: replace_first_def has_prefix_def)

lemma issue_pass_complete:
  assumes "issue_pass X V ap query issue_source kind s = (False, s')" and "no_loss s s'" and "findings_ok (sn_db (snd s))"
    and "source = (if kind = ''pr'' then replace_first issue_source ''issue'' ''pr'' else issue_source)"
  shows "issues_searched X V (sent_to (snd s')) (sn_db (snd s')) ap (query @ '' is:'' @ kind) source"
proof -
  obtain ty st where s: "s = (ty, st)" by fastforce
  obtain res meta c where r: "search_issues (sv_github V) (sn_gh st) query None kind = (res, meta, c)" by (rule prod_cases3)
  with assms(1,4) have a: "absorb_search X V ap source (map_sum id issue_items res) meta (ty, st\<lparr>sn_gh := c\<rparr>) = (False, s')"
    by (simp add: issue_pass_def s)
  from absorb_complete [OF a] assms(2,3) obtain items where
    i: "map_sum id issue_items res = Inr items" "\<not> se_incomplete meta"
       "\<forall>(tx, url) \<in> set items. on_file X V (sn_db (snd s')) ap tx source url" by (auto simp: s)
  then obtain rs where rs: "res = Inr rs" "items = issue_items rs" by (cases res) auto
  let ?req = "GhGet (''/search/issues?q='' @ ul_query_escape (ge_urls (sv_github V)) (query @ '' is:'' @ kind) @
          ''&per_page=30&sort=updated&order=desc'') ''application/vnd.github+json''"
  from search_issues_log [OF r] i(2) rs obtain body where
    b: "answered (sv_github V) (gc_sent c) ?req body" "ge_decode_issues (sv_github V) body = Some (False, rs)" by auto
  from absorb_sent [OF a] obtain sent where "sent_to (snd s') = gc_sent c @ sent" by auto
  with answered_append [OF b(1)] have "answered (sv_github V) (sent_to (snd s')) ?req body" by simp
  moreover have "\<forall>r \<in> set rs. on_file X V (sn_db (snd s')) ap (ir_title r @ [newline] @ ir_body r) source (ir_url r)"
    using i(3) rs(2) by (auto simp: issue_items_def)
  ultimately show ?thesis unfolding issues_searched_def using b(2) by blast
qed

lemma search_complete:
  assumes "search_and_record X V ap query (''github_code'' @ label) (''github_issue'' @ label) s = (False, s')"
    and "query = build_anchor_query (anchor ap (sx_base_url X)) @ scope"
    and "no_loss s s'" and fo: "findings_ok (sn_db (snd s))"
  shows "searched X V (sent_to (snd s')) (sn_db (snd s')) scope label ap"
proof -
  let ?i = "''github_issue'' @ label"
  obtain stop1 s1 where 1: "code_pass X V ap query (''github_code'' @ label) s = (stop1, s1)" by (rule prod.exhaust)
  obtain stop2 s2 where 2: "issue_pass X V ap query ?i ''issue'' s1 = (stop2, s2)" by (rule prod.exhaust)
  from assms(1) 1 2 have stops: "stop1 = False" "stop2 = False"
    and 3: "issue_pass X V ap query ?i ''pr'' s2 = (False, s')" by (auto simp: search_and_record_def split: if_splits)
  have g1: "grown s s1" using growth.pass_inv(1) [OF grown_refl, of s X V ap query "''github_code'' @ label"] 1 by simp
  have g2: "grown s1 s2" using growth.pass_inv(2) [OF grown_refl, of s1 X V ap query ?i "''issue''"] 2 by simp
  have g3: "grown s2 s'" using growth.pass_inv(2) [OF grown_refl, of s2 X V ap query ?i "''pr''"] 3 by simp
  from no_loss_split [OF g1 grown_trans [OF g2 g3] assms(3)] no_loss_split [OF g2 g3]
  have l: "no_loss s s1" "no_loss s1 s2" "no_loss s2 s'" by blast+
  have fo1: "findings_ok (sn_db (snd s1))" by (rule grown_findings_ok [OF g1 fo])
  have fo2: "findings_ok (sn_db (snd s2))" by (rule grown_findings_ok [OF g2 fo1])
  have "code_searched X V (sent_to (snd s')) (sn_db (snd s')) ap query (''github_code'' @ label)"
    by (rule searched_later(1) [OF grown_trans [OF g2 g3] fo1 code_pass_complete [OF 1 [unfolded stops] l(1) fo]])
  moreover have "issues_searched X V (sent_to (snd s')) (sn_db (snd s')) ap (query @ '' is:'' @ ''issue'') (''github_issue'' @ label)"
    by (rule searched_later(2) [OF g3 fo2 issue_pass_complete [OF 2 [unfolded stops] l(2) fo1]]) simp
  moreover have "issues_searched X V (sent_to (snd s')) (sn_db (snd s')) ap (query @ '' is:'' @ ''pr'') (''github_pr'' @ label)"
    by (rule issue_pass_complete [OF 3 l(3) fo2]) (simp only: replace_issue_pr if_True simp_thms)
  ultimately show ?thesis
    by (simp add: searched_def Let_def assms(2) build_anchor_query_def anchor_def)
qed

section \<open>Complete runs\<close>

lemma scan_sources_complete:
  assumes "scan_sources X V ap srcs s = (False, s')" and "no_loss s s'" and "findings_ok (sn_db (snd s))"
    and "\<forall>src \<in> set srcs. ks_provider src = ''github_repo'' \<or> ks_provider src = ''github_org''"
  shows "\<forall>src \<in> set srcs. searched X V (sent_to (snd s')) (sn_db (snd s')) (source_scope src) ('':'' @ ks_identifier src) ap"
  using assms
proof (induction srcs arbitrary: s)
  case Nil
  then show ?case by simp
next
  case (Cons src srcs)
  have scope: "'' '' @ scope_qualifier src = source_scope src" "scope_qualifier src \<noteq> []"
    using Cons.prems(4) by (auto simp: scope_qualifier_def source_scope_def)
  let ?q = "build_anchor_query (anchor ap (sx_base_url X)) @ '' '' @ scope_qualifier src"
  let ?r = "search_and_record X V ap ?q (''github_code:'' @ ks_identifier src) (''github_issue:'' @ ks_identifier src) s"
  obtain stop ty st where r: "?r = (stop, ty, st)" by (metis prod_cases3)
  let ?s1 = "(ty, st)"
  let ?t = "touch_leak_source (sv_clock V (sn_calls st)) (sv_up V (sn_calls st)) (sn_db st) (ks_id src)"
  define s2 where "s2 = (case ?t of Inl e \<Rightarrow> (ty\<lparr>ty_record_errors := ty_record_errors ty + 1\<rparr>, count_call st)
    | Inr D \<Rightarrow> (ty, (count_call st)\<lparr>sn_db := D\<rparr>))"
  from Cons.prems(1) r scope(2) have stop: "stop = False" and rest: "scan_sources X V ap srcs s2 = (False, s')"
    by (auto simp: s2_def split: if_splits sum.splits)
  have g1: "grown s ?s1" using growth.search_and_record_inv [OF grown_refl, of s X V ap ?q _ _] r by (metis snd_conv)
  have "grown ?s1 (ty, count_call st)" by (simp add: grown_def tallies_grow_def findings_grow_def)
  then have g2: "grown ?s1 s2"
    using growth.failed [of ?s1 ty "count_call st"] growth.touch [of ?s1 ty "count_call st"]
    by (auto simp: s2_def split: sum.split)
  have g3: "grown s2 s'" using growth.scan_sources_inv [OF grown_refl, of s2 X V ap srcs] rest by simp
  note g23 = grown_trans [OF g2 g3]
  from no_loss_split [OF g1 g23 Cons.prems(2)] no_loss_split [OF g2 g3]
  have l: "no_loss s ?s1" "no_loss s2 s'" by blast+
  have fo1: "findings_ok (sn_db (snd ?s1))" by (rule grown_findings_ok [OF g1 Cons.prems(3)])
  have "search_and_record X V ap ?q (''github_code'' @ '':'' @ ks_identifier src) (''github_issue'' @ '':'' @ ks_identifier src) s = (False, ?s1)"
    using r stop by simp
  from search_complete [OF this _ l(1) Cons.prems(3)] scope(1)
  have "searched X V (sent_to (snd ?s1)) (sn_db (snd ?s1)) (source_scope src) ('':'' @ ks_identifier src) ap" by simp
  then have "searched X V (sent_to (snd s')) (sn_db (snd s')) (source_scope src) ('':'' @ ks_identifier src) ap"
    by (rule searched_later(3) [OF g23 fo1])
  with Cons.IH [OF rest l(2) grown_findings_ok [OF g2 fo1]] Cons.prems(4) show ?case by simp
qed

text \<open>The searches for one access point: one in all of GitHub, and one in every watched source.\<close>

definition ap_searched :: "scanner \<Rightarrow> scan_env \<Rightarrow> gh_request list \<Rightarrow> db \<Rightarrow> leak_source list \<Rightarrow> leak_ap \<Rightarrow> bool" where
  "ap_searched X V sent D srcs ap \<longleftrightarrow>
     searched X V sent D [] [] ap \<and>
     (\<forall>src \<in> set srcs. searched X V sent D (source_scope src) ('':'' @ ks_identifier src) ap)"

lemma ap_searched_later:
  "grown s s' \<Longrightarrow> findings_ok (sn_db (snd s)) \<Longrightarrow> ap_searched X V (sent_to (snd s)) (sn_db (snd s)) srcs ap \<Longrightarrow>
   ap_searched X V (sent_to (snd s')) (sn_db (snd s')) srcs ap"
  unfolding ap_searched_def using searched_later(3) by blast

lemma scan_ap_complete:
  assumes "scan_ap X V srcs ap s = (False, s')" and "no_loss s s'" and "findings_ok (sn_db (snd s))"
    and "\<forall>src \<in> set srcs. ks_provider src = ''github_repo'' \<or> ks_provider src = ''github_org''"
  shows "ap_searched X V (sent_to (snd s')) (sn_db (snd s')) srcs ap"
proof -
  obtain ty st where s: "s = (ty, st)" by fastforce
  let ?s0 = "(ty, with_sum add_stream st)"
  let ?q = "build_anchor_query (anchor ap (sx_base_url X))"
  obtain stop s1 where r: "search_and_record X V ap ?q ''github_code'' ''github_issue'' ?s0 = (stop, s1)"
    by (rule prod.exhaust)
  with assms(1) s have stop: "stop = False" and n: "scan_sources X V ap srcs s1 = (False, s')"
    by (auto simp: scan_ap_def split: if_splits)
  have g1: "grown ?s0 s1" using growth.search_and_record_inv [OF grown_refl, of ?s0 X V ap ?q _ _] r by (metis snd_conv)
  have g2: "grown s1 s'" using growth.scan_sources_inv [OF grown_refl, of s1 X V ap srcs] n by simp
  have "no_loss ?s0 s'" using assms(2) by (simp add: s)
  from no_loss_split [OF g1 g2 this] have l: "no_loss ?s0 s1" "no_loss s1 s'" by blast+
  have fo: "findings_ok (sn_db (snd ?s0))" using assms(3) by (simp add: s)
  note fo1 = grown_findings_ok [OF g1 fo]
  have "search_and_record X V ap ?q (''github_code'' @ []) (''github_issue'' @ []) ?s0 = (False, s1)" using r stop by simp
  from search_complete [OF this _ l(1) fo] have "searched X V (sent_to (snd s1)) (sn_db (snd s1)) [] [] ap" by simp
  from searched_later(3) [OF g2 fo1 this] scan_sources_complete [OF n l(2) fo1 assms(4)]
  show ?thesis unfolding ap_searched_def by blast
qed

lemma scan_aps_complete:
  assumes "rs_err (sn_sum (snd (scan_aps X V srcs aps s))) = None" and "no_loss s (scan_aps X V srcs aps s)"
    and "findings_ok (sn_db (snd s))"
    and "\<forall>src \<in> set srcs. ks_provider src = ''github_repo'' \<or> ks_provider src = ''github_org''"
  shows "\<forall>ap \<in> set aps. ap_searched X V (sent_to (snd (scan_aps X V srcs aps s))) (sn_db (snd (scan_aps X V srcs aps s))) srcs ap"
  using assms(1-3)
proof (induction aps arbitrary: s)
  case Nil
  then show ?case by simp
next
  case (Cons ap aps)
  obtain ty st where s: "s = (ty, st)" by fastforce
  obtain stop s1 where r: "scan_ap X V srcs ap (ty, st) = (stop, s1)" by (rule prod.exhaust)
  with Cons.prems(1) s have go: "stop = False" "scan_aps X V srcs (ap # aps) s = scan_aps X V srcs aps s1"
    by (cases s1; auto simp: set_err_def split: if_splits)+
  let ?s' = "scan_aps X V srcs aps s1"
  have g1: "grown s s1" using growth.scan_ap_inv [OF grown_refl, of s X V srcs ap] r by (simp add: s)
  have g2: "grown s1 ?s'" by (rule growth.scan_aps_inv) simp
  from no_loss_split [OF g1 g2] Cons.prems(2) go(2) have l: "no_loss s s1" "no_loss s1 ?s'" by simp_all
  note fo1 = grown_findings_ok [OF g1 Cons.prems(3)]
  have "ap_searched X V (sent_to (snd s1)) (sn_db (snd s1)) srcs ap"
    using r go(1) l(1) Cons.prems(3) assms(4) by (intro scan_ap_complete [of X V srcs ap s]) (simp_all add: s)
  from ap_searched_later [OF g2 fo1 this] Cons.IH [of s1] Cons.prems(1) l(2) fo1 go(2) show ?case by simp
qed

text \<open>A run that ends without an error: what it loaded, what it did with it, and that no error was counted.\<close>

lemma clean_run:
  assumes "rs_err (sn_sum (scan_run X V st)) = None"
  shows "\<exists>aps srcs ty st1. active_access_points (sv_clock V (sn_calls st)) (\<lambda>i. sv_up V (sn_calls st + i)) (sn_db st) (sx_owner X) = Inr aps \<and>
    enabled_github_sources True (sn_db st) (sx_owner X) = Inr srcs \<and>
    sn_db st1 = sn_db st \<and> sn_gh st1 = sn_gh st \<and> sn_sum st1 = empty_summary \<and>
    scan_aps X V srcs aps (no_errors, st1) = (ty, scan_run X V st) \<and> tallies_grow ty no_errors"
proof -
  let ?a = "active_access_points (sv_clock V (sn_calls st)) (\<lambda>i. sv_up V (sn_calls st + i)) (sn_db st) (sx_owner X)"
  obtain aps where a: "?a = Inr aps"
    using assms by (cases ?a) (auto simp: scan_run_def Let_def set_err_def)
  let ?k = "sn_calls st + Suc (length aps)"
  let ?g = "enabled_github_sources (sv_up V ?k) (sn_db st) (sx_owner X)"
  obtain srcs where g: "?g = Inr srcs"
    using assms a by (cases ?g) (auto simp: scan_run_def Let_def set_err_def)
  let ?st1 = "st\<lparr>sn_sum := empty_summary, sn_calls := Suc ?k\<rparr>"
  obtain ty st2 where e: "scan_aps X V srcs aps (no_errors, ?st1) = (ty, st2)" by (rule prod.exhaust)
  have run: "scan_run X V st = fold_errors (ty, st2)" using a g e by (simp add: scan_run_def Let_def)
  from assms have f: "scan_run X V st = st2" "tallies_grow ty no_errors"
    unfolding run by (auto simp: fold_errors_def set_err_def tallies_grow_def no_errors_def split: if_splits)
  from g have "enabled_github_sources True (sn_db st) (sx_owner X) = Inr srcs"
    by (simp add: enabled_github_sources_def split: if_splits)
  with a e f show ?thesis by (intro exI [of _ aps] exI [of _ srcs] exI [of _ ty] exI [of _ ?st1]) simp
qed

lemma enabled_providers:
  "enabled_github_sources up D owner = Inr srcs \<Longrightarrow>
   \<forall>src \<in> set srcs. ks_provider src = ''github_repo'' \<or> ks_provider src = ''github_org''"
  by (auto simp: enabled_github_sources_def watched_def split: if_splits)

section \<open>Properties\<close>

text \<open>
  C19: a run that ends without an error missed nothing. For every active access point it loaded, once for all of GitHub and
  once for every watched source, it sent the code search, the issue search and the pull request search for the quoted
  address of that access point; GitHub answered each with a success that was not marked incomplete; and every text of these
  answers that gives the access point away is on file as a finding at least as strong as the match.
\<close>

theorem clean_run_complete:
  assumes "rs_err (sn_sum (scan_run X V st)) = None" and "findings_ok (sn_db st)"
  shows "\<exists>aps srcs. active_access_points (sv_clock V (sn_calls st)) (\<lambda>i. sv_up V (sn_calls st + i)) (sn_db st) (sx_owner X) = Inr aps \<and>
       enabled_github_sources True (sn_db st) (sx_owner X) = Inr srcs \<and>
       (\<forall>ap \<in> set aps. ap_searched X V (gc_sent (sn_gh (scan_run X V st))) (sn_db (scan_run X V st)) srcs ap) \<and>
       rs_streams_checked (sn_sum (scan_run X V st)) = int (length aps) \<and>
       rs_queries_made (sn_sum (scan_run X V st)) = 3 * (1 + int (length srcs)) * int (length aps)"
proof -
  obtain aps srcs ty st1 where
    loaded: "active_access_points (sv_clock V (sn_calls st)) (\<lambda>i. sv_up V (sn_calls st + i)) (sn_db st) (sx_owner X) = Inr aps"
      "enabled_github_sources True (sn_db st) (sx_owner X) = Inr srcs" "sn_db st1 = sn_db st" "sn_sum st1 = empty_summary"
    and run: "scan_aps X V srcs aps (no_errors, st1) = (ty, scan_run X V st)" "tallies_grow ty no_errors"
    using clean_run [OF assms(1)] by blast
  note providers = enabled_providers [OF loaded(2)]
  then have "\<forall>src \<in> set srcs. scope_qualifier src \<noteq> []" by (auto simp: scope_qualifier_def)
  with scan_aps_moves [of X V srcs aps "(no_errors, st1)"] run(1) assms(1) loaded(4)
  have "rs_streams_checked (sn_sum (scan_run X V st)) = int (length aps) \<and>
       rs_queries_made (sn_sum (scan_run X V st)) = 3 * (1 + int (length srcs)) * int (length aps)"
    by (simp add: key_moves_def summary_key_def empty_summary_def)
  moreover have "\<forall>ap \<in> set aps. ap_searched X V (gc_sent (sn_gh (scan_run X V st))) (sn_db (scan_run X V st)) srcs ap"
    using scan_aps_complete [of X V srcs aps "(no_errors, st1)"] run assms loaded(3) providers by (simp add: sent_to_def)
  ultimately show ?thesis using loaded(1,2) by blast
qed

text \<open>
  C20: every POST of a run is a public notice on an issue or pull request, sent to the repository and the number in its
  address: only by the global scanner, only in allowlisted repositories, only where no reply was on file before the run;
  and when the run ends without an error, no address was sent two and each of them has its reply on file.
\<close>

theorem comments_allowed_and_single:
  "\<exists>urls requests.
     posts (gc_sent (sn_gh (scan_run X V st))) = posts (gc_sent (sn_gh st)) @ requests \<and>
     list_all2 (notice_for X V) urls requests \<and>
     (\<forall>u \<in> set urls. may_comment X (sn_db st) u) \<and>
     (rs_err (sn_sum (scan_run X V st)) = None \<longrightarrow>
        distinct urls \<and> set urls \<subseteq> replied (sn_db (scan_run X V st)))"
proof -
  have "comments_ok X V st (no_errors, st)"
    by (auto simp: comments_ok_def no_errors_def intro!: exI [of _ "[]"])
  from comments.scan_run_inv [OF this] obtain ty where ty: "comments_ok X V st (ty, scan_run X V st)"
    "rs_err (sn_sum (scan_run X V st)) = None \<longrightarrow> tallies_grow ty no_errors" by (elim exE conjE)
  have "0 \<le> ty_record_errors ty" using ty(1) unfolding comments_ok_def prod.case by (elim conjE)
  with ty(2) have "rs_err (sn_sum (scan_run X V st)) = None \<longrightarrow> ty_record_errors ty = 0"
    by (auto simp: tallies_grow_def no_errors_def)
  moreover obtain urls requests where
    "posts (sent_to (scan_run X V st)) = posts (sent_to st) @ requests" "list_all2 (notice_for X V) urls requests"
    "\<forall>u \<in> set urls. may_comment X (sn_db st) u"
    "ty_record_errors ty = 0 \<longrightarrow> distinct urls \<and> set urls \<subseteq> replied (sn_db (scan_run X V st))"
    using ty(1) unfolding comments_ok_def prod.case by (elim conjE exE)
  ultimately show ?thesis unfolding sent_to_def [symmetric] by (intro exI [of _ urls] exI [of _ requests]) simp
qed

text \<open>A public stream whose link stands in an issue of an allowlisted repository.\<close>

definition posted_url :: string where
  "posted_url = ''https://github.com/O/r/issues/5''"

definition leaky_db :: db where
  "leaky_db = empty_db
     \<lparr>db_streams := [\<lparr>st_id = 1, st_name = [], st_source_type = ''hls'', st_source_url = [], st_source_username = None,
        st_source_password_enc = None, st_status = ''active'', st_disabled_at = None, st_rotation_mode = ''auto'',
        st_replacement_reason = [], st_replacement_message = None, st_owner_id = None, st_always_on = 0, st_node_id = None\<rparr>],
      db_aps := [\<lparr>ap_id = 2, ap_stream_id = 1, ap_public_path = ''tv'', ap_visibility = ''public'',
        ap_output_format = ''hls'', ap_status = ''active'', ap_revoked_at = None, ap_path_is_secret = 0\<rparr>],
      db_settings := [(''github_reply_allowlist'', ''O/r'')]\<rparr>"

definition leaky_env :: scan_env where
  "leaky_env =
     \<lparr>sv_leak = \<lparr>le_hashes = tiny_hashes, le_aead = clear_aead,
        le_clock = \<lparr>ck_now = 0, ck_stamp = ''now'', ck_parse_rfc3339 = (\<lambda>s. None), ck_parse_stamp = (\<lambda>s. None)\<rparr>,
        le_at = [], le_history = \<lparr>hc_parse = (\<lambda>s. []), hc_print = (\<lambda>h. ''[]'')\<rparr>\<rparr>,
      sv_clock = (\<lambda>n. \<lparr>ck_now = 0, ck_stamp = ''now'', ck_parse_rfc3339 = (\<lambda>s. None), ck_parse_stamp = (\<lambda>s. None)\<rparr>),
      sv_at = (\<lambda>n. []), sv_up = (\<lambda>n. True), sv_notice_time = (\<lambda>n. []), sv_db_error = [],
      sv_github = down_github
        \<lparr>ge_answer := (\<lambda>n r. case r of GhGet p a \<Rightarrow> GhAnswer 200 [] [] [] True
                           | GhPost p b \<Rightarrow> GhAnswer 201 [] [] [] True),
         ge_wait_ends := (\<lambda>n. True), ge_decode_code := (\<lambda>b. Some (False, [])),
         ge_decode_issues := (\<lambda>b. Some (False, [\<lparr>ir_url = posted_url, ir_title = ''x'', ir_body = ''http://h/tv''\<rparr>])),
         ge_decode_comment := (\<lambda>b. Some ''c'')\<rparr>\<rparr>"

definition global_scan :: scanner where
  "global_scan = \<lparr>sx_base_url = ''http://h/'', sx_owner = None\<rparr>"

definition scan_start :: scan_state where
  "scan_start = \<lparr>sn_db = leaky_db, sn_gh = waiting_client, sn_sum = empty_summary, sn_calls = 0\<rparr>"

definition leaky_ap :: leak_ap where
  "leaky_ap = \<lparr>la_id = 2, la_stream_id = 1, la_public_path = ''tv'', la_visibility = ''public'', la_path_is_secret = False,
     la_tokens = []\<rparr>"

text \<open>The link stands in an issue, the run finds it, files it, and answers in the issue.\<close>

theorem clean_run_complete_witness:
  "searched global_scan leaky_env (gc_sent (sn_gh (scan_run global_scan leaky_env scan_start)))
     (sn_db (scan_run global_scan leaky_env scan_start)) [] [] leaky_ap \<and>
   classify (le_hashes (sv_leak leaky_env)) leaky_ap ''http://h/'' (''x'' @ [newline] @ ''http://h/tv'') \<noteq> None \<and>
   rs_queries_made (sn_sum (scan_run global_scan leaky_env scan_start)) = 3"
proof -
  have "rs_err (sn_sum (scan_run global_scan leaky_env scan_start)) = None" by code_simp
  moreover have "findings_ok (sn_db scan_start)"
    by (simp add: findings_ok_def scan_start_def leaky_db_def empty_db_def)
  moreover have "active_access_points (sv_clock leaky_env (sn_calls scan_start)) (\<lambda>i. sv_up leaky_env (sn_calls scan_start + i))
      (sn_db scan_start) (sx_owner global_scan) = Inr [leaky_ap]"
    "enabled_github_sources True (sn_db scan_start) (sx_owner global_scan) = Inr []" by code_simp+
  moreover have "classify (le_hashes (sv_leak leaky_env)) leaky_ap ''http://h/'' (''x'' @ [newline] @ ''http://h/tv'') \<noteq> None"
    by code_simp
  ultimately show ?thesis
    using clean_run_complete [of global_scan leaky_env scan_start] by (simp add: ap_searched_def)
qed

theorem comments_allowed_and_single_witness:
  "(\<exists>r. posts (gc_sent (sn_gh (scan_run global_scan leaky_env scan_start))) = [r] \<and>
      notice_for global_scan leaky_env posted_url r) \<and>
   may_comment global_scan leaky_db posted_url"
proof -
  let ?st' = "scan_run global_scan leaky_env scan_start"
  from comments_allowed_and_single [of global_scan leaky_env scan_start]
  obtain urls requests where u: "posts (gc_sent (sn_gh ?st')) = posts (gc_sent (sn_gh scan_start)) @ requests"
      "list_all2 (notice_for global_scan leaky_env) urls requests"
      "\<forall>u \<in> set urls. may_comment global_scan (sn_db scan_start) u"
      "rs_err (sn_sum ?st') = None \<longrightarrow> distinct urls \<and> set urls \<subseteq> replied (sn_db ?st')"
    by (elim exE conjE)
  have "length (posts (gc_sent (sn_gh ?st'))) = 1" "posts (gc_sent (sn_gh scan_start)) = []" by code_simp+
  with u(1) have "length requests = 1" by simp
  with u(2) obtain url r where one: "urls = [url]" "requests = [r]"
    by (auto simp: length_Suc_conv list_all2_Cons2)
  have "rs_err (sn_sum ?st') = None" "replied (sn_db ?st') = {posted_url}" by code_simp+
  with u(4) one have "url = posted_url" by simp
  moreover have "sn_db scan_start = leaky_db" by (simp add: scan_start_def)
  ultimately show ?thesis using u one \<open>posts (gc_sent (sn_gh scan_start)) = []\<close> by simp
qed

section \<open>From a leak to the gateway\<close>

lemma post_notice_tokens:
  "db_tokens (sn_db (snd (post_notice X V owner repo number url i st))) = db_tokens (sn_db st) \<and>
   db_aps (sn_db (snd (post_notice X V owner repo number url i st))) = db_aps (sn_db st)"
  by (auto simp: post_notice_def record_reply_def Let_def split: prod.split sum.splits if_splits)

lemma reply_publicly_tokens:
  "db_tokens (sn_db (snd (reply_publicly X V url i st))) = db_tokens (sn_db st) \<and>
   db_aps (sn_db (snd (reply_publicly X V url i st))) = db_aps (sn_db st)"
  by (auto simp: reply_publicly_def post_notice_tokens split: option.split prod.split sum.split bool.split)

lemma respond_revokes:
  assumes "\<forall>n. sv_up V n" and "stream_by_id (sn_db st) (lm_stream_id m) = Some str" and "st_rotation_mode str = ''auto''"
    and "lm_confidence m = Confirmed" and "lm_token_id m = Some k"
    and "incident_by_id (sn_db st) i = Some inc" and "open_status (in_status inc)"
    and "respond X V m i source url st = (ok, st')"
  shows "\<exists>ck. db_tokens (sn_db st') = db_tokens (revoke_token ck (sn_db st) k) \<and> db_aps (sn_db st') = db_aps (sn_db st)"
proof -
  let ?E = "env_at V (Suc (sn_calls st))"
  obtain res D where r: "auto_revoke ?E True (sn_db st) m i = (res, D)" by (rule prod.exhaust)
  from auto_revoke_token [OF assms(4-7) r] obtain now where
    D: "db_tokens D = db_tokens (revoke_token (le_clock ?E) (sn_db st) k)" "db_aps D = db_aps (sn_db st)"
    and res: "res = Inr (revoke_target m, True, now)" by blast
  let ?st1 = "(count_call (count_call st))\<lparr>sn_db := D\<rparr>"
  let ?st2 = "if now then with_sum add_revoked ?st1 else ?st1"
  have "st' = ?st2 \<or> (\<exists>ok. reply_publicly X V url i ?st2 = (ok, st'))"
    using assms(1,2,3,8) r res by (auto simp: respond_def rotation_mode_def Let_def split: if_splits)
  then have "db_tokens (sn_db st') = db_tokens D \<and> db_aps (sn_db st') = db_aps D"
    using reply_publicly_tokens [of X V url i ?st2] by auto
  with D show ?thesis by auto
qed

lemma schema_keys:
  assumes "schema_ok D"
  shows "distinct (map tk_hash (db_tokens D))" and "distinct (map tk_id (db_tokens D))"
    and "distinct (map ap_id (db_aps D))" and "distinct (map in_id (db_incidents D))"
  using assms by (simp_all add: schema_ok_def)

lemma distinct_key_eq: "distinct (map f xs) \<Longrightarrow> x \<in> set xs \<Longrightarrow> y \<in> set xs \<Longrightarrow> f x = f y \<Longrightarrow> x = y"
  by (auto simp: distinct_map dest: inj_onD)

lemma find_tokens_for:
  "List.find (\<lambda>k. lt_hash k = h) (tokens_for ck D i) =
   map_option (\<lambda>t. \<lparr>lt_id = tk_id t, lt_hash = tk_hash t, lt_revoked = tk_revoked_at t \<noteq> None,
     lt_expired = (case tk_expires_at t of None \<Rightarrow> False | Some e \<Rightarrow> str_less e (ck_stamp ck))\<rparr>)
     (List.find (\<lambda>k. tk_ap_id k = i \<and> tk_hash k = h) (db_tokens D))"
proof -
  have "List.find (\<lambda>k. lt_hash k = h) (map (\<lambda>t. \<lparr>lt_id = tk_id t, lt_hash = tk_hash t, lt_revoked = tk_revoked_at t \<noteq> None,
     lt_expired = (case tk_expires_at t of None \<Rightarrow> False | Some e \<Rightarrow> str_less e (ck_stamp ck))\<rparr>)
       (filter (\<lambda>t. tk_ap_id t = i) ts)) =
    map_option (\<lambda>t. \<lparr>lt_id = tk_id t, lt_hash = tk_hash t, lt_revoked = tk_revoked_at t \<noteq> None,
     lt_expired = (case tk_expires_at t of None \<Rightarrow> False | Some e \<Rightarrow> str_less e (ck_stamp ck))\<rparr>)
     (List.find (\<lambda>k. tk_ap_id k = i \<and> tk_hash k = h) ts)" for ts
    by (induction ts) auto
  then show ?thesis by (simp add: tokens_for_def)
qed

text \<open>
  C4: when a text shows the link of an active private access point, the first thing in it that looks like a token of that
  link is a live token (see \<open>decoy_hides_live_token\<close> in LeakMatch for what a decoy before it does), the stream is in
  automatic mode, the finding is new - so no incident for it was dismissed - and the database answers, then after the text is
  recorded the gateway finds the token revoked, and no access point was touched.
\<close>

theorem leaked_token_revoked:
  assumes up: "\<forall>n. sv_up V n" and schema: "schema_ok (sn_db st)"
    and ap: "a \<in> set (db_aps (sn_db st))" "ap = leak_ap_of ck (sn_db st) a" "ap_visibility a = ''private''"
    and str: "stream_by_id (sn_db st) (ap_stream_id a) = Some str" "st_rotation_mode str = ''auto''"
    and raw: "token48 raw" "to_lower raw = raw"
    and tok: "t \<in> set (db_tokens (sn_db st))" "tk_ap_id t = ap_id a" "tk_hash t = hex_encode (sha256 (le_hashes (sv_leak V)) raw)"
    and first: "\<forall>b c. pre = b @ c \<and> c \<noteq> [] \<longrightarrow>
      \<not> token_at (anchor ap (sx_base_url X)) (c @ anchor ap (sx_base_url X) @ ''/'' @ raw @ post)"
    and fresh: "dedupe_key (le_hashes (sv_leak V)) source url (redacted_value (le_hashes (sv_leak V)) (anchor ap (sx_base_url X)) raw)
      \<notin> fi_dedupe_key ` set (db_findings (sn_db st))"
    and run: "record_if_match X V ap (pre @ anchor ap (sx_base_url X) @ ''/'' @ raw @ post) source url st = (ok, st')"
  shows "(\<exists>info. validate_token (le_hashes (sv_leak V)) ck' True (sn_db st') (ap_id a) raw = Inr info \<and>
      ti_status info = TokenRevoked \<and> ti_id info = tk_id t) \<and> db_aps (sn_db st') = db_aps (sn_db st)"
proof -
  let ?H = "le_hashes (sv_leak V)" and ?anc = "anchor ap (sx_base_url X)" and ?D = "sn_db st"
  let ?h = "hex_encode (sha256 ?H raw)"
  let ?m = "\<lparr>lm_confidence = Confirmed, lm_ap_id = ap_id a, lm_stream_id = ap_stream_id a,
    lm_token_id = Some (tk_id t), lm_value = redacted_value ?H ?anc raw\<rparr>"
  note keys = schema_keys [OF schema]
  have row: "List.find (\<lambda>k. tk_ap_id k = ap_id a \<and> tk_hash k = ?h) (db_tokens ?D) = Some t"
  proof (rule find_SomeI_unique)
    show "t \<in> set (db_tokens ?D)" "tk_ap_id t = ap_id a \<and> tk_hash t = ?h" using tok by blast+
    show "\<forall>k \<in> set (db_tokens ?D). tk_ap_id k = ap_id a \<and> tk_hash k = ?h \<longrightarrow> k = t"
    proof (intro ballI impI)
    fix k assume "k \<in> set (db_tokens ?D)" and "tk_ap_id k = ap_id a \<and> tk_hash k = ?h"
    with tok(3) show "k = t" by (intro distinct_key_eq [OF keys(1) _ tok(1)]) simp_all
    qed
  qed
  have "la_tokens ap = tokens_for ck ?D (ap_id a)" by (simp add: ap(2) leak_ap_of_def)
  then have "List.find (\<lambda>k. lt_hash k = ?h) (la_tokens ap) = Some
     \<lparr>lt_id = tk_id t, lt_hash = tk_hash t, lt_revoked = tk_revoked_at t \<noteq> None,
      lt_expired = (case tk_expires_at t of None \<Rightarrow> False | Some e \<Rightarrow> str_less e (ck_stamp ck))\<rparr>"
    by (simp only: find_tokens_for row option.map)
  then obtain k where found: "List.find (\<lambda>k. lt_hash k = ?h) (la_tokens ap) = Some k" and k: "lt_id k = tk_id t"
    using that by fastforce
  have "la_visibility ap = ''private''" using ap by (simp add: leak_ap_of_def)
  from classify_confirmed_token [OF this raw _ found, of pre "sx_base_url X" post] first
  have cls: "classify ?H ap (sx_base_url X) (pre @ ?anc @ ''/'' @ raw @ post) = Some ?m"
    using ap k by (simp add: leak_ap_of_def)

  have none: "List.find (\<lambda>r. fi_dedupe_key r = dedupe_key ?H source url (lm_value ?m)) (db_findings ?D) = None"
    unfolding leak_match.select_convs by (rule find_None_key [OF fresh])
  have fk: "ap_by_id ?D (ap_id a) = Some a" "token_known ?D (Some (tk_id t))"
    using find_by_key [OF keys(3) ap(1)] find_by_key [OF keys(2) tok(1)]
    by (simp_all add: ap_by_id_def token_known_def token_by_id_def)
  obtain i D1 where inc: "incident_of_match (env_at V (sn_calls st)) ?D ?m source url = Inr (Some i, D1)"
    using str fk(2) by (cases "List.find (open_incident ?m) (db_incidents ?D)")
      (auto simp: incident_of_match_def find_or_create_incident_def Let_def)
  from incident_of_match_open [OF inc _ keys(4)] obtain inc' where
    i: "incident_by_id D1 i = Some inc'" "open_status (in_status inc')" by auto
  note D1 = incident_of_match_frame [OF inc]
  let ?D2 = "D1\<lparr>db_findings := db_findings D1 @ [new_finding D1 ?m source url (dedupe_key ?H source url (lm_value ?m)) (Some i)]\<rparr>"
  have rec: "record_match (env_at V (sn_calls st)) True ?D ?m source url = (Inr (True, Some i), ?D2)"
    using none inc fk by (simp add: record_match_def Let_def)
  let ?st2 = "with_sum add_findings ((count_call st)\<lparr>sn_db := ?D2\<rparr>)"
  have resp: "respond X V ?m i source url ?st2 = (ok, st')"
    using run cls rec up by (simp add: record_if_match_def Let_def)
  have D2: "stream_by_id (sn_db ?st2) (lm_stream_id ?m) = Some str" "incident_by_id (sn_db ?st2) i = Some inc'"
    "db_tokens (sn_db ?st2) = db_tokens ?D" "db_aps (sn_db ?st2) = db_aps ?D"
    using D1 str i by (cases D1; cases "sn_db st"; simp add: stream_by_id_def incident_by_id_def)+
  from respond_revokes [OF up D2(1) str(2) _ _ D2(2) i(2) resp] obtain ck'' where
    final: "db_tokens (sn_db st') = db_tokens (revoke_token ck'' (sn_db ?st2) (tk_id t))" "db_aps (sn_db st') = db_aps (sn_db ?st2)"
    by auto
  from row D2(3) have "List.find (\<lambda>k. tk_ap_id k = ap_id a \<and> tk_hash k = ?h) (db_tokens (sn_db ?st2)) = Some t" by simp
  from revoke_token_find [OF this, of ck'' "tk_id t"] final(1) obtain t' where
    t': "List.find (\<lambda>k. tk_ap_id k = ap_id a \<and> tk_hash k = ?h) (db_tokens (sn_db st')) = Some t'"
      "tk_id t' = tk_id t" "tk_revoked_at t' \<noteq> None" by auto
  from validate_revoked [OF t'(1,3), of ck'] t'(2) final(2) D2(4) show ?thesis by auto
qed

definition private_leak :: scan_state where
  "private_leak = scan_start\<lparr>sn_db := leaky_db
     \<lparr>db_aps := map (\<lambda>a. a\<lparr>ap_visibility := ''private''\<rparr>) (db_aps leaky_db),
      db_tokens := [\<lparr>tk_id = 9, tk_ap_id = 2, tk_hash = hex_encode ''b'', tk_expires_at = None, tk_revoked_at = None,
        tk_revoked_reason = None, tk_last_used_at = None\<rparr>]\<rparr>\<rparr>"

theorem leaked_token_revoked_witness:
  "\<exists>info. validate_token tiny_hashes (sv_clock leaky_env 0) True
     (sn_db (snd (record_if_match global_scan leaky_env (leak_ap_of (sv_clock leaky_env 0) (sn_db private_leak) (hd (db_aps (sn_db private_leak))))
        (''see '' @ ''http://h/tv'' @ ''/'' @ replicate 48 CHR ''b'') ''github_code'' posted_url private_leak)))
     2 (replicate 48 CHR ''b'') = Inr info \<and> ti_status info = TokenRevoked"
proof -
  let ?ap = "leak_ap_of (sv_clock leaky_env 0) (sn_db private_leak) (hd (db_aps (sn_db private_leak)))"
  let ?r = "record_if_match global_scan leaky_env ?ap (''see '' @ ''http://h/tv'' @ ''/'' @ replicate 48 CHR ''b'')
    ''github_code'' posted_url private_leak"
  note defs = private_leak_def scan_start_def leaky_db_def empty_db_def
  have anc: "anchor ?ap (sx_base_url global_scan) = ''http://h/tv''" by code_simp
  have H: "le_hashes (sv_leak leaky_env) = tiny_hashes" by (simp add: leaky_env_def)
  have no: "\<not> token_at ''http://h/tv'' (c @ ''http://h/tv'' @ ''/'' @ replicate 48 CHR ''b'' @ [])"
    if "''see '' = b @ c \<and> c \<noteq> []" for b c
  proof -
    from that obtain x xs where c: "c = x # xs" by (cases c) auto
    with that have "x \<in> set ''see ''" by (metis in_set_conv_decomp)
    then have "x \<noteq> CHR ''h''" by auto
    with c show ?thesis by (auto simp: token_at_def has_prefix_def)
  qed
  obtain t str where t: "db_tokens (sn_db private_leak) = [t]" "tk_id t = 9" "tk_ap_id t = 2" "tk_hash t = hex_encode ''b''"
    and str: "stream_by_id (sn_db private_leak) 1 = Some str" "st_rotation_mode str = ''auto''"
    by (auto simp: defs stream_by_id_def)
  have "(\<exists>info. validate_token (le_hashes (sv_leak leaky_env)) (sv_clock leaky_env 0) True (sn_db (snd ?r))
      (ap_id (hd (db_aps (sn_db private_leak)))) (replicate 48 CHR ''b'') = Inr info \<and>
      ti_status info = TokenRevoked \<and> ti_id info = tk_id t) \<and> db_aps (sn_db (snd ?r)) = db_aps (sn_db private_leak)"
  proof (rule leaked_token_revoked [where pre = "''see ''" and post = "[]" and ap = ?ap and ok = "fst ?r" and
        a = "hd (db_aps (sn_db private_leak))" and ck = "sv_clock leaky_env 0" and t = t and str = str])
    show "\<forall>n. sv_up leaky_env n" by (simp add: leaky_env_def)
    show "schema_ok (sn_db private_leak)" by (simp add: schema_ok_def defs)
    show "hd (db_aps (sn_db private_leak)) \<in> set (db_aps (sn_db private_leak))"
      "ap_visibility (hd (db_aps (sn_db private_leak))) = ''private''" by (simp_all add: defs)
    show "stream_by_id (sn_db private_leak) (ap_stream_id (hd (db_aps (sn_db private_leak)))) = Some str"
      using str by (simp add: defs)
    show "token48 (replicate 48 CHR ''b'')" "to_lower (replicate 48 CHR ''b'') = replicate 48 CHR ''b''" by code_simp+
    show "t \<in> set (db_tokens (sn_db private_leak))" using t by simp
    show "tk_ap_id t = ap_id (hd (db_aps (sn_db private_leak)))" using t by (simp add: defs)
    show "tk_hash t = hex_encode (sha256 (le_hashes (sv_leak leaky_env)) (replicate 48 CHR ''b''))"
      unfolding H t(4) by (simp add: tiny_hashes_def)
    show "\<forall>b c. ''see '' = b @ c \<and> c \<noteq> [] \<longrightarrow>
       \<not> token_at (anchor ?ap (sx_base_url global_scan))
         (c @ anchor ?ap (sx_base_url global_scan) @ ''/'' @ replicate 48 CHR ''b'' @ [])"
      unfolding anc using no by blast
    show "dedupe_key (le_hashes (sv_leak leaky_env)) ''github_code'' posted_url
       (redacted_value (le_hashes (sv_leak leaky_env)) (anchor ?ap (sx_base_url global_scan)) (replicate 48 CHR ''b''))
      \<notin> fi_dedupe_key ` set (db_findings (sn_db private_leak))" by (simp add: defs)
    show "record_if_match global_scan leaky_env ?ap
       (''see '' @ anchor ?ap (sx_base_url global_scan) @ ''/'' @ replicate 48 CHR ''b'' @ []) ''github_code'' posted_url private_leak =
      (fst ?r, snd ?r)" unfolding anc by simp
  qed (use str in simp_all)
  moreover have "ap_id (hd (db_aps (sn_db private_leak))) = 2" by (simp add: defs)
  ultimately show ?thesis unfolding H by metis
qed

section \<open>Store properties\<close>

text \<open>
  Seeing the same content again records nothing: after a match was recorded, recording it again, by
  any later scan, leaves the database as it is and reports nothing new.
\<close>

theorem rescan_records_nothing:
  assumes "findings_ok D" and "record_match E up D m source url = (Inr r, D')" and "le_hashes E' = le_hashes E"
  shows "\<exists>i. record_match E' True D' m source url = (Inr (False, i), D')"
  using record_known_match [of D' E' source url m] record_match_findings(1,3) [OF assms(2,1)] assms(3) by simp

theorem rescan_records_nothing_witness:
  "\<exists>i. record_match (env_at leaky_env 7) True
     (snd (record_match (env_at leaky_env 0) True leaky_db
        \<lparr>lm_confidence = Confirmed, lm_ap_id = 2, lm_stream_id = 1, lm_token_id = None, lm_value = ''x''\<rparr> ''github_code'' posted_url))
     \<lparr>lm_confidence = Confirmed, lm_ap_id = 2, lm_stream_id = 1, lm_token_id = None, lm_value = ''x''\<rparr> ''github_code'' posted_url =
   (Inr (False, i), snd (record_match (env_at leaky_env 0) True leaky_db
        \<lparr>lm_confidence = Confirmed, lm_ap_id = 2, lm_stream_id = 1, lm_token_id = None, lm_value = ''x''\<rparr> ''github_code'' posted_url))"
proof (rule rescan_records_nothing [where D = leaky_db and up = True and E = "env_at leaky_env 0"])
  let ?r = "record_match (env_at leaky_env 0) True leaky_db
        \<lparr>lm_confidence = Confirmed, lm_ap_id = 2, lm_stream_id = 1, lm_token_id = None, lm_value = ''x''\<rparr> ''github_code'' posted_url"
  have "fst ?r = Inr (True, Some 1)" by code_simp
  then show "?r = (Inr (True, Some 1), snd ?r)" by (metis prod.collapse)
qed (simp_all add: findings_ok_def leaky_db_def empty_db_def)

lemma latest_is_joined:
  assumes "distinct (map rn_id (db_runs D))"
  shows "joined_run D i = latest_run D (Some i)"
proof -
  let ?rs = "filter (\<lambda>r. rn_owner_id r = Some i) (db_runs D)"
  let ?s = "sort_key (\<lambda>r. - rn_id r) ?rs"
  show ?thesis
  proof (cases ?s)
    case Nil
    then have "?rs = []" by (metis length_0_conv length_sort)
    with Nil show ?thesis by (simp add: joined_run_def latest_run_def Let_def)
  next
    case (Cons r rest)
    have set: "set ?s = set ?rs" by simp
    have r: "r \<in> set ?rs" unfolding set [symmetric] Cons by simp
    have "sorted (map (\<lambda>r. - rn_id r) ?s)" by (rule sorted_sort_key)
    then have "\<forall>x \<in> set ?s. rn_id x \<le> rn_id r" unfolding Cons by auto
    then have "Max (set (map rn_id ?rs)) = rn_id r" unfolding set using r by (intro Max_eqI) auto
    moreover have "List.find (\<lambda>x. rn_id x = rn_id r) (db_runs D) = Some r"
      using r by (intro find_by_key [OF assms]) simp
    moreover have "map rn_id ?rs \<noteq> []" using r by (metis empty_iff list.set(1) map_is_Nil_conv)
    ultimately show ?thesis using Cons by (simp add: joined_run_def latest_run_def Let_def)
  qed
qed

text \<open>
  C40: the one query that decides whether the program starts for the users at all agrees with the decision it
  takes for each account afterwards: some scan is due exactly when one of the accounts should run.
\<close>

theorem scan_due_iff_account_due:
  assumes "distinct (map rn_id (db_runs D))" and "any_user_scan_due ck True D d = Inr due"
    and "user_scan_accounts E True D key = Inr accounts"
  shows "due \<longleftrightarrow> (\<exists>a \<in> set accounts. user_should_run ck True D (sa_id a) (sa_requested a) d = Inr True)"
proof -
  have a: "sa_id (account_of E key r) = op_id r" "sa_requested (account_of E key r) = requested_of r" for r
    by (simp_all add: account_of_def Let_def split: option.split sum.split)
  have "set accounts = account_of E key ` set (filter scan_operator (db_operators D))"
    using assms(3) by (auto simp: user_scan_accounts_def)
  moreover have "user_should_run ck True D (op_id r) (requested_of r) d = Inr True \<longleftrightarrow>
    requested_of r \<noteq> [] \<or> (case joined_run D (op_id r) of None \<Rightarrow> True | Some n \<Rightarrow> interval_over ck d (rn_started_at n))" for r
    by (simp add: user_should_run_def latest_is_joined [OF assms(1)] split: option.split)
  ultimately show ?thesis using assms(2) a by (auto simp: any_user_scan_due_def list_ex_iff)
qed

theorem scan_due_iff_account_due_witness:
  "any_user_scan_due (sv_clock leaky_env 0) True
     (empty_db\<lparr>db_operators := [\<lparr>op_id = 3, op_role = ''user'', op_status = ''active'', op_allow_remux = 0,
        op_allow_always_on = 0, op_github_token_enc = Some ''x'', op_scan_requested_at = None\<rparr>]\<rparr>) minute = Inr True"
proof -
  let ?D = "empty_db\<lparr>db_operators := [\<lparr>op_id = 3, op_role = ''user'', op_status = ''active'', op_allow_remux = 0,
        op_allow_always_on = 0, op_github_token_enc = Some ''x'', op_scan_requested_at = None\<rparr>]\<rparr>"
  obtain due where due: "any_user_scan_due (sv_clock leaky_env 0) True ?D minute = Inr due"
    by (simp add: any_user_scan_due_def)
  have "user_scan_accounts (sv_leak leaky_env) True ?D None =
    Inr [\<lparr>sa_id = 3, sa_token = [], sa_requested = [], sa_err = Some LeakNoKey\<rparr>]"
    by (simp add: user_scan_accounts_def account_of_def requested_of_def scan_operator_def)
  from scan_due_iff_account_due [OF _ due this] have due
    by (simp add: user_should_run_def latest_run_def empty_db_def)
  with due show ?thesis by simp
qed

text \<open>
  A failing query for the last run is taken for "no prior run": without a request the scan is due at
  once, whatever the interval.
\<close>

theorem failed_history_query_scans:
  assumes "scan_requested_at True D = Inr None"
  shows "should_run ck True False D min_interval = Inr (True, [])"
  using assms by (simp add: should_run_def last_run_started_at_def)

theorem failed_history_query_scans_witness:
  "should_run (sv_clock leaky_env 0) True False empty_db (1000 * minute) = Inr (True, [])"
  by (rule failed_history_query_scans) (simp add: scan_requested_at_def leak_setting_def empty_db_def)

end
