(* ===== verification/LeakLock.thy ===== *)
theory LeakLock imports LeakStore begin

text \<open>
  The scan lock of \<open>internal/leakcheck/store.go\<close> (\<open>AcquireLock\<close>, \<open>ReleaseLock\<close>). A process acquires it
  with up to three statements, and statements of other processes may come between them; the steps
  are the single statements, and the step relation interleaves any number of processes with time.
\<close>

section \<open>Statements\<close>

definition lock_stale_after :: duration where
  "lock_stale_after = 15 * minute"

text \<open>Where \<open>AcquireLock\<close> is: its insert, the read of the row in the way, the second insert, the
  takeover of a stale row, and its results.\<close>

datatype acquire_pc = AcqInsert | AcqRead | AcqInsertAgain | AcqSteal string | AcqDone bool | AcqFailed

definition lock_insert :: "clock \<Rightarrow> bool \<Rightarrow> db \<Rightarrow> bool \<times> db" where
  "lock_insert ck up D =
     (if up \<and> db_lock D = None then (True, D\<lparr>db_lock := Some (ck_stamp ck)\<rparr>) else (False, D))"

definition genuinely_active :: "clock \<Rightarrow> string \<Rightarrow> bool" where
  "genuinely_active ck acquired_at =
     (case ck_parse_stamp ck acquired_at of None \<Rightarrow> False | Some t \<Rightarrow> time_sub (ck_now ck) t < lock_stale_after)"

definition acquire_step :: "clock \<Rightarrow> bool \<Rightarrow> acquire_pc \<Rightarrow> db \<Rightarrow> acquire_pc \<times> db" where
  "acquire_step ck up pc D =
     (case pc of
        AcqInsert \<Rightarrow> (let (ok, D') = lock_insert ck up D in (if ok then AcqDone True else AcqRead, D'))
      | AcqRead \<Rightarrow>
          (if \<not> up then (AcqFailed, D)
           else (case db_lock D of
                   None \<Rightarrow> (AcqInsertAgain, D)
                 | Some a \<Rightarrow> (if genuinely_active ck a then AcqDone False else AcqSteal a, D)))
      | AcqInsertAgain \<Rightarrow> (let (ok, D') = lock_insert ck up D in (AcqDone ok, D'))
      | AcqSteal a \<Rightarrow>
          (if \<not> up then (AcqFailed, D)
           else if db_lock D = Some a then (AcqDone True, D\<lparr>db_lock := Some (ck_stamp ck)\<rparr>)
           else (AcqDone False, D))
      | AcqDone b \<Rightarrow> (AcqDone b, D)
      | AcqFailed \<Rightarrow> (AcqFailed, D))"

text \<open>The whole operation when nobody comes between its statements.\<close>

definition acquire_lock :: "clock \<Rightarrow> (nat \<Rightarrow> bool) \<Rightarrow> db \<Rightarrow> (store_error, bool) result \<times> db" where
  "acquire_lock ck up D =
     (let (pc1, D1) = acquire_step ck (up 0) AcqInsert D;
          (pc2, D2) = acquire_step ck (up 1) pc1 D1;
          (pc3, D3) = acquire_step ck (up 2) pc2 D2
      in (case pc3 of AcqDone b \<Rightarrow> Inr b | _ \<Rightarrow> Inl DbFailed, D3))"

definition release_lock :: "bool \<Rightarrow> db \<Rightarrow> (store_error, db) result" where
  "release_lock up D = (if \<not> up then Inl DbFailed else Inr (D\<lparr>db_lock := None\<rparr>))"

section \<open>Processes\<close>

text \<open>What a process does with the lock: nothing, acquiring it, or holding it since a time.\<close>

datatype lock_phase = Outside | Acquiring acquire_pc | Holding time

record lock_world =
  lw_now :: time
  lw_db :: db
  lw_phase :: "nat \<Rightarrow> lock_phase"

record stamps =
  sm_stamp :: "time \<Rightarrow> string"
  sm_parse :: "string \<Rightarrow> time option"

text \<open>A stamp has milliseconds: read back it is the time less the part below a millisecond.\<close>

definition stamps_ok :: "stamps \<Rightarrow> bool" where
  "stamps_ok S \<longleftrightarrow> (\<forall>t. \<exists>u. sm_parse S (sm_stamp S t) = Some u \<and> u \<le> t \<and> t < u + 1000000)"

definition clock_at :: "stamps \<Rightarrow> time \<Rightarrow> clock" where
  "clock_at S t =
     \<lparr>ck_now = t, ck_stamp = sm_stamp S t, ck_parse_rfc3339 = sm_parse S, ck_parse_stamp = sm_parse S\<rparr>"

definition phase_after :: "time \<Rightarrow> acquire_pc \<Rightarrow> lock_phase" where
  "phase_after now pc =
     (case pc of AcqDone True \<Rightarrow> Holding now | AcqDone False \<Rightarrow> Outside | AcqFailed \<Rightarrow> Outside | _ \<Rightarrow> Acquiring pc)"

text \<open>
  Time passes freely: nothing in \<open>store.go\<close> or \<open>main.go\<close> bounds how long a holder keeps the lock. A
  run is the list of the worlds it went through, the newest first.
\<close>

inductive lock_step :: "stamps \<Rightarrow> lock_world \<Rightarrow> lock_world \<Rightarrow> bool" for S where
  Tick: "d \<ge> 0 \<Longrightarrow> lock_step S w (w\<lparr>lw_now := lw_now w + d\<rparr>)"
| Begin: "lw_phase w p = Outside \<Longrightarrow>
     lock_step S w (w\<lparr>lw_phase := (lw_phase w)(p := Acquiring AcqInsert)\<rparr>)"
| Statement: "lw_phase w p = Acquiring pc \<Longrightarrow> acquire_step (clock_at S (lw_now w)) up pc (lw_db w) = (pc', D') \<Longrightarrow>
     lock_step S w (w\<lparr>lw_db := D', lw_phase := (lw_phase w)(p := phase_after (lw_now w) pc')\<rparr>)"
| Release: "lw_phase w p = Holding t \<Longrightarrow> release_lock up (lw_db w) = r \<Longrightarrow>
     lock_step S w (w\<lparr>lw_db := (case r of Inl _ \<Rightarrow> lw_db w | Inr D' \<Rightarrow> D'), lw_phase := (lw_phase w)(p := Outside)\<rparr>)"
| Crash: "lock_step S w (w\<lparr>lw_phase := (lw_phase w)(p := Outside)\<rparr>)"

inductive lock_run :: "stamps \<Rightarrow> lock_world list \<Rightarrow> bool" for S where
  Start: "lock_run S [\<lparr>lw_now = t, lw_db = D, lw_phase = (\<lambda>_. Outside)\<rparr>]"
| Step: "lock_run S (w # ws) \<Longrightarrow> lock_step S w w' \<Longrightarrow> lock_run S (w' # w # ws)"

inductive_cases lock_stepE: "lock_step S w w'"

text \<open>A holder has kept the lock until its row is stale, less the millisecond a stamp drops.\<close>

definition overrun :: "lock_world \<Rightarrow> bool" where
  "overrun w \<longleftrightarrow> (\<exists>p t. lw_phase w p = Holding t \<and> lock_stale_after - 1000000 \<le> lw_now w - t)"

section \<open>Invariant\<close>

text \<open>
  As long as nobody has overrun: a holder's stamp is in the row and has not gone stale; two processes never hold at once; and
  a stamp that a process is about to take over is old already.
\<close>

definition lock_inv :: "stamps \<Rightarrow> lock_world \<Rightarrow> bool" where
  "lock_inv S w \<longleftrightarrow>
     (\<forall>p t. lw_phase w p = Holding t \<longrightarrow>
        db_lock (lw_db w) = Some (sm_stamp S t) \<and> lw_now w - t < lock_stale_after - 1000000) \<and>
     (\<forall>p q t u. lw_phase w p = Holding t \<and> lw_phase w q = Holding u \<longrightarrow> p = q) \<and>
     (\<forall>p a. lw_phase w p = Acquiring (AcqSteal a) \<longrightarrow> \<not> genuinely_active (clock_at S (lw_now w)) a) \<and>
     (\<forall>p b. lw_phase w p \<noteq> Acquiring (AcqDone b))"

lemma lock_invD:
  assumes "lock_inv S w"
  shows "lw_phase w p = Holding t \<Longrightarrow> db_lock (lw_db w) = Some (sm_stamp S t)"
    and "lw_phase w p = Holding t \<Longrightarrow> lw_now w - t < lock_stale_after - 1000000"
    and "lw_phase w p = Holding t \<Longrightarrow> lw_phase w q = Holding u \<Longrightarrow> p = q"
    and "lw_phase w p = Acquiring (AcqSteal a) \<Longrightarrow> \<not> genuinely_active (clock_at S (lw_now w)) a"
    and "lw_phase w p \<noteq> Acquiring (AcqDone b)"
  using assms unfolding lock_inv_def by blast+

text \<open>Stale stays stale, and a holder that has not overrun is active.\<close>

lemma stale_later:
  "\<not> genuinely_active (clock_at S t) a \<Longrightarrow> d \<ge> 0 \<Longrightarrow> \<not> genuinely_active (clock_at S (t + d)) a"
  by (auto simp: genuinely_active_def clock_at_def time_sub_less_iff lock_stale_after_def split: option.splits)

lemma holder_active:
  assumes "stamps_ok S" and "now - t < lock_stale_after - 1000000"
  shows "genuinely_active (clock_at S now) (sm_stamp S t)"
proof -
  obtain u where "sm_parse S (sm_stamp S t) = Some u" "u \<le> t" "t < u + 1000000"
    using assms(1) unfolding stamps_ok_def by blast
  with assms(2) show ?thesis
    by (simp add: genuinely_active_def clock_at_def time_sub_less_iff lock_stale_after_def)
qed

text \<open>A statement grants the lock only when nobody holds it.\<close>

lemma acquire_step_cases:
  assumes "acquire_step ck up pc D = (pc', D')"
  shows "D' = D \<and> (pc' = AcqDone True \<longrightarrow> pc = AcqDone True) \<or>
    pc' = AcqDone True \<and> D' = D\<lparr>db_lock := Some (ck_stamp ck)\<rparr> \<and>
    (db_lock D = None \<or> (\<exists>a. pc = AcqSteal a \<and> db_lock D = Some a))"
  using assms by (auto simp: acquire_step_def lock_insert_def Let_def split: acquire_pc.splits option.splits if_splits)

lemma acquire_step_steal:
  assumes "acquire_step ck up pc D = (AcqSteal a, D')" and "pc \<noteq> AcqSteal a"
  shows "\<not> genuinely_active ck a"
  using assms by (auto simp: acquire_step_def lock_insert_def Let_def split: acquire_pc.splits option.splits if_splits)

lemma acquire_step_not_steal: "acquire_step ck up (AcqSteal a) D \<noteq> (AcqSteal b, D')"
  by (auto simp: acquire_step_def)

lemma phase_after_simps [simp]:
  "phase_after now pc = Holding t \<longleftrightarrow> pc = AcqDone True \<and> t = now"
  "phase_after now pc = Acquiring (AcqSteal a) \<longleftrightarrow> pc = AcqSteal a"
  by (auto simp: phase_after_def split: acquire_pc.splits bool.splits)

lemma phase_after_not_done [simp]: "phase_after now pc \<noteq> Acquiring (AcqDone b)"
  by (auto simp: phase_after_def split: acquire_pc.splits bool.splits)

lemma grant_only_free:
  assumes I: "lock_inv S w" and S: "stamps_ok S"
    and p: "lw_phase w p = Acquiring pc"
    and row: "db_lock (lw_db w) = None \<or> (\<exists>a. pc = AcqSteal a \<and> db_lock (lw_db w) = Some a)"
  shows "lw_phase w q \<noteq> Holding t"
proof
  assume q: "lw_phase w q = Holding t"
  then have "db_lock (lw_db w) = Some (sm_stamp S t)" by (rule lock_invD(1) [OF I])
  with row p have "lw_phase w p = Acquiring (AcqSteal (sm_stamp S t))" by auto
  from lock_invD(4) [OF I this] holder_active [OF S lock_invD(2) [OF I q]] show False by contradiction
qed

lemma lock_inv_statement:
  assumes I: "lock_inv S w" and S: "stamps_ok S"
    and p: "lw_phase w p = Acquiring pc"
    and step: "acquire_step (clock_at S (lw_now w)) up pc (lw_db w) = (pc', D')"
  shows "lock_inv S (w\<lparr>lw_db := D', lw_phase := (lw_phase w)(p := phase_after (lw_now w) pc')\<rparr>)"
proof -
  have steal: "\<not> genuinely_active (clock_at S (lw_now w)) a" if "pc' = AcqSteal a" for a
    using acquire_step_steal [of "clock_at S (lw_now w)" up pc] step that acquire_step_not_steal by blast
  have "pc \<noteq> AcqDone True" using p lock_invD(5) [OF I] by auto
  with acquire_step_cases [OF step] consider
    (same) "D' = lw_db w" "pc' \<noteq> AcqDone True"
  | (grant) "pc' = AcqDone True" "D' = (lw_db w)\<lparr>db_lock := Some (sm_stamp S (lw_now w))\<rparr>"
      "\<And>q t. lw_phase w q \<noteq> Holding t"
    using grant_only_free [OF I S p] by (auto simp: clock_at_def)
  then show ?thesis
  proof cases
    case same
    then show ?thesis using I steal by (auto simp: lock_inv_def)
  next
    case grant
    then show ?thesis using I by (auto simp: lock_inv_def lock_stale_after_def)
  qed
qed

lemma lock_step_inv:
  assumes "lock_step S w w'" and I: "lock_inv S w" and S: "stamps_ok S" and fresh: "\<not> overrun w'"
  shows "lock_inv S w'"
  using assms(1)
proof (cases rule: lock_step.cases)
  case (Tick d)
  have "lw_now w + d - t < lock_stale_after - 1000000" if "lw_phase w p = Holding t" for p t
    using fresh that unfolding Tick(1) overrun_def by (auto simp: not_le)
  then show ?thesis using I Tick stale_later by (auto simp: lock_inv_def)
next
  case (Begin p)
  then show ?thesis using I by (auto simp: lock_inv_def)
next
  case (Statement p pc up pc' D')
  show ?thesis unfolding Statement(1) using Statement(2,3) by (rule lock_inv_statement [OF I S])
next
  case (Release p t up r)
  let ?f = "(lw_phase w)(p := Outside)"
  have none: "?f q \<noteq> Holding u" for q u
    using lock_invD(3) [OF I Release(2)] by (auto simp: fun_upd_def split: if_splits)
  have "?f q = Acquiring (AcqSteal a) \<Longrightarrow> \<not> genuinely_active (clock_at S (lw_now w)) a"
    and "?f q \<noteq> Acquiring (AcqDone b)" for q a b
    using lock_invD(4,5) [OF I, of q] by (auto split: if_splits)
  with none show ?thesis unfolding Release(1) lock_inv_def by simp
next
  case (Crash p)
  then show ?thesis using I by (auto simp: lock_inv_def)
qed

lemma lock_run_inv:
  "lock_run S ws \<Longrightarrow> stamps_ok S \<Longrightarrow> (\<exists>v \<in> set ws. overrun v) \<or> lock_inv S (hd ws)"
proof (induction rule: lock_run.induct)
  case (Start t D)
  show ?case by (simp add: lock_inv_def)
next
  case (Step w ws w')
  then show ?case using lock_step_inv by fastforce
qed

lemma acquire_lock_result:
  "acquire_lock ck (\<lambda>_. True) D =
     (case db_lock D of
        None \<Rightarrow> (Inr True, D\<lparr>db_lock := Some (ck_stamp ck)\<rparr>)
      | Some a \<Rightarrow> if genuinely_active ck a then (Inr False, D) else (Inr True, D\<lparr>db_lock := Some (ck_stamp ck)\<rparr>))"
  by (auto simp: acquire_lock_def acquire_step_def lock_insert_def split: option.splits)

lemma acquire_lock_granted:
  "acquire_lock ck up D = (Inr True, D') \<Longrightarrow> D' = D\<lparr>db_lock := Some (ck_stamp ck)\<rparr>"
  by (auto simp: acquire_lock_def acquire_step_def lock_insert_def Let_def
      split: option.splits if_splits acquire_pc.splits)

lemma acquire_lock_refused:
  "acquire_lock ck up D = (r, D') \<Longrightarrow> r \<noteq> Inr True \<Longrightarrow> D' = D"
  by (auto simp: acquire_lock_def acquire_step_def lock_insert_def Let_def
      split: option.splits if_splits acquire_pc.splits)

section \<open>Properties\<close>

text \<open>
  C11: however the statements of any number of processes interleave, however much time passes between
  them and whichever of them crash, at most one process holds the scan lock - unless at some moment of
  the run a holder has kept it until its row was stale, fifteen minutes less the millisecond a stamp drops.
\<close>

theorem one_scan_at_a_time:
  assumes "lock_run S (w # ws)" and "stamps_ok S"
    and "lw_phase w p = Holding t" and "lw_phase w q = Holding u"
  shows "p = q \<or> (\<exists>v \<in> set (w # ws). overrun v)"
  using lock_run_inv [OF assms(1,2)] lock_invD(3) [of S w p t q u] assms(3,4) by auto






definition ms_stamps :: stamps where
  "ms_stamps =
     \<lparr>sm_stamp = (\<lambda>t. if t < 0 then CHR ''-'' # replicate (nat (- (t div 1000000))) CHR ''i''
                       else replicate (nat (t div 1000000)) CHR ''i''),
      sm_parse = (\<lambda>s. case s of CHR ''-'' # r \<Rightarrow> Some (- int (length r) * 1000000)
                       | _ \<Rightarrow> Some (int (length s) * 1000000))\<rparr>"

lemma ms_stamps_ok: "stamps_ok ms_stamps"
  unfolding stamps_ok_def
proof
  fix t :: time
  have d: "t div 1000000 * 1000000 \<le> t" "t < t div 1000000 * 1000000 + 1000000" by simp_all
  have "sm_parse ms_stamps (sm_stamp ms_stamps t) = Some (t div 1000000 * 1000000)"
  proof (cases "t < 0")
    case True
    then have "t div 1000000 < 0" by simp
    with True show ?thesis by (simp add: ms_stamps_def)
  next
    case False
    then have "0 \<le> t div 1000000" by simp
    with False show ?thesis
      by (cases "nat (t div 1000000)") (auto simp: ms_stamps_def)
  qed
  with d show "\<exists>u. sm_parse ms_stamps (sm_stamp ms_stamps t) = Some u \<and> u \<le> t \<and> t < u + 1000000" by blast
qed

text \<open>One process of two has acquired the lock; the other finds it taken.\<close>

definition two_scans :: lock_world where
  "two_scans =
     \<lparr>lw_now = 5000000, lw_db = empty_db\<lparr>db_lock := Some (sm_stamp ms_stamps 5000000)\<rparr>,
      lw_phase = (\<lambda>_. Outside)(0 := Holding 5000000)\<rparr>"

lemma two_scans_run: "\<exists>ws. lock_run ms_stamps (two_scans # ws) \<and> (\<forall>v \<in> set (two_scans # ws). \<not> overrun v)"
proof -
  let ?w0 = "\<lparr>lw_now = 5000000, lw_db = empty_db, lw_phase = (\<lambda>_. Outside)\<rparr>"
  let ?w1 = "?w0\<lparr>lw_phase := (lw_phase ?w0)(0 := Acquiring AcqInsert)\<rparr>"
  let ?w2 = "?w1\<lparr>lw_db := empty_db\<lparr>db_lock := Some (sm_stamp ms_stamps 5000000)\<rparr>,
                lw_phase := (lw_phase ?w1)(0 := phase_after (lw_now ?w1) (AcqDone True))\<rparr>"
  let ?w3 = "?w2\<lparr>lw_phase := (lw_phase ?w2)(1 := Acquiring AcqInsert)\<rparr>"
  let ?w4 = "?w3\<lparr>lw_phase := (lw_phase ?w3)(1 := Acquiring AcqRead)\<rparr>"
  let ?w5 = "?w4\<lparr>lw_phase := (lw_phase ?w4)(1 := Outside)\<rparr>"
  have "lock_run ms_stamps [?w0]" by (rule Start)
  moreover have "lock_step ms_stamps ?w0 ?w1" by (rule Begin) simp
  moreover have "lock_step ms_stamps ?w1 ?w2"
    by (rule Statement [where pc = AcqInsert and up = True])
       (simp_all add: acquire_step_def lock_insert_def clock_at_def empty_db_def)
  moreover have "lock_step ms_stamps ?w2 ?w3" by (rule Begin) simp
  moreover have "lock_step ms_stamps ?w3 ?w4"
    using Statement [of ?w3 1 AcqInsert ms_stamps True AcqRead "lw_db ?w3"]
    by (simp add: acquire_step_def lock_insert_def phase_after_def)
  moreover have "lock_step ms_stamps ?w4 ?w5"
    using Statement [of ?w4 1 AcqRead ms_stamps True "AcqDone False" "lw_db ?w4"]
    using holder_active [OF ms_stamps_ok, of 5000000 5000000]
    by (simp add: acquire_step_def phase_after_def lock_stale_after_def)
  ultimately have "lock_run ms_stamps [?w5, ?w4, ?w3, ?w2, ?w1, ?w0]" by (meson lock_run.Step)
  moreover have "\<not> overrun v" if "v \<in> {?w0, ?w1, ?w2, ?w3, ?w4, ?w5}" for v
    using that by (auto simp: overrun_def phase_after_def lock_stale_after_def split: if_splits)
  moreover have "?w5 = two_scans" by (simp add: two_scans_def phase_after_def fun_eq_iff)
  ultimately show ?thesis by (intro exI [of _ "[?w4, ?w3, ?w2, ?w1, ?w0]"]) simp
qed

theorem one_scan_at_a_time_witness:
  "\<exists>ws. lock_run ms_stamps (two_scans # ws) \<and> lw_phase two_scans 0 = Holding 5000000 \<and>
     ((0 :: nat) = 0 \<or> (\<exists>v \<in> set (two_scans # ws). overrun v))"
proof -
  obtain ws where "lock_run ms_stamps (two_scans # ws)" using two_scans_run by blast
  moreover have "lw_phase two_scans 0 = Holding 5000000" by (simp add: two_scans_def)
  ultimately show ?thesis using one_scan_at_a_time [OF _ ms_stamps_ok] by blast
qed


end
