(* ===== verification/LeakMain.thy ===== *)
theory LeakMain imports LeakSafety LeakLock begin

text \<open>
  \<open>cmd/leakchecker/main.go\<close>: one invocation of the leak checker. Whether a scan is due, the lock, the global run, a run
  for every user account that is due, and the release. Opening the database, the log and the environment
  variables are I/O; their values are arguments.
\<close>

section \<open>Settings\<close>

definition default_scan_interval :: duration where
  "default_scan_interval = 5 * minute"

text \<open>\<open>parsed\<close> is what \<open>time.ParseDuration\<close> makes of the variable.\<close>

definition scan_interval :: "string \<Rightarrow> duration option \<Rightarrow> duration" where
  "scan_interval v parsed =
     (if v \<noteq> [] then (case parsed of Some d \<Rightarrow> if d \<ge> minute then d else default_scan_interval
                               | None \<Rightarrow> default_scan_interval)
      else default_scan_interval)"

definition getenv :: "string \<Rightarrow> string \<Rightarrow> string" where
  "getenv v def = (if v \<noteq> [] then v else def)"

definition new_github_client :: "string \<Rightarrow> gh_client" where
  "new_github_client token = (new_client token)\<lparr>gc_max_wait := 90 * second\<rparr>"

section \<open>Runs\<close>

record main_env =
  mv_scan :: scan_env
  mv_github :: "int option \<Rightarrow> gh_env"
  mv_interval :: duration
  mv_key :: "bytes option"
  mv_error_text :: "leak_error \<Rightarrow> string"

text \<open>A write whose failure is only logged.\<close>

definition db_write ::
  "main_env \<Rightarrow> (clock \<Rightarrow> bool \<Rightarrow> db \<Rightarrow> (store_error, db) result) \<Rightarrow> scan_state \<Rightarrow> scan_state" where
  "db_write M f st =
     (let n = sn_calls st; st1 = count_call st
      in case f (sv_clock (mv_scan M) n) (sv_up (mv_scan M) n) (sn_db st) of
           Inl e \<Rightarrow> st1
         | Inr D \<Rightarrow> st1\<lparr>sn_db := D\<rparr>)"

definition finish_with_error :: "main_env \<Rightarrow> int \<Rightarrow> string \<Rightarrow> scan_state \<Rightarrow> scan_state" where
  "finish_with_error M run_id e =
     db_write M (\<lambda>ck up D. finish_run ck up D run_id (empty_summary\<lparr>rs_err := Some e\<rparr>))"

text \<open>One run of the scanner with its own client, and its summary on the run's row.\<close>

definition run_scanner :: "main_env \<Rightarrow> int option \<Rightarrow> string \<Rightarrow> string \<Rightarrow> int \<Rightarrow> scan_state \<Rightarrow> scan_state" where
  "run_scanner M owner token base_url run_id st =
     (let st1 = scan_run \<lparr>sx_base_url = base_url, sx_owner = owner\<rparr> ((mv_scan M)\<lparr>sv_github := mv_github M owner\<rparr>)
                  (st\<lparr>sn_gh := new_github_client token\<rparr>)
      in db_write M (\<lambda>ck up D. finish_run ck up D run_id (sn_sum st1)) st1)"

definition global_run ::
  "main_env \<Rightarrow> string \<Rightarrow> (leak_error, string) result \<Rightarrow> scan_state \<Rightarrow> scan_state" where
  "global_run M requested base st =
     (let V = mv_scan M; n = sn_calls st
      in case start_run (sv_clock V n) (sv_up V n) (sn_db st) None of
           Inl e \<Rightarrow> count_call st
         | Inr (run_id, D) \<Rightarrow>
             (let st1 = (count_call (count_call st))\<lparr>sn_db := D\<rparr>
              in case github_token (sv_leak V) (sv_up V (Suc n)) D (mv_key M) of
                   Inl e \<Rightarrow> finish_with_error M run_id (mv_error_text M e) st1
                 | Inr None \<Rightarrow> finish_with_error M run_id ''no global GitHub token configured'' st1
                 | Inr (Some token) \<Rightarrow>
                     (case base of
                        Inl e \<Rightarrow> finish_with_error M run_id (mv_error_text M e) st1
                      | Inr base_url \<Rightarrow>
                          (let st2 = run_scanner M None token base_url run_id st1
                           in if requested = [] then st2
                              else db_write M (\<lambda>ck up D. clear_scan_request_if_unchanged up D requested) st2))))"

definition account_run ::
  "main_env \<Rightarrow> (leak_error, string) result \<Rightarrow> scan_account \<Rightarrow> scan_state \<Rightarrow> scan_state" where
  "account_run M base a st =
     (let V = mv_scan M; n = sn_calls st
      in case user_should_run (sv_clock V n) (sv_up V n) (sn_db st) (sa_id a) (sa_requested a) (mv_interval M) of
           Inl e \<Rightarrow> count_call st
         | Inr False \<Rightarrow> count_call st
         | Inr True \<Rightarrow>
             (case start_run (sv_clock V (Suc n)) (sv_up V (Suc n)) (sn_db st) (Some (sa_id a)) of
                Inl e \<Rightarrow> count_call (count_call st)
              | Inr (run_id, D) \<Rightarrow>
                  (let st1 = (count_call (count_call st))\<lparr>sn_db := D\<rparr>
                   in case sa_err a of
                        Some e \<Rightarrow> finish_with_error M run_id (mv_error_text M e) st1
                      | None \<Rightarrow>
                          (case base of
                             Inl e \<Rightarrow> finish_with_error M run_id (mv_error_text M e) st1
                           | Inr base_url \<Rightarrow>
                               (let st2 = run_scanner M (Some (sa_id a)) (sa_token a) base_url run_id st1
                                in if sa_requested a = [] then st2
                                   else db_write M (\<lambda>ck up D. clear_user_request_if_unchanged up D (sa_id a) (sa_requested a))
                                          st2)))))"

text \<open>Everything between acquiring and releasing the lock.\<close>

definition locked_part :: "main_env \<Rightarrow> bool \<Rightarrow> string \<Rightarrow> scan_state \<Rightarrow> scan_state" where
  "locked_part M global requested st =
     (let V = mv_scan M; n = sn_calls st;
          base = leak_base_url (sv_up V n) (sn_db st);
          st1 = (if global then global_run M requested base (count_call st) else count_call st);
          k = sn_calls st1
      in case user_scan_accounts (sv_leak V) (sv_up V k) (sn_db st1) (mv_key M) of
           Inl e \<Rightarrow> count_call st1
         | Inr accounts \<Rightarrow> fold (account_run M base) accounts (count_call st1))"

datatype main_exit = Fatal | NothingDue | AlreadyRunning | Finished

text \<open>Deciding takes three database operations, acquiring the lock at most three.\<close>

definition leakchecker_main :: "main_env \<Rightarrow> scan_state \<Rightarrow> main_exit \<times> scan_state" where
  "leakchecker_main M st =
     (let V = mv_scan M; n = sn_calls st; D = sn_db st
      in case should_run (sv_clock V n) (sv_up V n) (sv_up V (n + 1)) D (mv_interval M) of
           Inl e \<Rightarrow> (Fatal, st)
         | Inr (global, requested) \<Rightarrow>
             (case any_user_scan_due (sv_clock V (n + 2)) (sv_up V (n + 2)) D (mv_interval M) of
                Inl e \<Rightarrow> (Fatal, st)
              | Inr user_due \<Rightarrow>
                  if \<not> global \<and> \<not> user_due then (NothingDue, st)
                  else (case acquire_lock (sv_clock V (n + 3)) (\<lambda>i. sv_up V (n + 3 + i)) D of
                          (Inl e, D') \<Rightarrow> (Fatal, st\<lparr>sn_db := D'\<rparr>)
                        | (Inr False, D') \<Rightarrow> (AlreadyRunning, st\<lparr>sn_db := D'\<rparr>)
                        | (Inr True, D') \<Rightarrow>
                            (Finished, db_write M (\<lambda>ck up D. release_lock up D)
                               (locked_part M global requested (st\<lparr>sn_db := D', sn_calls := n + 6\<rparr>))))))"

section \<open>The lock during a run\<close>

definition lock_kept :: "string option \<Rightarrow> tally \<times> scan_state \<Rightarrow> bool" where
  "lock_kept l = (\<lambda>(ty, st). db_lock (sn_db st) = l)"

lemma record_match_lock: "record_match E up D m source url = (res, D') \<Longrightarrow> db_lock D' = db_lock D"
  using record_match_frame by (metis (no_types) db.select_convs(13) db.surjective db.update_convs(9,10))

lemma post_notice_lock: "db_lock (sn_db (snd (post_notice X V owner repo number url i st))) = db_lock (sn_db st)"
  by (auto simp: post_notice_def record_reply_def Let_def split: prod.split sum.splits if_splits)

lemma reply_publicly_lock: "db_lock (sn_db (snd (reply_publicly X V url i st))) = db_lock (sn_db st)"
  by (auto simp: reply_publicly_def post_notice_lock split: option.split prod.split sum.split bool.split)

lemma auto_revoke_lock: "auto_revoke E up D m i = (res, D') \<Longrightarrow> db_lock D' = db_lock D"
  by (auto simp: auto_revoke_def revoke_leaked_def revoke_token_def revoke_ap_def confirm_incident_def Let_def
      split: if_splits option.splits)

lemma respond_lock: "db_lock (sn_db (snd (respond X V m i source url st))) = db_lock (sn_db st)"
proof -
  obtain res D where r: "auto_revoke (env_at V (Suc (sn_calls st))) (sv_up V (Suc (sn_calls st))) (sn_db st) m i = (res, D)"
    by (rule prod.exhaust)
  with auto_revoke_lock [OF r] show ?thesis
    by (auto simp: respond_def Let_def reply_publicly_lock split: prod.split sum.split)
qed

lemma record_if_match_lock: "db_lock (sn_db (snd (record_if_match X V ap tx source url st))) = db_lock (sn_db st)"
proof (cases "classify (le_hashes (sv_leak V)) ap (sx_base_url X) tx")
  case None
  then show ?thesis by (simp add: record_if_match_def)
next
  case (Some m)
  obtain res D where r: "record_match (env_at V (sn_calls st)) (sv_up V (sn_calls st)) (sn_db st) m source url = (res, D)"
    by (rule prod.exhaust)
  with Some record_match_lock [OF r] show ?thesis
    by (auto simp: record_if_match_def Let_def respond_lock split: sum.split prod.split option.split)
qed

interpretation held: scan_invariant X V "lock_kept l" for X V l
proof
  fix ty ty' :: tally and st st' :: scan_state
  assume "lock_kept l (ty, st)" "sn_db st' = sn_db st"
  then show "lock_kept l (ty', st')" by (simp add: lock_kept_def)
next
  fix ty st ap tx source url ok st'
  assume "lock_kept l (ty, st)" "record_if_match X V ap tx source url st = (ok, st')"
  then show "lock_kept l (if ok then ty else ty\<lparr>ty_record_errors := ty_record_errors ty + 1\<rparr>, st')"
    using record_if_match_lock [of X V ap tx source url st] by (simp add: lock_kept_def)
next
  fix ty st ck up i D
  assume "lock_kept l (ty, st)" "touch_leak_source ck up (sn_db st) i = Inr D"
  then show "lock_kept l (ty, st\<lparr>sn_db := D\<rparr>)" by (auto simp: lock_kept_def touch_leak_source_def split: if_splits)
next
  fix ty st
  assume "lock_kept l (ty, st)"
  then show "lock_kept l (ty\<lparr>ty_record_errors := ty_record_errors ty + 1\<rparr>, st)" by (simp add: lock_kept_def)
qed

abbreviation row :: "scan_state \<Rightarrow> string option" where
  "row st \<equiv> db_lock (sn_db st)"

lemma scan_run_lock: "row (scan_run X V st) = row st"
  using held.scan_run_inv [of "row st" st X V] by (auto simp: lock_kept_def)

lemma db_write_lock:
  "(\<And>ck up D D'. f ck up D = Inr D' \<Longrightarrow> db_lock D' = db_lock D) \<Longrightarrow> row (db_write M f st) = row st"
  by (auto simp: db_write_def Let_def split: sum.split)

lemma bookkeeping_lock:
  "finish_run ck up D run_id summary = Inr D' \<Longrightarrow> db_lock D' = db_lock D"
  "clear_scan_request_if_unchanged up D seen = Inr D' \<Longrightarrow> db_lock D' = db_lock D"
  "clear_user_request_if_unchanged up D i seen = Inr D' \<Longrightarrow> db_lock D' = db_lock D"
  "start_run ck up D owner = Inr (i, D') \<Longrightarrow> db_lock D' = db_lock D"
  by (auto simp: finish_run_def clear_scan_request_if_unchanged_def clear_user_request_if_unchanged_def start_run_def Let_def
      split: if_splits)

lemma finish_with_error_lock: "row (finish_with_error M run_id e st) = row st"
  unfolding finish_with_error_def by (rule db_write_lock) (rule bookkeeping_lock(1))

lemma run_scanner_lock: "row (run_scanner M owner token base_url run_id st) = row st"
proof -
  have "row (db_write M (\<lambda>ck up D. finish_run ck up D run_id s) st') = row st'" for s st'
    by (rule db_write_lock) (rule bookkeeping_lock(1))
  then show ?thesis by (simp add: run_scanner_def Let_def scan_run_lock)
qed

lemma clear_lock:
  "row (db_write M (\<lambda>ck up D. clear_scan_request_if_unchanged up D seen) st) = row st"
  "row (db_write M (\<lambda>ck up D. clear_user_request_if_unchanged up D i seen) st) = row st"
  by (rule db_write_lock, erule bookkeeping_lock)+

lemma global_run_lock: "row (global_run M requested base st) = row st"
  by (auto simp: global_run_def Let_def finish_with_error_lock run_scanner_lock clear_lock bookkeeping_lock(4)
      split: sum.split option.split)

lemma account_run_lock: "row (account_run M base a st) = row st"
  by (auto simp: account_run_def Let_def finish_with_error_lock run_scanner_lock clear_lock bookkeeping_lock(4)
      split: sum.split option.split bool.split)

lemma accounts_lock: "row (fold (account_run M base) accounts st) = row st"
  by (induction accounts arbitrary: st) (simp_all add: account_run_lock)

lemma locked_part_lock: "row (locked_part M global requested st) = row st"
  by (auto simp: locked_part_def Let_def accounts_lock global_run_lock split: sum.split)

lemma acquire_when_up:
  "\<forall>n. up n \<Longrightarrow> acquire_lock ck up D = acquire_lock ck (\<lambda>_. True) D"
  by (simp add: acquire_lock_def)

section \<open>Properties\<close>

text \<open>
  C31: an invocation that does not get as far as scanning changes nothing. While another process holds a
  lock that is not stale no invocation scans. One that scans works with its own stamp in the lock row throughout, and leaves
  no lock behind when the release is answered.
\<close>

theorem main_keeps_lock_discipline:
  assumes "leakchecker_main M st = (exit, st')" and "\<forall>n. sv_up (mv_scan M) n"
  shows "(exit \<noteq> Finished \<longrightarrow> st' = st) \<and>
    (\<forall>a. db_lock (sn_db st) = Some a \<and> genuinely_active (sv_clock (mv_scan M) (sn_calls st + 3)) a \<longrightarrow> exit \<noteq> Finished) \<and>
    (exit = Finished \<longrightarrow> db_lock (sn_db st') = None \<and>
       (\<exists>global requested mid. st' = db_write M (\<lambda>ck up D. release_lock up D) (locked_part M global requested mid) \<and>
          db_lock (sn_db mid) = Some (ck_stamp (sv_clock (mv_scan M) (sn_calls st + 3))) \<and>
          db_lock (sn_db (locked_part M global requested mid)) = db_lock (sn_db mid)))"
proof -
  let ?V = "mv_scan M" and ?n = "sn_calls st" and ?D = "sn_db st"
  let ?ck = "sv_clock ?V (?n + 3)"
  obtain r D' where acq: "acquire_lock ?ck (\<lambda>_. True) ?D = (r, D')" by (rule prod.exhaust)
  have up: "acquire_lock ?ck (\<lambda>i. sv_up ?V (?n + 3 + i)) ?D = (r, D')"
    using acquire_when_up [of "\<lambda>i. sv_up ?V (?n + 3 + i)" ?ck ?D] assms(2) acq by simp
  have cases: "st' = st \<and> exit \<noteq> Finished \<or> (\<exists>global requested. exit = Finished \<and> r = Inr True \<and>
     st' = db_write M (\<lambda>ck up D. release_lock up D) (locked_part M global requested (st\<lparr>sn_db := D', sn_calls := ?n + 6\<rparr>)))"
    using assms(1) up acquire_lock_refused [OF acq]
    by (auto simp: leakchecker_main_def Let_def split: sum.splits prod.splits if_splits bool.splits)
  have granted: "D' = ?D\<lparr>db_lock := Some (ck_stamp ?ck)\<rparr>" if "r = Inr True"
    using acquire_lock_granted acq that by blast
  have busy: "r \<noteq> Inr True" if "db_lock ?D = Some a" "genuinely_active ?ck a" for a
    using acq that by (auto simp: acquire_lock_result)
  have released: "db_lock (sn_db (db_write M (\<lambda>ck up D. release_lock up D) s)) = None" for s
    using assms(2) by (simp add: db_write_def release_lock_def Let_def)
  show ?thesis
  proof (cases "exit = Finished")
    case False
    with cases show ?thesis by auto
  next
    case True
    with cases obtain global requested where s: "r = Inr True"
      "st' = db_write M (\<lambda>ck up D. release_lock up D) (locked_part M global requested (st\<lparr>sn_db := D', sn_calls := ?n + 6\<rparr>))"
      by auto
    let ?mid = "st\<lparr>sn_db := D', sn_calls := ?n + 6\<rparr>"
    have "db_lock (sn_db ?mid) = Some (ck_stamp ?ck)" using granted [OF s(1)] by simp
    then have "\<exists>global requested mid. st' = db_write M (\<lambda>ck up D. release_lock up D) (locked_part M global requested mid) \<and>
          db_lock (sn_db mid) = Some (ck_stamp ?ck) \<and> db_lock (sn_db (locked_part M global requested mid)) = db_lock (sn_db mid)"
      using s(2) locked_part_lock [of M global requested ?mid] by blast
    moreover have "\<not> (db_lock ?D = Some a \<and> genuinely_active ?ck a)" for a using busy s(1) by blast
    moreover have "db_lock (sn_db st') = None" unfolding s(2) by (rule released)
    ultimately show ?thesis using True by simp
  qed
qed

definition first_scan :: main_env where
  "first_scan =
     \<lparr>mv_scan = leaky_env, mv_github = (\<lambda>owner. sv_github leaky_env), mv_interval = default_scan_interval,
      mv_key = None, mv_error_text = (\<lambda>e. ''error'')\<rparr>"

theorem main_keeps_lock_discipline_witness:
  "fst (leakchecker_main first_scan scan_start) = Finished \<and>
   db_lock (sn_db (snd (leakchecker_main first_scan scan_start))) = None"
proof -
  have "fst (leakchecker_main first_scan scan_start) = Finished" by code_simp
  moreover have "\<forall>n. sv_up (mv_scan first_scan) n" by (simp add: first_scan_def leaky_env_def)
  ultimately show ?thesis
    using main_keeps_lock_discipline [OF prod.collapse [symmetric, of "leakchecker_main first_scan scan_start"]] by blast
qed

end
