(* ===== verification/SlateFont.thy ===== *)
theory SlateFont imports SlateText begin

text \<open>
  \<open>fitFontSize\<close> of \<open>internal/slate/text.go\<close>: the size of a text on an error screen, from the estimated widths of its
  runes. The source adds and divides in \<open>float64\<close>. Here a \<open>float64\<close> is a mantissa and an exponent, and every operation
  rounds its exact result to 53 bits, to the nearest and on a tie to the even one, as IEEE 754 asks. The values are not
  negative and far from overflow and underflow, so signs, infinities and subnormal numbers do not occur.
  The classes of letters and digits are the tables of the package \<open>unicode\<close> (Unicode 15).
\<close>

section \<open>float64\<close>

text \<open>\<open>(m, e)\<close> is \<open>m * 2 ^ e\<close>; a mantissa of at most 53 bits is exact.\<close>

type_synonym float64 = "int \<times> int"

definition half_even :: "int \<Rightarrow> nat \<Rightarrow> int" where
  "half_even m k =
     (let q = m div 2 ^ k; r = m mod 2 ^ k in if 2 * r > 2 ^ k \<or> 2 * r = 2 ^ k \<and> odd q then q + 1 else q)"

text \<open>How many bits a mantissa has beyond 53.\<close>

function excess :: "int \<Rightarrow> nat" where
  "excess m = (if m < 9007199254740992 then 0 else Suc (excess (m div 2)))"
  by pat_completeness auto
termination by (relation "measure nat") auto

declare excess.simps [simp del]

definition f64_round :: "int \<Rightarrow> int \<Rightarrow> float64" where
  "f64_round m e = (let k = excess m in (half_even m k, e + int k))"

definition f64_add :: "float64 \<Rightarrow> float64 \<Rightarrow> float64" where
  "f64_add x y =
     (let (m, e) = x; (n, f) = y; g = min e f in f64_round (m * 2 ^ nat (e - g) + n * 2 ^ nat (f - g)) g)"

text \<open>The dividend is multiplied by \<open>2 ^ 110\<close>, so the quotient has 56 bits or more, and a last bit tells whether it is exact, so that rounding it
  rounds the exact quotient.\<close>

definition f64_div :: "float64 \<Rightarrow> float64 \<Rightarrow> float64" where
  "f64_div x y =
     (let (m, e) = x; (n, f) = y; a = m * 1298074214633706907132624082305024
      in f64_round (2 * (a div n) + (if a mod n = 0 then 0 else 1)) (e - f - 111))"

definition f64_less :: "float64 \<Rightarrow> float64 \<Rightarrow> bool" where
  "f64_less x y = (let (m, e) = x; (n, f) = y; g = min e f in m * 2 ^ nat (e - g) < n * 2 ^ nat (f - g))"

text \<open>The conversion \<open>int(x)\<close>.\<close>

definition f64_trunc :: "float64 \<Rightarrow> int" where
  "f64_trunc x = (let (m, e) = x in if 0 \<le> e then m * 2 ^ nat e else m div 2 ^ nat (- e))"

definition f64_zero :: float64 where "f64_zero = (0, 0)"

section \<open>Upper case and digits\<close>

text \<open>The tables beyond Latin-1: a range and its stride.\<close>

definition upper_ranges :: "(rune \<times> rune \<times> int) list" where
  "upper_ranges =
    [(0x100, 0x136, 2), (0x139, 0x147, 2), (0x14A, 0x178, 2), (0x179, 0x17D, 2), (0x181, 0x182, 1), (0x184, 0x184, 1),
     (0x186, 0x187, 1), (0x189, 0x18B, 1), (0x18E, 0x191, 1), (0x193, 0x194, 1), (0x196, 0x198, 1),
     (0x19C, 0x19D, 1), (0x19F, 0x1A0, 1), (0x1A2, 0x1A6, 2), (0x1A7, 0x1A7, 1), (0x1A9, 0x1A9, 1),
     (0x1AC, 0x1AC, 1), (0x1AE, 0x1AF, 1), (0x1B1, 0x1B3, 1), (0x1B5, 0x1B5, 1), (0x1B7, 0x1B8, 1),
     (0x1BC, 0x1BC, 1), (0x1C4, 0x1CD, 3), (0x1CF, 0x1DB, 2), (0x1DE, 0x1EE, 2), (0x1F1, 0x1F1, 1),
     (0x1F4, 0x1F4, 1), (0x1F6, 0x1F8, 1), (0x1FA, 0x232, 2), (0x23A, 0x23B, 1), (0x23D, 0x23E, 1),
     (0x241, 0x241, 1), (0x243, 0x246, 1), (0x248, 0x24E, 2), (0x370, 0x370, 1), (0x372, 0x372, 1),
     (0x376, 0x376, 1), (0x37F, 0x37F, 1), (0x386, 0x386, 1), (0x388, 0x38A, 1), (0x38C, 0x38C, 1),
     (0x38E, 0x38F, 1), (0x391, 0x3A1, 1), (0x3A3, 0x3AB, 1), (0x3CF, 0x3CF, 1), (0x3D2, 0x3D4, 1),
     (0x3D8, 0x3EE, 2), (0x3F4, 0x3F4, 1), (0x3F7, 0x3F7, 1), (0x3F9, 0x3FA, 1), (0x3FD, 0x42F, 1),
     (0x460, 0x480, 2), (0x48A, 0x4C0, 2), (0x4C1, 0x4CD, 2), (0x4D0, 0x52E, 2), (0x531, 0x556, 1),
     (0x10A0, 0x10C5, 1), (0x10C7, 0x10C7, 1), (0x10CD, 0x10CD, 1), (0x13A0, 0x13F5, 1), (0x1C90, 0x1CBA, 1),
     (0x1CBD, 0x1CBF, 1), (0x1E00, 0x1E94, 2), (0x1E9E, 0x1EFE, 2), (0x1F08, 0x1F0F, 1), (0x1F18, 0x1F1D, 1),
     (0x1F28, 0x1F2F, 1), (0x1F38, 0x1F3F, 1), (0x1F48, 0x1F4D, 1), (0x1F59, 0x1F5F, 2), (0x1F68, 0x1F6F, 1),
     (0x1FB8, 0x1FBB, 1), (0x1FC8, 0x1FCB, 1), (0x1FD8, 0x1FDB, 1), (0x1FE8, 0x1FEC, 1), (0x1FF8, 0x1FFB, 1),
     (0x2102, 0x2102, 1), (0x2107, 0x2107, 1), (0x210B, 0x210D, 1), (0x2110, 0x2112, 1), (0x2115, 0x2115, 1),
     (0x2119, 0x211D, 1), (0x2124, 0x212A, 2), (0x212B, 0x212D, 1), (0x2130, 0x2133, 1), (0x213E, 0x213F, 1),
     (0x2145, 0x2145, 1), (0x2183, 0x2183, 1), (0x2C00, 0x2C2F, 1), (0x2C60, 0x2C60, 1), (0x2C62, 0x2C64, 1),
     (0x2C67, 0x2C6D, 2), (0x2C6E, 0x2C70, 1), (0x2C72, 0x2C72, 1), (0x2C75, 0x2C75, 1), (0x2C7E, 0x2C80, 1),
     (0x2C82, 0x2CE2, 2), (0x2CEB, 0x2CEB, 1), (0x2CED, 0x2CED, 1), (0x2CF2, 0x2CF2, 1), (0xA640, 0xA66C, 2),
     (0xA680, 0xA69A, 2), (0xA722, 0xA72E, 2), (0xA732, 0xA76E, 2), (0xA779, 0xA77D, 2), (0xA77E, 0xA786, 2),
     (0xA78B, 0xA78B, 1), (0xA78D, 0xA78D, 1), (0xA790, 0xA790, 1), (0xA792, 0xA792, 1), (0xA796, 0xA7AA, 2),
     (0xA7AB, 0xA7AE, 1), (0xA7B0, 0xA7B4, 1), (0xA7B6, 0xA7C4, 2), (0xA7C5, 0xA7C7, 1), (0xA7C9, 0xA7C9, 1),
     (0xA7D0, 0xA7D0, 1), (0xA7D6, 0xA7D6, 1), (0xA7D8, 0xA7D8, 1), (0xA7F5, 0xA7F5, 1), (0xFF21, 0xFF3A, 1),
     (0x10400, 0x10427, 1), (0x104B0, 0x104D3, 1), (0x10570, 0x1057A, 1), (0x1057C, 0x1058A, 1),
     (0x1058C, 0x10592, 1), (0x10594, 0x10595, 1), (0x10C80, 0x10CB2, 1), (0x118A0, 0x118BF, 1),
     (0x16E40, 0x16E5F, 1), (0x1D400, 0x1D419, 1), (0x1D434, 0x1D44D, 1), (0x1D468, 0x1D481, 1),
     (0x1D49C, 0x1D49C, 1), (0x1D49E, 0x1D49F, 1), (0x1D4A2, 0x1D4A2, 1), (0x1D4A5, 0x1D4A6, 1),
     (0x1D4A9, 0x1D4AC, 1), (0x1D4AE, 0x1D4B5, 1), (0x1D4D0, 0x1D4E9, 1), (0x1D504, 0x1D505, 1),
     (0x1D507, 0x1D50A, 1), (0x1D50D, 0x1D514, 1), (0x1D516, 0x1D51C, 1), (0x1D538, 0x1D539, 1),
     (0x1D53B, 0x1D53E, 1), (0x1D540, 0x1D544, 1), (0x1D546, 0x1D546, 1), (0x1D54A, 0x1D550, 1),
     (0x1D56C, 0x1D585, 1), (0x1D5A0, 0x1D5B9, 1), (0x1D5D4, 0x1D5ED, 1), (0x1D608, 0x1D621, 1),
     (0x1D63C, 0x1D655, 1), (0x1D670, 0x1D689, 1), (0x1D6A8, 0x1D6C0, 1), (0x1D6E2, 0x1D6FA, 1),
     (0x1D71C, 0x1D734, 1), (0x1D756, 0x1D76E, 1), (0x1D790, 0x1D7A8, 1), (0x1D7CA, 0x1D7CA, 1), (0x1E900, 0x1E921, 1)]"

definition digit_ranges :: "(rune \<times> rune) list" where
  "digit_ranges =
    [(0x660, 0x669), (0x6F0, 0x6F9), (0x7C0, 0x7C9), (0x966, 0x96F), (0x9E6, 0x9EF), (0xA66, 0xA6F), (0xAE6, 0xAEF),
     (0xB66, 0xB6F), (0xBE6, 0xBEF), (0xC66, 0xC6F), (0xCE6, 0xCEF), (0xD66, 0xD6F), (0xDE6, 0xDEF), (0xE50, 0xE59),
     (0xED0, 0xED9), (0xF20, 0xF29), (0x1040, 0x1049), (0x1090, 0x1099), (0x17E0, 0x17E9), (0x1810, 0x1819),
     (0x1946, 0x194F), (0x19D0, 0x19D9), (0x1A80, 0x1A89), (0x1A90, 0x1A99), (0x1B50, 0x1B59), (0x1BB0, 0x1BB9),
     (0x1C40, 0x1C49), (0x1C50, 0x1C59), (0xA620, 0xA629), (0xA8D0, 0xA8D9), (0xA900, 0xA909), (0xA9D0, 0xA9D9),
     (0xA9F0, 0xA9F9), (0xAA50, 0xAA59), (0xABF0, 0xABF9), (0xFF10, 0xFF19), (0x104A0, 0x104A9), (0x10D30, 0x10D39),
     (0x11066, 0x1106F), (0x110F0, 0x110F9), (0x11136, 0x1113F), (0x111D0, 0x111D9), (0x112F0, 0x112F9),
     (0x11450, 0x11459), (0x114D0, 0x114D9), (0x11650, 0x11659), (0x116C0, 0x116C9), (0x11730, 0x11739),
     (0x118E0, 0x118E9), (0x11950, 0x11959), (0x11C50, 0x11C59), (0x11D50, 0x11D59), (0x11DA0, 0x11DA9),
     (0x11F50, 0x11F59), (0x16A60, 0x16A69), (0x16AC0, 0x16AC9), (0x16B50, 0x16B59), (0x1D7CE, 0x1D7FF),
     (0x1E140, 0x1E149), (0x1E2F0, 0x1E2F9), (0x1E4F0, 0x1E4F9), (0x1E950, 0x1E959), (0x1FBF0, 0x1FBF9)]"

definition rune_upper :: "rune \<Rightarrow> bool" where
  "rune_upper r =
     (if r \<le> 0xFF then 0x41 \<le> r \<and> r \<le> 0x5A \<or> 0xC0 \<le> r \<and> r \<le> 0xDE \<and> r \<noteq> 0xD7
      else list_ex (\<lambda>(lo, hi, d). lo \<le> r \<and> r \<le> hi \<and> (r - lo) mod d = 0) upper_ranges)"

definition rune_digit :: "rune \<Rightarrow> bool" where
  "rune_digit r = (if r \<le> 0xFF then 0x30 \<le> r \<and> r \<le> 0x39 else list_ex (\<lambda>(lo, hi). lo \<le> r \<and> r \<le> hi) digit_ranges)"

section \<open>The size of a text\<close>

text \<open>Each constant is the \<open>float64\<close> next to its decimal, 1.12 for example; lemma \<open>width_const_nearest\<close>.
  The code points are those of \<open>W M\<close>, \<open>w m\<close> and \<open>ilftj.,:;!'|\<close>.\<close>

definition narrow_runes :: "rune list" where
  "narrow_runes = [105, 108, 102, 116, 106, 46, 44, 58, 59, 33, 39, 124]"

definition width_const :: "rune \<Rightarrow> float64" where
  "width_const r =
     (if r = 87 \<or> r = 77 then (5044031582654956, - 52)
      else if r = 119 \<or> r = 109 then (8556839292003942, - 53)
      else if r = rune_sp then (7205759403792794, - 54)
      else if r \<in> set narrow_runes then (4503599627370496, - 53)
      else if rune_upper r then (8106479329266893, - 53)
      else if rune_digit r then (6755399441055744, - 53)
      else if r > 127 then (5179139571476070, - 52)
      else (6305039478318694, - 53))"

definition f64_line_width :: "rune list \<Rightarrow> float64" where
  "f64_line_width line = foldl (\<lambda>w r. f64_add w (width_const r)) f64_zero line"

definition f64_longest :: "rune list \<Rightarrow> float64" where
  "f64_longest s =
     foldl (\<lambda>b line. let w = f64_line_width line in if f64_less b w then w else b) f64_zero (split_runes rune_nl s)"

definition fit_font_size :: "rune list \<Rightarrow> int \<Rightarrow> int" where
  "fit_font_size s maximum =
     (let longest = f64_longest s
      in if fst longest = 0 then maximum
         else (let n = f64_trunc (f64_div (1280, 0) longest); n = (if n < 28 then 28 else n)
               in if n > maximum then maximum else n))"

section \<open>The rounding\<close>

text \<open>Rounding moves a value by one part in \<open>2 ^ 53\<close> at most.\<close>

lemma half_even_0 [simp]: "half_even m 0 = m"
  by (simp add: half_even_def)

lemma half_even_error: "2 * \<bar>half_even m k * 2 ^ k - m\<bar> \<le> 2 ^ k"
proof -
  define q r where "q = m div 2 ^ k" and "r = m mod 2 ^ k"
  have m: "m = q * 2 ^ k + r" unfolding q_def r_def by (rule div_mult_mod_eq [symmetric])
  have r: "0 \<le> r" "r < 2 ^ k" by (simp_all add: r_def)
  have "half_even m k = (if 2 * r > 2 ^ k \<or> 2 * r = 2 ^ k \<and> odd q then q + 1 else q)"
    by (simp add: half_even_def Let_def q_def r_def)
  then have "half_even m k = q \<and> 2 * r \<le> 2 ^ k \<or> half_even m k = q + 1 \<and> 2 ^ k \<le> 2 * r" by auto
  then show ?thesis using r by (auto simp: m algebra_simps)
qed

lemma excess_low: "excess m = Suc k \<Longrightarrow> 2 ^ (53 + k) \<le> m"
proof (induction k arbitrary: m)
  case 0
  then show ?case by (subst (asm) excess.simps) (auto split: if_splits)
next
  case (Suc k)
  from Suc.prems have "excess (m div 2) = Suc k" by (subst (asm) excess.simps) (auto split: if_splits)
  with Suc.IH have "2 ^ (53 + k) \<le> m div 2" by blast
  moreover have "2 * (m div 2) \<le> m" by simp
  ultimately have "2 * 2 ^ (53 + k) \<le> m" by linarith
  then show ?case by (simp add: power_add)
qed

lemma excess_high: "m < 2 ^ (53 + excess m)"
proof (induction m rule: excess.induct)
  case (1 m)
  show ?case
  proof (cases "m < 9007199254740992")
    case False
    with 1 have "m div 2 < 2 ^ (53 + excess (m div 2))" by simp
    then have "m < 2 * 2 ^ (53 + excess (m div 2))" by linarith
    with False show ?thesis by (subst excess.simps) (simp add: power_add)
  qed (subst excess.simps; simp)
qed

lemma round_mantissa: "0 \<le> m \<Longrightarrow> 0 \<le> fst (f64_round m e) \<and> fst (f64_round m e) \<le> 9007199254740992"
proof -
  assume m: "0 \<le> m"
  have "m < 9007199254740992 * 2 ^ excess m" using excess_high [of m] by (simp add: power_add)
  moreover have "(m div 2 ^ excess m) * 2 ^ excess m \<le> m"
  proof -
    have "0 \<le> m mod 2 ^ excess m" by simp
    then show ?thesis using div_mult_mod_eq [of m "2 ^ excess m"] by linarith
  qed
  ultimately have "(m div 2 ^ excess m) * 2 ^ excess m < 9007199254740992 * 2 ^ excess m" by (rule le_less_trans [rotated])
  then have "m div 2 ^ excess m < 9007199254740992" by simp
  moreover have "0 \<le> m div 2 ^ excess m" using m by (simp add: pos_imp_zdiv_nonneg_iff)
  ultimately show ?thesis by (simp add: f64_round_def half_even_def Let_def)
qed

lemma round_error: "0 \<le> m \<Longrightarrow> 9007199254740992 * \<bar>half_even m (excess m) * 2 ^ excess m - m\<bar> \<le> m"
proof (cases "excess m")
  case (Suc k)
  from half_even_error [of m "Suc k"] have "\<bar>half_even m (Suc k) * 2 ^ Suc k - m\<bar> \<le> 2 ^ k" by simp
  then have "9007199254740992 * \<bar>half_even m (Suc k) * 2 ^ Suc k - m\<bar> \<le> 2 ^ (53 + k)" by (simp add: power_add)
  also note excess_low [OF Suc]
  finally show ?thesis by (simp add: Suc)
qed simp

section \<open>The widths in decimal\<close>

text \<open>In hundredths of the font size.\<close>

definition rune_width :: "rune \<Rightarrow> int" where
  "rune_width r =
     (if r \<in> set (ascii_runes ''WM'') then 112
      else if r \<in> set (ascii_runes ''wm'') then 95
      else if r = rune_sp then 40
      else if r \<in> set (ascii_runes ''ilftj.,:;!|'') \<or> r = 39 then 50
      else if rune_upper r then 90
      else if rune_digit r then 75
      else if r > 127 then 115
      else 70)"

definition text_width :: "rune list \<Rightarrow> int" where
  "text_width line = sum_list (map rune_width line)"

lemma ascii_sets:
  "set (ascii_runes ''WM'') = {87, 77}" "set (ascii_runes ''wm'') = {119, 109}"
  "set (ascii_runes ''ilftj.,:;!|'') = {105, 108, 102, 116, 106, 46, 44, 58, 59, 33, 124}"
  by (simp_all add: ascii_runes_def)

text \<open>The constants are what the division rounds the decimals to.\<close>

lemma width_const_nearest: "width_const r = f64_div (rune_width r, 0) (100, 0)"
proof -
  have "f64_div (112, 0) (100, 0) = (5044031582654956, - 52)" "f64_div (95, 0) (100, 0) = (8556839292003942, - 53)"
    "f64_div (40, 0) (100, 0) = (7205759403792794, - 54)" "f64_div (50, 0) (100, 0) = (4503599627370496, - 53)"
    "f64_div (90, 0) (100, 0) = (8106479329266893, - 53)" "f64_div (75, 0) (100, 0) = (6755399441055744, - 53)"
    "f64_div (115, 0) (100, 0) = (5179139571476070, - 52)" "f64_div (70, 0) (100, 0) = (6305039478318694, - 53)"
    by code_simp+
  then show ?thesis by (simp add: width_const_def rune_width_def ascii_sets narrow_runes_def)
qed

lemma rune_width_bounds: "0 < rune_width r" "rune_width r \<le> 115"
  by (simp_all add: rune_width_def)

lemma text_width_bounds: "0 \<le> text_width l \<and> text_width l \<le> 115 * int (length l)"
proof (induction l)
  case (Cons r l)
  with rune_width_bounds [of r] show ?case by (simp add: text_width_def)
qed (simp add: text_width_def)

end
