(* ===== verification/Slate.thy ===== *)
theory Slate imports SlateFont Store Urls IpAddr NodeProto begin

text \<open>
  \<open>internal/slate/slate.go\<close>: the manager of the error-screen videos, and the audio settings of
  \<open>internal/store/store.go\<close>.

  A \<open>*session\<close> is an index into the list of all sessions ever started. Each critical section is one
  operation; \<open>GetPath\<close> is \<open>get_locked\<close> and then, for a playlist, the wait for its file, in which others
  act between the looks. Go walks a map in any order: the order is an argument. The files are the
  directories that hold a playlist.
\<close>

section \<open>Audio\<close>

record audio_settings =
  au_file :: string
  au_url :: string
  au_volume :: int

definition no_audio :: audio_settings where
  "no_audio = \<lparr>au_file = [], au_url = [], au_volume = 0\<rparr>"

text \<open>\<open>fmt.Sscanf(value, "%d", ...)\<close>: blanks, a sign, digits; the rest is ignored.\<close>

definition sscanf_int :: "string \<Rightarrow> int option" where
  "sscanf_int value =
     (let s = dropWhile (\<lambda>c. ascii_space c \<and> c \<noteq> CHR 0x0A) value;
          sign = (case s of c # r \<Rightarrow> if c = CHR ''+'' \<or> c = CHR ''-'' then [c] else [] | [] \<Rightarrow> [])
      in case parse_int64 (sign @ takeWhile is_digit (drop (length sign) s)) of
           (n, ParseOk) \<Rightarrow> Some n
         | _ \<Rightarrow> None)"

definition slate_audio_settings :: "bool \<Rightarrow> db \<Rightarrow> audio_settings option" where
  "slate_audio_settings up D =
     (if \<not> up then None
      else (let get = (\<lambda>k. case map_of (db_settings D) k of None \<Rightarrow> [] | Some v \<Rightarrow> v)
            in case map_of (db_settings D) ''slate_audio_volume'' of
                 None \<Rightarrow> Some \<lparr>au_file = get ''slate_audio_file'', au_url = get ''slate_audio_url'', au_volume = 0\<rparr>
               | Some v \<Rightarrow>
                   (case sscanf_int v of
                      None \<Rightarrow> None
                    | Some n \<Rightarrow>
                        Some \<lparr>au_file = get ''slate_audio_file'', au_url = get ''slate_audio_url'', au_volume = n\<rparr>)))"

section \<open>State\<close>

record descriptor =
  de_variant :: string
  de_ap :: int
  de_token :: int
  de_cutoff :: time
  de_last_used :: time

record slate_session =
  ss_started :: time
  ss_dir :: string
  ss_last_used :: time
  ss_radio :: bool
  ss_audio :: audio_settings
  ss_has_audio :: bool
  ss_text :: slate_text
  ss_files :: "(string \<times> rune list) list"
  ss_args :: "string list"  \<comment> \<open>the command line of its FFmpeg\<close>
  ss_done :: bool

record slate_manager =
  sl_heap :: "slate_session list"
  sl_sessions :: "(string \<times> nat) list"
  sl_personal :: "(string \<times> descriptor) list"
  sl_failed_at :: "string \<rightharpoonup> time"
  sl_muted :: "string \<rightharpoonup> time"
  sl_fallbacks :: "string \<rightharpoonup> string"
  sl_stopped :: bool
  sl_playlists :: "string list"

definition new_slates :: slate_manager where
  "new_slates =
     \<lparr>sl_heap = [], sl_sessions = [], sl_personal = [], sl_failed_at = Map.empty, sl_muted = Map.empty,
      sl_fallbacks = Map.empty, sl_stopped = False, sl_playlists = []\<rparr>"

definition slate_idle_time :: duration where "slate_idle_time = 90 * second"
definition restart_backoff :: duration where "restart_backoff = 10 * second"
definition slate_short_lived :: duration where "slate_short_lived = 30 * second"
definition max_personal :: nat where "max_personal = 3"
definition max_processes :: nat where "max_processes = 4"

text \<open>What is fixed when the manager is made: the secret, and how \<open>time.Format\<close> prints a time (as
  \<open>time.RFC3339Nano\<close>, and as \<open>02.01.2006 15:04\<close> in Prague).\<close>

record slate_config =
  sf_hashes :: hashes
  sf_secret :: bytes
  sf_print_time :: "time \<Rightarrow> string"
  sf_local_time :: "time \<Rightarrow> string"
  sf_assets :: string
  sf_data_dir :: string

text \<open>
  What an operation finds outside: the clock, the order of the map, the loaders (a missing audio
  loader, one that fails, or settings), the directory \<open>os.MkdirTemp\<close> makes beside the ones that
  exist, if it can, which fonts there are, which preparations succeed, DNS and URLs.
\<close>

datatype preparation = StatAsset | WriteTitle | WriteSubtitle | StatBold | WriteCutoff | Spawn

record slate_env =
  sw_now :: time
  sw_order :: "(string \<times> nat) list \<Rightarrow> (string \<times> nat) list"
  sw_audio :: "audio_settings option option"
  sw_text :: "(string \<Rightarrow> slate_text option) option"
  sw_dir :: "string list \<Rightarrow> string option"
  sw_font :: "string \<Rightarrow> bool"
  sw_ok :: "preparation \<Rightarrow> bool"
  sw_lookup :: "string \<Rightarrow> ip list option"
  sw_parse :: "string \<Rightarrow> url option"

abbreviation slate_at :: "slate_manager \<Rightarrow> nat \<Rightarrow> slate_session" where
  "slate_at m r \<equiv> sl_heap m ! r"

definition session_dirs :: "slate_manager \<Rightarrow> string list" where
  "session_dirs m = map (\<lambda>(i, r). ss_dir (slate_at m r)) (sl_sessions m)"

definition upd_slate :: "slate_manager \<Rightarrow> nat \<Rightarrow> (slate_session \<Rightarrow> slate_session) \<Rightarrow> slate_manager" where
  "upd_slate m r f = m\<lparr>sl_heap := (sl_heap m)[r := f (slate_at m r)]\<rparr>"

section \<open>Personal slates\<close>

definition descriptor_text :: "slate_config \<Rightarrow> descriptor \<Rightarrow> string" where
  "descriptor_text C d =
     de_variant d @ ''|'' @ format_int (de_ap d) @ ''|'' @ format_int (de_token d) @ ''|'' @ sf_print_time C (de_cutoff d)"

definition slate_signature :: "slate_config \<Rightarrow> descriptor \<Rightarrow> string" where
  "slate_signature C d = hex_encode (take 20 (hmac256 (sf_hashes C) (sf_secret C) (descriptor_text C d)))"

definition prepare ::
  "slate_config \<Rightarrow> time \<Rightarrow> slate_manager \<Rightarrow> string \<Rightarrow> int \<Rightarrow> int \<Rightarrow> time \<Rightarrow> string \<times> slate_manager" where
  "prepare C now m variant ap token cutoff =
     (if \<not> valid_variant variant \<or> ap \<le> 0 \<or> cutoff = zero_time then ([], m)
      else if sl_stopped m then ([], m)
      else (let d = \<lparr>de_variant = variant, de_ap = ap, de_token = token, de_cutoff = cutoff, de_last_used = now\<rparr>;
                key = slate_signature C d
            in case map_of (sl_personal m) key of
                 Some old \<Rightarrow> (key, m\<lparr>sl_personal := AList.update key (old\<lparr>de_last_used := now\<rparr>) (sl_personal m)\<rparr>)
               | None \<Rightarrow>
                   if length (sl_personal m) \<ge> max_personal then ([], m)
                   else (key, m\<lparr>sl_personal := AList.update key d (sl_personal m)\<rparr>)))"

section \<open>The encoder\<close>

definition file_in :: "string \<Rightarrow> string \<Rightarrow> string" where
  "file_in dir name = dir @ ''/'' @ name"

definition validate_audio_url :: "slate_env \<Rightarrow> string \<Rightarrow> bool" where
  "validate_audio_url E raw =
     (case sw_parse E raw of
        None \<Rightarrow> False
      | Some u \<Rightarrow>
          if to_lower (u_scheme u) \<noteq> ''http'' \<and> to_lower (u_scheme u) \<noteq> ''https'' \<or> hostname u = [] \<or> u_user u \<noteq> None
          then False
          else (case sw_lookup E (hostname u) of
                  None \<Rightarrow> False
                | Some ips \<Rightarrow> ips \<noteq> [] \<and> list_all public_ip ips))"

definition silence :: "string list" where
  "silence = [''-re'', ''-f'', ''lavfi'', ''-i'', ''anullsrc=r=48000:cl=stereo'']"

text \<open>The arguments for the audio input and whether it is the radio. A name that matches \<open>audioName\<close> has no
  slash, so the test of \<open>filepath.Base\<close> never decides.\<close>

definition audio_args :: "slate_config \<Rightarrow> slate_env \<Rightarrow> audio_settings \<Rightarrow> (string list \<times> bool) option" where
  "audio_args C E a =
     (if au_volume a < 0 \<or> au_volume a > 100 then None
      else if au_volume a = 0 \<or> au_file a = [] \<and> au_url a = [] then Some (silence, False)
      else if au_file a \<noteq> []
      then (if \<not> audio_name (au_file a) then None
            else Some ([''-re'', ''-stream_loop'', ''-1'', ''-i'',
                        file_in (file_in (sf_data_dir C) ''slate-audio'') (au_file a)], False))
      else if \<not> validate_audio_url E (au_url a) then None
      else Some ([''-reconnect'', ''1'', ''-reconnect_streamed'', ''1'', ''-reconnect_delay_max'', ''5'',
                  ''-reconnect_max_retries'', ''3'', ''-rw_timeout'', ''5000000'', ''-max_redirects'', ''0'',
                  ''-protocol_whitelist'', ''http,https,tcp,tls'', ''-i'', au_url a], True))"

text \<open>The text a session shows: the operator's if it loads and is clean, else the default.\<close>

definition shown_text :: "slate_env \<Rightarrow> string \<Rightarrow> slate_text" where
  "shown_text E reason =
     (case sw_text E of
        None \<Rightarrow> default_text reason
      | Some load \<Rightarrow>
          (case load reason of
             None \<Rightarrow> default_text reason
           | Some loaded \<Rightarrow> (case normalize_text loaded of None \<Rightarrow> default_text reason | Some clean \<Rightarrow> clean)))"

definition font_path :: "(string \<Rightarrow> bool) \<Rightarrow> string option" where
  "font_path exists =
     List.find exists [''/usr/local/share/streamvault/fonts/DejaVuSans.ttf'', ''../../assets/fonts/DejaVuSans.ttf'',
       ''/usr/share/fonts/dejavu/DejaVuSans.ttf'', ''/usr/share/fonts/truetype/dejavu/DejaVuSans.ttf'']"

text \<open>\<open>filepath.Dir\<close> of the font.\<close>

definition bold_font :: "string \<Rightarrow> string" where
  "bold_font font =
     file_in (case last_index_byte font CHR ''/'' of Some i \<Rightarrow> take i font | None \<Rightarrow> ''.'') ''DejaVuSans-Bold.ttf''"

definition drawtext :: "string \<Rightarrow> string \<Rightarrow> string \<Rightarrow> int \<Rightarrow> string \<Rightarrow> string" where
  "drawtext font source colour points rest =
     ''drawtext=fontfile='' @ font @ '':'' @ source @ '':fontcolor='' @ colour @ '':fontsize='' @ format_int points @ '':'' @ rest"

abbreviation backslash :: char where "backslash \<equiv> CHR 0x5C"
abbreviation apostrophe :: char where "apostrophe \<equiv> CHR 0x27"

definition clock_format :: string where
  "clock_format =
     ''text='' @ [apostrophe] @ ''%{localtime'' @ [backslash] @ '':%d.%m.%Y %H'' @ replicate 3 backslash @ '':%M'' @
     replicate 3 backslash @ '':%S}'' @ [apostrophe]"

definition slate_filter :: "string \<Rightarrow> string \<Rightarrow> bool \<Rightarrow> int \<Rightarrow> int \<Rightarrow> string" where
  "slate_filter font dir cutoff title_size subtitle_size =
     drawtext (bold_font font) (''textfile='' @ file_in dir ''title.txt'') ''0xedf3ff'' title_size ''x=432:y=360'' @ '','' @
     drawtext font (''textfile='' @ file_in dir ''subtitle.txt'') ''0xa8b7d0'' subtitle_size ''line_spacing=12:x=432:y=515'' @ '','' @
     drawtext font clock_format ''0xedf3ff'' 46 ''x=153:y=903'' @
     (if cutoff then '','' @ drawtext font (''textfile='' @ file_in dir ''cutoff.txt'') ''0xa8b7d0'' 38 ''x=153:y=968'' else [])"

text \<open>\<open>strconv.FormatFloat(v / 100, 'f', 2, 64)\<close> for a volume from 0 to 100.\<close>

definition volume_text :: "int \<Rightarrow> string" where
  "volume_text v =
     format_int (v div 100) @ ''.'' @ format_int (v mod 100 div 10) @ format_int (v mod 10)"

definition ffmpeg_args :: "string \<Rightarrow> string list \<Rightarrow> string \<Rightarrow> int \<Rightarrow> string \<Rightarrow> string list" where
  "ffmpeg_args asset audio graph volume dir =
     [''-hide_banner'', ''-loglevel'', ''error'', ''-nostdin'', ''-re'', ''-stream_loop'', ''-1'', ''-i'', asset] @ audio @
     [''-vf'', graph, ''-map'', ''0:v:0'', ''-map'', ''1:a:0'', ''-c:v'', ''libx264'', ''-preset'', ''ultrafast'',
      ''-tune'', ''stillimage'', ''-crf'', ''30'', ''-pix_fmt'', ''yuv420p'', ''-r'', ''10'', ''-g'', ''20'',
      ''-keyint_min'', ''20'', ''-sc_threshold'', ''0'', ''-c:a'', ''aac'', ''-b:a'', ''192k'', ''-ar'', ''48000'',
      ''-ac'', ''2'', ''-af'', ''volume='' @ volume_text volume, ''-threads'', ''1'', ''-f'', ''hls'',
      ''-hls_time'', ''2'', ''-hls_list_size'', ''6'', ''-hls_flags'', ''delete_segments+omit_endlist+temp_file'',
      ''-hls_segment_filename'', file_in dir ''seg%06d.ts'', file_in dir ''index.m3u8'']"

definition write_cutoff :: "slate_config \<Rightarrow> time \<Rightarrow> string \<times> rune list" where
  "write_cutoff C t = (''cutoff.txt'', ascii_runes (''Cut off: '' @ sf_local_time C t))"

definition loaded_audio :: "slate_env \<Rightarrow> audio_settings option" where
  "loaded_audio E = (case sw_audio E of None \<Rightarrow> None | Some r \<Rightarrow> r)"

text \<open>The audio that is played: the settings unless the session must be silent, silence when they do not hold up.\<close>

definition chosen_audio :: "slate_config \<Rightarrow> slate_env \<Rightarrow> bool \<Rightarrow> (string list \<times> bool) \<times> int" where
  "chosen_audio C E force_silent =
     (let a = (case loaded_audio E of None \<Rightarrow> no_audio | Some l \<Rightarrow> if force_silent then no_audio else l)
      in case audio_args C E a of
           Some p \<Rightarrow> (p, au_volume a)
         | None \<Rightarrow> ((silence, False), 0))"

definition start_slate ::
  "slate_config \<Rightarrow> slate_env \<Rightarrow> string list \<Rightarrow> string \<Rightarrow> descriptor option \<Rightarrow> bool \<Rightarrow> slate_session option" where
  "start_slate C E taken variant d force_silent =
     (case (sw_dir E taken, font_path (sw_font E), split_variant variant) of
        (Some dir, Some font, Some (base, reason)) \<Rightarrow>
          (let cutoff_files = (case d of None \<Rightarrow> []
                  | Some d \<Rightarrow> if de_cutoff d = zero_time then [] else [write_cutoff C (de_cutoff d)]);
               cutoff = (cutoff_files \<noteq> []);
               copy = shown_text E reason; wrapped = wrap_subtitle (tx_subtitle copy);
               ((audio, radio), volume) = chosen_audio C E force_silent;
               graph = slate_filter font dir cutoff (fit_font_size (tx_title copy) 117)
                         (fit_font_size wrapped 47)
           in if \<not> list_all (sw_ok E) [StatAsset, WriteTitle, WriteSubtitle, StatBold, Spawn] \<or> cutoff \<and> \<not> sw_ok E WriteCutoff
              then None
              else Some \<lparr>ss_started = sw_now E, ss_dir = dir, ss_last_used = sw_now E, ss_radio = radio,
                         ss_audio = (case loaded_audio E of None \<Rightarrow> no_audio | Some l \<Rightarrow> l),
                         ss_has_audio = loaded_audio E \<noteq> None, ss_text = copy,
                         ss_files = [(''title.txt'', tx_title copy), (''subtitle.txt'', wrapped)] @ cutoff_files,
                         ss_args = ffmpeg_args (file_in (sf_assets C) (base @ ''.mp4'')) audio graph volume dir,
                         ss_done = False\<rparr>)
      | _ \<Rightarrow> None)"

section \<open>Looking a session up\<close>

definition slate_id :: "string \<Rightarrow> string \<Rightarrow> string" where
  "slate_id variant key = (if key = [] then variant else variant @ ''/'' @ key)"

text \<open>The sessions anybody may be shown have no key in their identifier.\<close>

definition generic :: "string \<Rightarrow> bool" where
  "generic target \<longleftrightarrow> CHR ''/'' \<notin> set target"

definition base_of_id :: "string \<Rightarrow> string" where
  "base_of_id target = (case split_variant (fst (cut_at CHR ''/'' target)) of None \<Rightarrow> [] | Some (base, _) \<Rightarrow> base)"

text \<open>The descriptor of a key, used now; \<open>Inl\<close> when there is none for this variant.\<close>

definition personal_of ::
  "slate_config \<Rightarrow> slate_env \<Rightarrow> slate_manager \<Rightarrow> string \<Rightarrow> string \<Rightarrow> (slate_manager \<times> descriptor option) option" where
  "personal_of C E m variant key =
     (if key = [] then Some (m, None)
      else (case map_of (sl_personal m) key of
              None \<Rightarrow> None
            | Some d \<Rightarrow>
                if de_variant d \<noteq> variant \<or> key \<noteq> slate_signature C d then None
                else (let d' = d\<lparr>de_last_used := sw_now E\<rparr>
                      in Some (m\<lparr>sl_personal := AList.update key d' (sl_personal m)\<rparr>, Some d'))))"

text \<open>The session of an identifier, or its remembered fallback while there are six sessions.\<close>

definition find_slate :: "slate_manager \<Rightarrow> string \<Rightarrow> nat option \<times> string \<times> slate_manager" where
  "find_slate m i =
     (case map_of (sl_sessions m) i of
        Some r \<Rightarrow> (Some r, i, m)
      | None \<Rightarrow>
          (case sl_fallbacks m i of
             None \<Rightarrow> (None, i, m)
           | Some target \<Rightarrow>
               if target = [] then (None, i, m)
               else if length (sl_sessions m) < 6 then (None, i, m\<lparr>sl_fallbacks := (sl_fallbacks m)(i := None)\<rparr>)
               else (case map_of (sl_sessions m) target of
                       Some r \<Rightarrow> (Some r, target, m)
                     | None \<Rightarrow> (None, target, m\<lparr>sl_fallbacks := (sl_fallbacks m)(i := None)\<rparr>))))"

definition remove_slate :: "slate_manager \<Rightarrow> string \<Rightarrow> nat \<Rightarrow> slate_manager" where
  "remove_slate m i r =
     m\<lparr>sl_sessions := AList.delete i (sl_sessions m),
       sl_playlists := removeAll (ss_dir (slate_at m r)) (sl_playlists m)\<rparr>"

text \<open>A session whose encoder has exited is dropped: the radio is muted for five minutes, a short life backs off.\<close>

definition drop_dead :: "time \<Rightarrow> string \<Rightarrow> nat option \<times> string \<times> slate_manager \<Rightarrow> nat option \<times> slate_manager" where
  "drop_dead now i = (\<lambda>(found, actual, m).
     (case found of
        None \<Rightarrow> (None, m)
      | Some r \<Rightarrow>
          if \<not> ss_done (slate_at m r) then (Some r, m)
          else (let m1 = (if ss_radio (slate_at m r)
                          then m\<lparr>sl_muted := (sl_muted m)(actual \<mapsto> now + 5 * minute),
                                 sl_failed_at := (sl_failed_at m)(actual := None)\<rparr>
                          else if time_sub now (ss_started (slate_at m r)) < slate_short_lived
                          then m\<lparr>sl_failed_at := (sl_failed_at m)(actual \<mapsto> now)\<rparr>
                          else m)
                in (None, (remove_slate m1 actual r)\<lparr>sl_fallbacks := (sl_fallbacks m1)(i := None)\<rparr>))))"

text \<open>When the cap is reached: a generic session, of the same base if the walk meets one.\<close>

definition choose_fallback :: "slate_env \<Rightarrow> slate_manager \<Rightarrow> string \<Rightarrow> (string \<times> nat) option" where
  "choose_fallback E m variant =
     (case List.find (\<lambda>(t, r). generic t \<and> base_of_id t = base_of_id variant) (sw_order E (sl_sessions m)) of
        Some p \<Rightarrow> Some p
      | None \<Rightarrow> List.find (\<lambda>(t, r). generic t) (sw_order E (sl_sessions m)))"

definition backing_off :: "time \<Rightarrow> slate_manager \<Rightarrow> string \<Rightarrow> bool" where
  "backing_off now m i = (case sl_failed_at m i of None \<Rightarrow> False | Some t \<Rightarrow> time_sub now t < restart_backoff)"

definition muted :: "time \<Rightarrow> slate_manager \<Rightarrow> string \<Rightarrow> bool" where
  "muted now m i = (case sl_muted m i of None \<Rightarrow> False | Some t \<Rightarrow> now < t)"

definition new_session ::
  "slate_config \<Rightarrow> slate_env \<Rightarrow> slate_manager \<Rightarrow> string \<Rightarrow> string \<Rightarrow> descriptor option \<Rightarrow>
   (slate_error, nat) result \<times> slate_manager" where
  "new_session C E m variant i d =
     (if backing_off (sw_now E) m i then (Inl (SlateFailed ''slate encoder backing off''), m)
      else if length (sl_sessions m) \<ge> max_processes
      then (case choose_fallback E m variant of
              None \<Rightarrow> (Inl (SlateFailed ''slate session cap reached''), m)
            | Some (target, r) \<Rightarrow> (Inr r, m\<lparr>sl_fallbacks := (sl_fallbacks m)(i \<mapsto> target)\<rparr>))
      else (case start_slate C E (session_dirs m) variant d (muted (sw_now E) m i) of
              None \<Rightarrow> (Inl (SlateFailed ''slate start failed''), m\<lparr>sl_failed_at := (sl_failed_at m)(i \<mapsto> sw_now E)\<rparr>)
            | Some s \<Rightarrow>
                (Inr (length (sl_heap m)),
                 m\<lparr>sl_heap := sl_heap m @ [s], sl_sessions := AList.update i (length (sl_heap m)) (sl_sessions m)\<rparr>)))"

definition touch_slate :: "time \<Rightarrow> nat \<Rightarrow> slate_manager \<Rightarrow> slate_manager" where
  "touch_slate now r m = upd_slate m r (\<lambda>s. s\<lparr>ss_last_used := now\<rparr>)"

text \<open>\<open>GetPath\<close> up to its last unlock.\<close>

definition get_locked ::
  "slate_config \<Rightarrow> slate_env \<Rightarrow> slate_manager \<Rightarrow> string \<Rightarrow> string \<Rightarrow> string \<Rightarrow>
   (slate_error, nat) result \<times> slate_manager" where
  "get_locked C E m variant key name =
     (if \<not> valid_variant variant \<or> \<not> slate_valid_name name \<or> key \<noteq> [] \<and> \<not> valid_key key then (Inl NotExist, m)
      else if sl_stopped m then (Inl (SlateFailed ''slate manager closed''), m)
      else (case personal_of C E m variant key of
              None \<Rightarrow> (Inl NotExist, m)
            | Some (m1, d) \<Rightarrow>
                (let i = slate_id variant key
                 in case drop_dead (sw_now E) i (find_slate m1 i) of
                      (Some r, m2) \<Rightarrow> (Inr r, touch_slate (sw_now E) r m2)
                    | (None, m2) \<Rightarrow>
                        (case new_session C E m2 variant i d of
                           (Inl e, m3) \<Rightarrow> (Inl e, m3)
                         | (Inr r, m3) \<Rightarrow> (Inr r, touch_slate (sw_now E) r m3)))))"

section \<open>Waiting for a playlist\<close>

text \<open>A process ends when it is told to; the ones that ended are waited for.\<close>

definition end_process :: "nat \<Rightarrow> slate_manager \<Rightarrow> slate_manager" where
  "end_process r m = upd_slate m r (\<lambda>s. s\<lparr>ss_done := True\<rparr>)"

text \<open>
  Between two looks at the file others act, and one of the three channels is taken: the encoder's
  end (if it has ended), the deadline, or the tick. \<open>None\<close> when the turns are over and it still waits.
\<close>

datatype wait_event = EncoderDone | DeadlinePassed | Tick

record slate_turn =
  wt_env :: slate_env
  wt_meanwhile :: "slate_manager \<Rightarrow> slate_manager"
  wt_event :: wait_event

type_synonym slate_answer = "(slate_error, string \<times> string) result \<times> slate_manager"

fun slate_wait ::
  "slate_config \<Rightarrow> slate_turn list \<Rightarrow> string \<Rightarrow> string \<Rightarrow> nat \<Rightarrow> slate_manager \<Rightarrow> slate_answer option" where
  "slate_wait C turns variant key r m =
     (if ss_dir (slate_at m r) \<in> set (sl_playlists m) then Some (Inr (ss_dir (slate_at m r), ''index.m3u8''), m)
      else (case turns of
              [] \<Rightarrow> None
            | t # ts \<Rightarrow>
                (let m1 = wt_meanwhile t m; radio = ss_radio (slate_at m1 r);
                     again = (\<lambda>m2. case get_locked C (wt_env t) m2 variant key ''index.m3u8'' of
                                (Inl e, m3) \<Rightarrow> Some (Inl e, m3)
                              | (Inr r', m3) \<Rightarrow> slate_wait C ts variant key r' m3)
                 in case wt_event t of
                      Tick \<Rightarrow> slate_wait C ts variant key r m1
                    | EncoderDone \<Rightarrow>
                        if \<not> ss_done (slate_at m1 r) then slate_wait C ts variant key r m1
                        else if radio then again m1
                        else Some (Inl (SlateFailed ''slate encoder exited before playlist''), m1)
                    | DeadlinePassed \<Rightarrow>
                        if radio then again (end_process r m1)
                        else Some (Inl (SlateFailed ''slate playlist startup timeout''), m1))))"

declare slate_wait.simps [simp del]

definition slate_get_path ::
  "slate_config \<Rightarrow> slate_env \<Rightarrow> slate_turn list \<Rightarrow> slate_manager \<Rightarrow> string \<Rightarrow> string \<Rightarrow> string \<Rightarrow> slate_answer option" where
  "slate_get_path C E turns m variant key name =
     (case get_locked C E m variant key name of
        (Inl e, m1) \<Rightarrow> Some (Inl e, m1)
      | (Inr r, m1) \<Rightarrow>
          if name = ''index.m3u8'' then slate_wait C turns variant key r m1
          else Some (Inr (ss_dir (slate_at m1 r), name), m1))"

section \<open>Housekeeping\<close>

definition end_session :: "string \<times> nat \<Rightarrow> slate_manager \<Rightarrow> slate_manager" where
  "end_session = (\<lambda>(i, r) m. remove_slate (end_process r m) i r)"

definition slate_idle :: "time \<Rightarrow> slate_session \<Rightarrow> bool" where
  "slate_idle now s \<longleftrightarrow> time_sub now (ss_last_used s) > slate_idle_time"

definition slate_reap :: "time \<Rightarrow> slate_manager \<Rightarrow> slate_manager" where
  "slate_reap now m =
     (let m1 = fold end_session (filter (\<lambda>(i, r). slate_idle now (slate_at m r)) (sl_sessions m)) m
      in m1\<lparr>sl_personal := filter (\<lambda>(k, d). \<not> time_sub now (de_last_used d) > slate_idle_time) (sl_personal m1)\<rparr>)"

definition text_changed :: "slate_env \<Rightarrow> string \<Rightarrow> slate_session \<Rightarrow> bool" where
  "text_changed E i s =
     (case sw_text E of
        None \<Rightarrow> False
      | Some load \<Rightarrow>
          (case split_variant (fst (cut_at CHR ''/'' i)) of
             None \<Rightarrow> False
           | Some (_, reason) \<Rightarrow>
               (case load reason of
                  None \<Rightarrow> False
                | Some current \<Rightarrow>
                    (case normalize_text current of None \<Rightarrow> False | Some clean \<Rightarrow> clean \<noteq> ss_text s))))"

definition audio_changed :: "slate_env \<Rightarrow> slate_session \<Rightarrow> bool" where
  "audio_changed E s =
     (case sw_audio E of
        Some (Some cur) \<Rightarrow> ss_has_audio s \<and> ss_audio s \<noteq> cur
      | _ \<Rightarrow> False)"

definition restart_on_audio_change :: "slate_env \<Rightarrow> slate_manager \<Rightarrow> slate_manager" where
  "restart_on_audio_change E m =
     (if sw_audio E = Some None then m
      else fold end_session
             (filter (\<lambda>(i, r). audio_changed E (slate_at m r) \<or> text_changed E i (slate_at m r)) (sl_sessions m)) m)"

definition close_slates :: "slate_manager \<Rightarrow> slate_manager" where
  "close_slates m =
     (if sl_stopped m then m
      else (fold end_session (sl_sessions m) m)\<lparr>sl_stopped := True\<rparr>)"

end
