(* ===== verification/SlateSafety.thy ===== *)
theory SlateSafety imports Slate begin

text \<open>
  What the manager of the error-screen videos keeps: the steps of its operations, the invariant of its
  tables, how many encoders run, whom a personal video is shown, and what its encoders are given.
\<close>

section \<open>Steps\<close>

text \<open>The map order is a permutation, and a new directory is not one that exists.\<close>

definition fair_env :: "slate_env \<Rightarrow> bool" where
  "fair_env E \<longleftrightarrow> (\<forall>xs. set (sw_order E xs) = set xs) \<and> (\<forall>ds d. sw_dir E ds = Some d \<longrightarrow> d \<notin> set ds)"

inductive slate_step :: "slate_config \<Rightarrow> slate_manager \<Rightarrow> slate_manager \<Rightarrow> bool" for C where
  step_prepare: "slate_step C m (snd (prepare C now m variant ap token cutoff))"
| step_get: "fair_env E \<Longrightarrow> slate_step C m (snd (get_locked C E m variant key name))"
| step_exit: "slate_step C m (end_process r m)"
| step_playlist: "r < length (sl_heap m) \<Longrightarrow> \<not> ss_done (slate_at m r) \<Longrightarrow>
    slate_step C m (m\<lparr>sl_playlists := ss_dir (slate_at m r) # sl_playlists m\<rparr>)"
| step_reap: "slate_step C m (slate_reap now m)"
| step_restart: "slate_step C m (restart_on_audio_change E m)"
| step_close: "slate_step C m (close_slates m)"

inductive slate_reachable :: "slate_config \<Rightarrow> slate_manager \<Rightarrow> bool" for C where
  reach_new: "slate_reachable C new_slates"
| reach_step: "slate_reachable C m \<Longrightarrow> slate_step C m m' \<Longrightarrow> slate_reachable C m'"

section \<open>Invariant\<close>

text \<open>An identifier is a variant, or a variant and a key.\<close>

definition typed_id :: "string \<Rightarrow> bool" where
  "typed_id i \<longleftrightarrow> (\<exists>variant key. i = slate_id variant key \<and> valid_variant variant \<and> (key = [] \<or> valid_key key))"

definition typed_descriptor :: "slate_config \<Rightarrow> string \<Rightarrow> descriptor \<Rightarrow> bool" where
  "typed_descriptor C k d \<longleftrightarrow>
     k = slate_signature C d \<and> valid_variant (de_variant d) \<and> de_ap d > 0 \<and> de_cutoff d \<noteq> zero_time"

definition slate_typed :: "slate_config \<Rightarrow> slate_manager \<Rightarrow> bool" where
  "slate_typed C m \<longleftrightarrow>
     distinct (map fst (sl_sessions m)) \<and> distinct (map snd (sl_sessions m)) \<and> distinct (map fst (sl_personal m)) \<and>
     distinct (session_dirs m) \<and>
     (\<forall>i r. (i, r) \<in> set (sl_sessions m) \<longrightarrow> r < length (sl_heap m) \<and> typed_id i) \<and>
     (\<forall>k d. (k, d) \<in> set (sl_personal m) \<longrightarrow> typed_descriptor C k d)"

definition slate_bounded :: "slate_manager \<Rightarrow> bool" where
  "slate_bounded m \<longleftrightarrow>
     length (sl_sessions m) \<le> max_processes \<and> length (sl_personal m) \<le> max_personal \<and>
     (\<forall>r < length (sl_heap m). \<not> ss_done (slate_at m r) \<longrightarrow> r \<in> snd ` set (sl_sessions m))"

definition slate_files :: "slate_manager \<Rightarrow> bool" where
  "slate_files m \<longleftrightarrow>
     set (sl_playlists m) \<subseteq> set (session_dirs m) \<and>
     (sl_stopped m \<longrightarrow> sl_sessions m = [])"

definition slate_inv :: "slate_config \<Rightarrow> slate_manager \<Rightarrow> bool" where
  "slate_inv C m \<longleftrightarrow> slate_typed C m \<and> slate_bounded m \<and> slate_files m"

lemmas slate_inv_defs = slate_inv_def slate_typed_def slate_bounded_def slate_files_def

lemma session_dirs_cong:
  "sl_sessions m' = sl_sessions m \<Longrightarrow> (\<And>i r. (i, r) \<in> set (sl_sessions m) \<Longrightarrow> ss_dir (slate_at m' r) = ss_dir (slate_at m r)) \<Longrightarrow>
   session_dirs m' = session_dirs m"
  by (auto simp: session_dirs_def)

text \<open>Changes that do not concern the invariant.\<close>

lemma slate_inv_frame:
  "slate_inv C m \<Longrightarrow> sl_heap m' = sl_heap m \<Longrightarrow> sl_sessions m' = sl_sessions m \<Longrightarrow> sl_personal m' = sl_personal m \<Longrightarrow>
   sl_stopped m' = sl_stopped m \<Longrightarrow> sl_playlists m' = sl_playlists m \<Longrightarrow> slate_inv C m'"
  using session_dirs_cong [of m' m] by (simp add: slate_inv_defs)

lemma upd_slate_simps [simp]:
  "sl_sessions (upd_slate m r f) = sl_sessions m" "sl_personal (upd_slate m r f) = sl_personal m"
  "sl_failed_at (upd_slate m r f) = sl_failed_at m" "sl_muted (upd_slate m r f) = sl_muted m"
  "sl_fallbacks (upd_slate m r f) = sl_fallbacks m" "sl_stopped (upd_slate m r f) = sl_stopped m"
  "sl_playlists (upd_slate m r f) = sl_playlists m" "length (sl_heap (upd_slate m r f)) = length (sl_heap m)"
  by (simp_all add: upd_slate_def)

lemma upd_slate_at: "r < length (sl_heap m) \<Longrightarrow> slate_at (upd_slate m r f) q = (if q = r then f (slate_at m r) else slate_at m q)"
  by (simp add: upd_slate_def)

lemma upd_slate_field:
  "g (f (slate_at m r)) = g (slate_at m r) \<Longrightarrow> g (slate_at (upd_slate m r f) q) = g (slate_at m q)"
  by (cases "r < length (sl_heap m)") (auto simp: upd_slate_def nth_list_update list_update_beyond)

text \<open>A session keeps its directory, and what has ended does not run again.\<close>

lemma upd_slate_inv:
  assumes "slate_inv C m" and "ss_dir (f (slate_at m r)) = ss_dir (slate_at m r)"
    and "ss_done (slate_at m r) \<Longrightarrow> ss_done (f (slate_at m r))"
  shows "slate_inv C (upd_slate m r f)"
proof -
  have dir: "ss_dir (slate_at (upd_slate m r f) q) = ss_dir (slate_at m q)" for q
    using upd_slate_field [where g = ss_dir] assms(2) by blast
  have dirs: "session_dirs (upd_slate m r f) = session_dirs m" by (rule session_dirs_cong) (simp_all add: dir)
  have run: "\<not> ss_done (slate_at (upd_slate m r f) q) \<Longrightarrow> \<not> ss_done (slate_at m q)" for q
  proof (cases "r < length (sl_heap m)")
    case True
    then show "\<not> ss_done (slate_at (upd_slate m r f) q) \<Longrightarrow> \<not> ss_done (slate_at m q)"
      using assms(3) by (auto simp: upd_slate_at split: if_splits)
  qed (simp add: upd_slate_def list_update_beyond)
  show ?thesis using assms(1) run by (simp add: slate_inv_defs dirs)
qed

lemma touch_slate_inv: "slate_inv C m \<Longrightarrow> slate_inv C (touch_slate now r m)"
  unfolding touch_slate_def by (rule upd_slate_inv) simp_all

lemma end_process_inv: "slate_inv C m \<Longrightarrow> slate_inv C (end_process r m)"
  unfolding end_process_def by (rule upd_slate_inv) simp_all

text \<open>Removing a session that has ended.\<close>

lemma delete_entry:
  "distinct (map fst xs) \<Longrightarrow> (i, r) \<in> set xs \<Longrightarrow> set (AList.delete i xs) = set xs - {(i, r)}"
  by (auto simp: AList.delete_eq dest: eq_key_imp_eq_value)

lemma remove_slate_inv:
  assumes "slate_inv C m" and "(i, r) \<in> set (sl_sessions m)" and "ss_done (slate_at m r)"
  shows "slate_inv C (remove_slate m i r)"
proof -
  let ?xs = "sl_sessions m"
  have d: "distinct (map fst ?xs)" "distinct (map snd ?xs)" using assms(1) by (simp_all add: slate_inv_defs)
  have set: "set (AList.delete i ?xs) = set ?xs - {(i, r)}" by (rule delete_entry [OF d(1) assms(2)])
  have r: "q = r \<Longrightarrow> (j, q) \<in> set ?xs \<Longrightarrow> j = i" for j q
    using d(2) assms(2) by (metis (mono_tags, lifting) distinct_map fst_conv inj_onD snd_conv)
  have d': "distinct (map fst (AList.delete i ?xs))" "distinct (map snd (AList.delete i ?xs))"
    using d by (simp_all add: AList.delete_eq distinct_map_filter)
  have len: "length (AList.delete i ?xs) \<le> length ?xs" by (simp add: AList.delete_eq)
  have run: "q \<in> snd ` set (AList.delete i ?xs)" if "q < length (sl_heap m)" "\<not> ss_done (slate_at m q)" for q
  proof -
    from assms(1) that obtain j where "(j, q) \<in> set ?xs" by (auto simp: slate_inv_defs)
    moreover have "q \<noteq> r" using that(2) assms(3) by auto
    ultimately show ?thesis unfolding set by force
  qed
  have dirs: "session_dirs (remove_slate m i r) = map (\<lambda>(i, r). ss_dir (slate_at m r)) (filter (\<lambda>(j, q). i \<noteq> j) (sl_sessions m))"
    by (simp add: session_dirs_def remove_slate_def AList.delete_eq case_prod_unfold)
  have dd: "distinct (session_dirs (remove_slate m i r))"
    using assms(1) unfolding dirs by (simp add: slate_inv_defs session_dirs_def distinct_map_filter)
  have files: "set (sl_playlists (remove_slate m i r)) \<subseteq> set (session_dirs (remove_slate m i r))"
  proof
    fix x assume "x \<in> set (sl_playlists (remove_slate m i r))"
    then have x: "x \<in> set (session_dirs m)" "x \<noteq> ss_dir (slate_at m r)"
      using assms(1) by (auto simp: remove_slate_def slate_inv_defs)
    then obtain j q where "(j, q) \<in> set (sl_sessions m)" "x = ss_dir (slate_at m q)" "q \<noteq> r"
      by (auto simp: session_dirs_def)
    moreover have "j \<noteq> i"
      using eq_key_imp_eq_value [OF d(1), of i q r] calculation(1,3) assms(2) by auto
    ultimately show "x \<in> set (session_dirs (remove_slate m i r))" unfolding dirs by force
  qed
  have simps: "sl_sessions (remove_slate m i r) = AList.delete i ?xs" "sl_personal (remove_slate m i r) = sl_personal m"
    "sl_stopped (remove_slate m i r) = sl_stopped m" "sl_heap (remove_slate m i r) = sl_heap m"
    by (simp_all add: remove_slate_def)
  show ?thesis
    using assms(1) d' len run unfolding slate_inv_def
  proof (intro conjI)
    show "slate_typed C (remove_slate m i r)"
      using assms(1) d' dd by (auto simp: slate_inv_def slate_typed_def simps set)
    show "slate_bounded (remove_slate m i r)"
      using assms(1) len run by (auto simp: slate_inv_def slate_bounded_def simps)
    show "slate_files (remove_slate m i r)"
      using assms(1) files by (auto simp: slate_inv_def slate_files_def simps AList.delete_eq)
  qed
qed

lemma end_session_inv:
  assumes "slate_inv C m" and "(i, r) \<in> set (sl_sessions m)"
  shows "slate_inv C (end_session (i, r) m)"
proof -
  have "r < length (sl_heap m)" using assms by (auto simp: slate_inv_defs)
  then have "ss_done (slate_at (end_process r m) r)" by (simp add: end_process_def upd_slate_at)
  moreover have "(i, r) \<in> set (sl_sessions (end_process r m))" using assms(2) by (simp add: end_process_def)
  ultimately show ?thesis
    unfolding end_session_def prod.case by (intro remove_slate_inv end_process_inv assms(1))
qed

lemma end_session_simps:
  "sl_sessions (end_session (i, r) m) = AList.delete i (sl_sessions m)" "sl_personal (end_session (i, r) m) = sl_personal m"
  "sl_stopped (end_session (i, r) m) = sl_stopped m" "length (sl_heap (end_session (i, r) m)) = length (sl_heap m)"
  by (simp_all add: end_session_def remove_slate_def end_process_def)

lemma end_sessions_inv:
  "slate_inv C m \<Longrightarrow> distinct (map fst ps) \<Longrightarrow> set ps \<subseteq> set (sl_sessions m) \<Longrightarrow> slate_inv C (fold end_session ps m)"
proof (induction ps arbitrary: m)
  case (Cons p ps)
  obtain i r where p: "p = (i, r)" by (rule prod.exhaust)
  from Cons.prems p have "(i, r) \<in> set (sl_sessions m)" by simp
  note inv = end_session_inv [OF Cons.prems(1) this]
  have "distinct (map fst (sl_sessions m))" using Cons.prems(1) by (simp add: slate_inv_defs)
  from delete_entry [OF this \<open>(i, r) \<in> set (sl_sessions m)\<close>]
  have "set (sl_sessions (end_session (i, r) m)) = set (sl_sessions m) - {(i, r)}" by (simp add: end_session_simps)
  moreover have "(i, r) \<notin> set ps" using Cons.prems(2) p by force
  ultimately have "set ps \<subseteq> set (sl_sessions (end_session (i, r) m))" using Cons.prems(3) p by auto
  with Cons.IH [OF inv] Cons.prems(2) p show ?case by simp
qed simp

lemma filtered_sessions:
  "slate_inv C m \<Longrightarrow> distinct (map fst (filter P (sl_sessions m))) \<and> set (filter P (sl_sessions m)) \<subseteq> set (sl_sessions m)"
  by (auto simp: slate_inv_defs distinct_map_filter)

lemma fewer_personal_inv:
  assumes "slate_inv C m"
  shows "slate_inv C (m\<lparr>sl_personal := filter P (sl_personal m)\<rparr>)"
proof -
  have "length (filter P (sl_personal m)) \<le> max_personal"
    using assms by (auto simp: slate_inv_defs intro: le_trans [OF length_filter_le])
  moreover have "session_dirs (m\<lparr>sl_personal := filter P (sl_personal m)\<rparr>) = session_dirs m" by (simp add: session_dirs_def)
  ultimately show ?thesis using assms by (simp add: slate_inv_defs distinct_map_filter)
qed

lemma slate_reap_inv: "slate_inv C m \<Longrightarrow> slate_inv C (slate_reap now m)"
  using filtered_sessions unfolding slate_reap_def Let_def by (intro fewer_personal_inv end_sessions_inv) blast+

lemma restart_inv: "slate_inv C m \<Longrightarrow> slate_inv C (restart_on_audio_change E m)"
  using filtered_sessions unfolding restart_on_audio_change_def by (auto intro!: end_sessions_inv)

lemma fold_end_session_sessions:
  "sl_sessions (fold end_session ps m) = fold (\<lambda>p. AList.delete (fst p)) ps (sl_sessions m)"
  by (induction ps arbitrary: m) (auto simp: end_session_simps)

lemma delete_all: "fold (\<lambda>p. AList.delete (fst p)) ps xs = filter (\<lambda>p. fst p \<notin> fst ` set ps) xs"
  by (induction ps arbitrary: xs) (auto simp: AList.delete_eq intro!: filter_cong)

lemma close_slates_inv:
  assumes "slate_inv C m"
  shows "slate_inv C (close_slates m)"
proof (cases "sl_stopped m")
  case False
  let ?m1 = "fold end_session (sl_sessions m) m"
  have I: "slate_inv C ?m1" using assms by (intro end_sessions_inv) (simp_all add: slate_inv_defs)
  have "sl_sessions ?m1 = []" by (auto simp: fold_end_session_sessions delete_all filter_empty_conv)
  moreover have "session_dirs (?m1\<lparr>sl_stopped := True\<rparr>) = session_dirs ?m1" by (simp add: session_dirs_def)
  ultimately show ?thesis using I False by (simp add: close_slates_def slate_inv_defs)
qed (simp add: close_slates_def assms)

text \<open>Personal descriptors.\<close>

lemma update_entries: "p \<in> set (AList.update k v xs) \<Longrightarrow> p = (k, v) \<or> p \<in> set xs"
  by (induction xs) (auto split: if_splits)

lemma update_length: "length (AList.update k v xs) = (if k \<in> fst ` set xs then length xs else Suc (length xs))"
  by (induction xs) auto

lemma update_new: "k \<notin> fst ` set xs \<Longrightarrow> AList.update k v xs = xs @ [(k, v)]"
  by (induction xs) auto

lemma used_now_typed [simp]: "typed_descriptor C k (d\<lparr>de_last_used := t\<rparr>) = typed_descriptor C k d"
  by (simp add: typed_descriptor_def slate_signature_def descriptor_text_def)

lemma update_personal_inv:
  assumes "slate_inv C m" and "typed_descriptor C k d"
    and "k \<in> fst ` set (sl_personal m) \<or> length (sl_personal m) < max_personal"
  shows "slate_inv C (m\<lparr>sl_personal := AList.update k d (sl_personal m)\<rparr>)" (is "slate_inv C ?m")
proof -
  have "session_dirs ?m = session_dirs m" by (simp add: session_dirs_def)
  moreover have "length (AList.update k d (sl_personal m)) \<le> max_personal"
    using assms(1,3) by (auto simp: update_length slate_inv_defs)
  moreover have "\<forall>k' d'. (k', d') \<in> set (AList.update k d (sl_personal m)) \<longrightarrow> typed_descriptor C k' d'"
    using assms(1,2) by (auto simp: slate_inv_defs dest!: update_entries)
  ultimately show ?thesis using assms(1) by (simp add: slate_inv_defs distinct_update)
qed

lemma personal_typed: "slate_inv C m \<Longrightarrow> map_of (sl_personal m) k = Some d \<Longrightarrow> typed_descriptor C k d"
  by (auto simp: slate_inv_defs dest: map_of_SomeD)

lemma map_of_key: "map_of xs k = Some v \<Longrightarrow> k \<in> fst ` set xs"
  by (auto dest!: map_of_SomeD intro: rev_image_eqI)

lemma prepare_inv:
  assumes "slate_inv C m"
  shows "slate_inv C (snd (prepare C now m variant ap token cutoff))"
  using assms
  by (auto simp: prepare_def Let_def typed_descriptor_def [where k = "slate_signature C d" for d] split: option.splits
      intro!: update_personal_inv dest: personal_typed map_of_key)

text \<open>The lookup.\<close>

lemma personal_of_inv:
  "slate_inv C m \<Longrightarrow> personal_of C E m variant key = Some (m', d) \<Longrightarrow> slate_inv C m'"
  by (auto simp: personal_of_def Let_def split: if_splits option.splits
      intro!: update_personal_inv dest: personal_typed map_of_key)

lemma find_slate_cases:
  assumes "find_slate m i = (found, actual, m')"
  shows "m' = m\<lparr>sl_fallbacks := sl_fallbacks m'\<rparr>" and "found = Some r \<Longrightarrow> (actual, r) \<in> set (sl_sessions m)"
    and "found = None \<Longrightarrow> map_of (sl_sessions m) i = None"
  using assms by (auto simp: find_slate_def split: option.splits if_splits dest: map_of_SomeD)

text \<open>
  There are never six sessions, so a remembered fallback is never used.
\<close>

lemma find_slate_own:
  assumes "slate_inv C m"
  shows "find_slate m i = (map_of (sl_sessions m) i, i,
           if map_of (sl_sessions m) i = None then m\<lparr>sl_fallbacks := (sl_fallbacks m)(i := if sl_fallbacks m i = Some [] then Some [] else None)\<rparr> else m)"
proof -
  have "length (sl_sessions m) < 6" using assms by (simp add: slate_inv_defs max_processes_def)
  then show ?thesis by (auto simp: find_slate_def fun_upd_idem split: option.splits)
qed

lemma drop_dead_cases:
  assumes I: "slate_inv C m" and drop: "drop_dead now i (find_slate m i) = (found, m')"
  shows "slate_inv C m'" and "sl_stopped m' = sl_stopped m" and "sl_personal m' = sl_personal m"
    and "sl_heap m' = sl_heap m"
    and "found = Some r \<Longrightarrow> (i, r) \<in> set (sl_sessions m')" and "found = Some r \<Longrightarrow> \<not> ss_done (slate_at m' r)"
    and "found = None \<Longrightarrow> i \<notin> fst ` set (sl_sessions m')"
proof -
  obtain f a m1 where f: "find_slate m i = (f, a, m1)" by (rule prod_cases3)
  note own = f [unfolded find_slate_own [OF I]]
  have m1: "sl_heap m1 = sl_heap m" "sl_sessions m1 = sl_sessions m" "sl_personal m1 = sl_personal m"
    "sl_stopped m1 = sl_stopped m" "sl_playlists m1 = sl_playlists m" and a: "a = i" and fm: "f = map_of (sl_sessions m) i"
    using own by (auto split: if_splits)
  have I1: "slate_inv C m1" by (rule slate_inv_frame [OF I m1])
  let ?dead = "\<lambda>m2 r. (remove_slate m2 i r)\<lparr>sl_fallbacks := (sl_fallbacks m2)(i := None)\<rparr>"
  have dead: "slate_inv C (?dead m2 r)" if "slate_inv C m2" "(i, r) \<in> set (sl_sessions m2)" "ss_done (slate_at m2 r)" for m2 r
    by (rule slate_inv_frame [OF remove_slate_inv [OF that]]) simp_all
  have "slate_inv C m' \<and> sl_stopped m' = sl_stopped m \<and> sl_personal m' = sl_personal m \<and> sl_heap m' = sl_heap m \<and>
     (\<forall>r. found = Some r \<longrightarrow> (i, r) \<in> set (sl_sessions m') \<and> \<not> ss_done (slate_at m' r)) \<and>
     (found = None \<longrightarrow> i \<notin> fst ` set (sl_sessions m'))"
  proof (cases f)
    case None
    with drop f have "found = None" "m' = m1" by (simp_all add: drop_dead_def)
    with I1 m1 None fm show ?thesis by (auto simp: map_of_eq_None_iff)
  next
    case (Some r)
    with fm have r: "(i, r) \<in> set (sl_sessions m1)" by (simp add: m1 map_of_SomeD)
    show ?thesis
    proof (cases "ss_done (slate_at m1 r)")
      case True
      define m2 where "m2 = (if ss_radio (slate_at m1 r)
         then m1\<lparr>sl_muted := (sl_muted m1)(i \<mapsto> now + 5 * minute), sl_failed_at := (sl_failed_at m1)(i := None)\<rparr>
         else if time_sub now (ss_started (slate_at m1 r)) < slate_short_lived
         then m1\<lparr>sl_failed_at := (sl_failed_at m1)(i \<mapsto> now)\<rparr> else m1)"
      from drop f Some a True have m': "found = None" "m' = ?dead m2 r" by (auto simp: drop_dead_def Let_def m2_def)
      have m2: "sl_heap m2 = sl_heap m" "sl_sessions m2 = sl_sessions m" "sl_personal m2 = sl_personal m"
        "sl_stopped m2 = sl_stopped m" "sl_playlists m2 = sl_playlists m" using m1 by (auto simp: m2_def)
      have "slate_inv C m2" by (rule slate_inv_frame [OF I m2])
      then have "slate_inv C m'" unfolding m'(2) by (rule dead) (use r True in \<open>simp_all add: m1 m2\<close>)
      moreover have "sl_heap m' = sl_heap m" "sl_sessions m' = AList.delete i (sl_sessions m)"
        "sl_personal m' = sl_personal m" "sl_stopped m' = sl_stopped m"
        unfolding m'(2) remove_slate_def by (simp_all add: m2)
      moreover have "i \<notin> fst ` set (AList.delete i (sl_sessions m))" by (simp add: AList.delete_eq image_def)
      ultimately show ?thesis using m'(1) by simp
    next
      case False
      with drop f Some have "found = Some r" "m' = m1" by (simp_all add: drop_dead_def)
      with I1 m1 r False show ?thesis by simp
    qed
  qed
  then show "slate_inv C m'" and "sl_stopped m' = sl_stopped m" and "sl_personal m' = sl_personal m"
    and "sl_heap m' = sl_heap m"
    and "found = Some r \<Longrightarrow> (i, r) \<in> set (sl_sessions m')" and "found = Some r \<Longrightarrow> \<not> ss_done (slate_at m' r)"
    and "found = None \<Longrightarrow> i \<notin> fst ` set (sl_sessions m')" by blast+
qed

lemma choose_fallback_member:
  assumes "fair_env E" and "choose_fallback E m variant = Some (t, r)"
  shows "(t, r) \<in> set (sl_sessions m)" and "generic t"
proof -
  have "(t, r) \<in> set (sw_order E (sl_sessions m)) \<and> generic t"
    using assms(2) by (auto simp: choose_fallback_def find_Some_iff split: option.splits) (metis nth_mem)+
  with assms(1) show "(t, r) \<in> set (sl_sessions m)" and "generic t" by (auto simp: fair_env_def)
qed

lemma slate_id_typed: "valid_variant variant \<Longrightarrow> key = [] \<or> valid_key key \<Longrightarrow> typed_id (slate_id variant key)"
  by (auto simp: typed_id_def)

lemma started_session:
  "start_slate C E taken variant d silent = Some s \<Longrightarrow> sw_dir E taken = Some (ss_dir s) \<and> \<not> ss_done s"
  by (auto simp: start_slate_def Let_def split: option.splits prod.splits if_splits)

lemma add_session_inv:
  assumes I: "slate_inv C m" and i: "typed_id i" "i \<notin> fst ` set (sl_sessions m)"
    and len: "length (sl_sessions m) < max_processes" and dir: "ss_dir s \<notin> set (session_dirs m)"
    and open': "\<not> sl_stopped m"
  shows "slate_inv C (m\<lparr>sl_heap := sl_heap m @ [s], sl_sessions := AList.update i (length (sl_heap m)) (sl_sessions m)\<rparr>)"
    (is "slate_inv C ?m")
proof -
  have ss: "sl_sessions ?m = sl_sessions m @ [(i, length (sl_heap m))]" using i(2) by (simp add: update_new)
  have bound: "(j, r) \<in> set (sl_sessions m) \<Longrightarrow> r < length (sl_heap m)" for j r using I by (simp add: slate_inv_defs)
  then have at: "(j, r) \<in> set (sl_sessions m) \<Longrightarrow> slate_at ?m r = slate_at m r" for j r by (auto simp: nth_append)
  have dirs: "session_dirs ?m = session_dirs m @ [ss_dir s]"
    unfolding session_dirs_def ss using at by auto
  have new: "length (sl_heap m) \<notin> snd ` set (sl_sessions m)" using bound by fastforce
  have run: "r \<in> insert (length (sl_heap m)) (snd ` set (sl_sessions m))"
    if "r < Suc (length (sl_heap m))" "\<not> ss_done (slate_at ?m r)" for r
    using that I by (auto simp: slate_inv_defs nth_append less_Suc_eq)
  show ?thesis unfolding slate_inv_def
  proof (intro conjI)
    show "slate_typed C ?m"
      using I i new dir bound unfolding slate_typed_def dirs ss by (auto simp: slate_inv_def slate_typed_def less_SucI)
    show "slate_bounded ?m"
      using I len run unfolding slate_bounded_def ss by (simp add: slate_inv_def slate_bounded_def)
    show "slate_files ?m"
      using I open' unfolding slate_files_def dirs by (auto simp: slate_inv_def slate_files_def)
  qed
qed

lemma new_session_inv:
  assumes I: "slate_inv C m" and i: "typed_id i" "i \<notin> fst ` set (sl_sessions m)" and fair: "fair_env E"
    and run: "\<not> sl_stopped m"
  shows "slate_inv C (snd (new_session C E m variant i d))"
proof (cases "backing_off (sw_now E) m i")
  case False
  show ?thesis
  proof (cases "length (sl_sessions m) \<ge> max_processes")
    case True
    with False I show ?thesis
      by (auto simp: new_session_def split: option.split intro!: slate_inv_frame [OF I])
  next
    case small: False
    show ?thesis
    proof (cases "start_slate C E (session_dirs m) variant d (muted (sw_now E) m i)")
      case None
      with False small show ?thesis by (auto simp: new_session_def intro!: slate_inv_frame [OF I])
    next
      case (Some s)
      then have "ss_dir s \<notin> set (session_dirs m)" using started_session fair by (auto simp: fair_env_def)
      with small Some False show ?thesis
        using add_session_inv [OF I i _ _ run, of s] by (simp add: new_session_def)
    qed
  qed
qed (simp add: new_session_def I)

lemma personal_of_frame:
  assumes "personal_of C E m variant key = Some (m', d)"
  shows "sl_sessions m' = sl_sessions m" and "sl_heap m' = sl_heap m" and "sl_stopped m' = sl_stopped m"
    and "key \<noteq> [] \<Longrightarrow> \<exists>e. map_of (sl_personal m) key = Some e \<and> de_variant e = variant \<and> d = Some (e\<lparr>de_last_used := sw_now E\<rparr>)"
  using assms by (auto simp: personal_of_def Let_def split: if_splits option.splits)

text \<open>The cases of a lookup that is not refused at once.\<close>

lemma get_locked_cases:
  assumes "get_locked C E m variant key name = (res, m')"
  obtains (refused) e where "res = Inl e" "m' = m" "e = NotExist \<or> e = SlateFailed ''slate manager closed''"
    | (found) r m1 d m2 where "valid_variant variant" "key = [] \<or> valid_key key" "personal_of C E m variant key = Some (m1, d)"
        "drop_dead (sw_now E) (slate_id variant key) (find_slate m1 (slate_id variant key)) = (Some r, m2)"
        "res = Inr r" "m' = touch_slate (sw_now E) r m2"
    | (anew) m1 d m2 m3 where "valid_variant variant" "key = [] \<or> valid_key key" "\<not> sl_stopped m" "personal_of C E m variant key = Some (m1, d)"
        "drop_dead (sw_now E) (slate_id variant key) (find_slate m1 (slate_id variant key)) = (None, m2)"
        "new_session C E m2 variant (slate_id variant key) d = (res, m3)"
        "m' = (case res of Inl _ \<Rightarrow> m3 | Inr r \<Rightarrow> touch_slate (sw_now E) r m3)"
  using assms unfolding get_locked_def Let_def
  by (auto split: if_splits option.splits prod.splits sum.splits)

lemma anew_inv:
  assumes I: "slate_inv C m" and fair: "fair_env E" and run: "\<not> sl_stopped m"
    and p: "personal_of C E m variant key = Some (m1, d)" and i: "typed_id i"
    and drop: "drop_dead now i (find_slate m1 i) = (None, m2)"
  shows "slate_inv C m2" and "slate_inv C (snd (new_session C E m2 variant i d))" and "i \<notin> fst ` set (sl_sessions m2)"
proof -
  note I1 = personal_of_inv [OF I p]
  note f = personal_of_frame [OF p]
  show I2: "slate_inv C m2" by (rule drop_dead_cases(1) [OF I1 drop])
  show new: "i \<notin> fst ` set (sl_sessions m2)" by (rule drop_dead_cases(7) [OF I1 drop refl])
  have "\<not> sl_stopped m2" using run f drop_dead_cases(2) [OF I1 drop] by simp
  then show "slate_inv C (snd (new_session C E m2 variant i d))" by (rule new_session_inv [OF I2 i new fair])
qed

lemma get_locked_inv:
  assumes I: "slate_inv C m" and fair: "fair_env E"
  shows "slate_inv C (snd (get_locked C E m variant key name))"
proof -
  obtain res m' where g: "get_locked C E m variant key name = (res, m')" by (rule prod.exhaust)
  then show ?thesis
  proof (cases rule: get_locked_cases)
    case refused
    with g I show ?thesis by simp
  next
    case (found r m1 d m2)
    with g show ?thesis using drop_dead_cases(1) [OF personal_of_inv [OF I]] touch_slate_inv by fastforce
  next
    case (anew m1 d m2 m3)
    then have "slate_inv C m3" using anew_inv(2) [OF I fair anew(3,4) slate_id_typed anew(5)] by fastforce
    with g anew show ?thesis by (auto simp: touch_slate_inv split: sum.splits)
  qed
qed

text \<open>Every reachable state has the invariant.\<close>

lemma new_slates_inv: "slate_inv C new_slates"
  by (simp add: slate_inv_defs new_slates_def session_dirs_def)

lemma playlist_inv:
  assumes "slate_inv C m" and "r < length (sl_heap m)" and "\<not> ss_done (slate_at m r)"
  shows "slate_inv C (m\<lparr>sl_playlists := ss_dir (slate_at m r) # sl_playlists m\<rparr>)"
proof -
  obtain i where "(i, r) \<in> set (sl_sessions m)" using assms by (auto simp: slate_inv_defs)
  then have "ss_dir (slate_at m r) \<in> set (session_dirs m)" by (force simp: session_dirs_def)
  moreover have "session_dirs (m\<lparr>sl_playlists := xs\<rparr>) = session_dirs m" for xs by (simp add: session_dirs_def)
  ultimately show ?thesis using assms(1) by (simp add: slate_inv_defs)
qed

lemma slate_step_inv: "slate_step C m m' \<Longrightarrow> slate_inv C m \<Longrightarrow> slate_inv C m'"
  by (induction rule: slate_step.induct)
    (auto intro: prepare_inv get_locked_inv end_process_inv playlist_inv slate_reap_inv restart_inv close_slates_inv)

lemma slate_reachable_inv: "slate_reachable C m \<Longrightarrow> slate_inv C m"
  by (induction rule: slate_reachable.induct) (auto intro: new_slates_inv slate_step_inv)

section \<open>Identifiers\<close>

lemma cut_at_eq: "cut_at c s = (b, r) \<Longrightarrow> s = b @ (case r of None \<Rightarrow> [] | Some x \<Rightarrow> c # x)"
  by (auto simp: cut_at_def id_take_nth_drop dest: index_byte_Some split: option.splits)

lemma valid_reason_chars: "valid_reason r \<Longrightarrow> CHR ''/'' \<notin> set r"
  by (auto simp: valid_reason_def reasons_def temporary_reason_def unauthorized_redistribution_def split: if_splits)

lemma valid_variant_generic:
  assumes "valid_variant v"
  shows "generic v"
proof -
  obtain b r where c: "cut_at CHR '':'' v = (b, r)" by (rule prod.exhaust)
  have "b = unavailable \<or> b = temporary" "r = Some x \<Longrightarrow> valid_reason x" for x
    using assms by (auto simp: valid_variant_def split_variant_def c Let_def split: if_splits)
  with cut_at_eq [OF c] show ?thesis
    by (auto simp: generic_def unavailable_def temporary_def dest: valid_reason_chars split: option.splits)
qed

lemma slate_id_inject:
  assumes "slate_id v k = slate_id v' k'" and "valid_variant v" and "valid_variant v'"
  shows "v = v'" and "k = k'"
proof -
  have t: "takeWhile (\<lambda>c. c \<noteq> CHR ''/'') (slate_id w x) = w" if "valid_variant w" for w x
  proof -
    have "\<And>c. c \<in> set w \<Longrightarrow> c \<noteq> CHR ''/''" using valid_variant_generic [OF that] by (auto simp: generic_def)
    then have "takeWhile (\<lambda>c. c \<noteq> CHR ''/'') (w @ y) = w @ takeWhile (\<lambda>c. c \<noteq> CHR ''/'') y" for y by (rule takeWhile_append2)
    from this [of "[]"] this [of "CHR ''/'' # x"] show ?thesis by (simp add: slate_id_def)
  qed
  show "v = v'" using t [of v k] t [of v' k'] assms by simp
  with assms(1) show "k = k'" by (auto simp: slate_id_def split: if_splits)
qed

lemma slate_id_generic: "valid_variant v \<Longrightarrow> generic (slate_id v k) = (k = [])"
  using valid_variant_generic by (auto simp: slate_id_def generic_def)

definition ex_slates :: slate_config where
  "ex_slates = \<lparr>sf_hashes = \<lparr>sha256 = (\<lambda>m. replicate 32 CHR 0x00), hmac256 = (\<lambda>k m. replicate 32 CHR 0x00)\<rparr>, sf_secret = [],
     sf_print_time = (\<lambda>t. []), sf_local_time = (\<lambda>t. []), sf_assets = ''assets'', sf_data_dir = ''data''\<rparr>"

definition ex_slate_env :: slate_env where
  "ex_slate_env = \<lparr>sw_now = 1000 * second, sw_order = (\<lambda>xs. xs), sw_audio = None,
     sw_text = Some (\<lambda>r. Some (mk_text ''A'' ''B'')), sw_dir = (\<lambda>ds. if ''/tmp/s'' \<in> set ds then None else Some ''/tmp/s''),
     sw_font = (\<lambda>f. True), sw_ok = (\<lambda>p. True), sw_lookup = (\<lambda>h. None), sw_parse = (\<lambda>u. None)\<rparr>"

definition ex_key :: string where
  "ex_key = replicate 40 CHR ''0''"

definition ex_prepared :: slate_manager where
  "ex_prepared = snd (prepare ex_slates (900 * second) new_slates unavailable 7 3 (500 * second))"

definition ex_running :: slate_manager where
  "ex_running = snd (get_locked ex_slates ex_slate_env ex_prepared unavailable ex_key ''index.m3u8'')"

lemma ex_get:
  "fst (get_locked ex_slates ex_slate_env ex_prepared unavailable ex_key ''index.m3u8'') = Inr 0"
  by code_simp

lemma ex_running_table:
  "sl_sessions ex_running = [(slate_id unavailable ex_key, 0)]" "map ss_done (sl_heap ex_running) = [False]"
  by code_simp+

lemma ex_fair: "fair_env ex_slate_env"
  by (simp add: fair_env_def ex_slate_env_def)

lemma ex_prepared_reachable: "slate_reachable ex_slates ex_prepared"
  unfolding ex_prepared_def by (rule reach_step [OF reach_new step_prepare])

lemma ex_running_reachable: "slate_reachable ex_slates ex_running"
  unfolding ex_running_def by (rule reach_step [OF ex_prepared_reachable step_get [OF ex_fair]])

section \<open>Properties of the tables\<close>

text \<open>An encoder that runs belongs to a session of the table.\<close>

lemma live_encoders_bounded:
  assumes "slate_inv C m"
  shows "card {r. r < length (sl_heap m) \<and> \<not> ss_done (slate_at m r)} \<le> 4"
proof -
  have "{r. r < length (sl_heap m) \<and> \<not> ss_done (slate_at m r)} \<subseteq> set (map snd (sl_sessions m))"
    using assms by (auto simp: slate_inv_defs)
  then have "card {r. r < length (sl_heap m) \<and> \<not> ss_done (slate_at m r)} \<le> card (set (map snd (sl_sessions m)))"
    by (intro card_mono) auto
  also have "\<dots> \<le> length (sl_sessions m)" using card_length [of "map snd (sl_sessions m)"] by simp
  finally show ?thesis using assms by (simp add: slate_inv_defs max_processes_def)
qed

text \<open>C16: at most four encoders run at any time, whatever is asked for and whenever processes end, and at most
  three personal videos are prepared.\<close>

theorem slate_encoders_bounded:
  assumes "slate_reachable C m"
  shows "card {r. r < length (sl_heap m) \<and> \<not> ss_done (slate_at m r)} \<le> 4 \<and> length (sl_personal m) \<le> 3"
  using live_encoders_bounded [OF slate_reachable_inv [OF assms]] slate_reachable_inv [OF assms]
  by (simp add: slate_inv_defs max_personal_def)

theorem slate_encoders_bounded_witness:
  "card {r. r < length (sl_heap ex_running) \<and> \<not> ss_done (slate_at ex_running r)} \<le> 4 \<and> length (sl_personal ex_running) \<le> 3"
  by (rule slate_encoders_bounded [OF ex_running_reachable])

text \<open>C36: the tables are well typed in every state that is reached: a session is stored under a variant, or under a
  variant and a key; a personal video under the signature of its valid descriptor; no two sessions share a directory.\<close>

theorem slate_tables_typed:
  assumes "slate_reachable C m"
  shows "slate_typed C m"
  using slate_reachable_inv [OF assms] by (simp add: slate_inv_def)

theorem slate_tables_typed_witness: "slate_typed ex_slates ex_running"
  by (rule slate_tables_typed [OF ex_running_reachable])

lemma session_of_id:
  assumes "slate_inv C m" and "(i, r) \<in> set (sl_sessions m)" and "(j, r) \<in> set (sl_sessions m)"
  shows "i = j"
proof -
  have "inj_on snd (set (sl_sessions m))" using assms(1) by (simp add: slate_inv_defs distinct_map)
  from inj_onD [OF this _ assms(2,3)] show ?thesis by simp
qed

lemma update_member: "(k, v) \<in> set (AList.update k v xs)"
  by (induction xs) auto

text \<open>Where the session of an answer stands: under the identifier asked for, or it is generic.\<close>

lemma new_session_entry:
  assumes "new_session C E m variant i d = (Inr r, m')" and "fair_env E"
  shows "(i, r) \<in> set (sl_sessions m') \<or> (\<exists>t. generic t \<and> (t, r) \<in> set (sl_sessions m'))"
proof (cases "choose_fallback E m variant")
  case None
  with assms(1) show ?thesis
    by (auto simp: new_session_def update_member split: if_splits option.splits)
next
  case (Some p)
  obtain t q where p: "p = (t, q)" by (rule prod.exhaust)
  with choose_fallback_member [OF assms(2)] Some have "(t, q) \<in> set (sl_sessions m)" "generic t" by auto
  with assms(1) Some p show ?thesis by (auto simp: new_session_def update_member split: if_splits option.splits)
qed

text \<open>C18: the video of a personal key is shown only to a request with this key and variant, while the key is
  prepared and signed by this manager.\<close>

theorem personal_slate_needs_key:
  assumes "slate_reachable C m" and "fair_env E" and "get_locked C E m variant key name = (Inr r, m')"
    and "(i, r) \<in> set (sl_sessions m')" and "\<not> generic i"
  shows "key \<noteq> [] \<and> i = slate_id variant key \<and>
    (\<exists>d. map_of (sl_personal m) key = Some d \<and> de_variant d = variant \<and> key = slate_signature C d)"
proof -
  note I = slate_reachable_inv [OF assms(1)]
  have I': "slate_inv C m'" using get_locked_inv [OF I assms(2), of variant key name] assms(3) by simp
  have own: "valid_variant variant \<and> (\<exists>m1 d. personal_of C E m variant key = Some (m1, d)) \<and>
      ((slate_id variant key, r) \<in> set (sl_sessions m') \<or> (\<exists>t. generic t \<and> (t, r) \<in> set (sl_sessions m')))"
    using assms(3)
  proof (cases rule: get_locked_cases)
    case (found q m1 d m2)
    then show ?thesis using drop_dead_cases(5) [OF personal_of_inv [OF I found(3)] found(4)] by (auto simp: touch_slate_def)
  next
    case (anew m1 d m2 m3)
    from new_session_entry [OF anew(6) assms(2)] anew show ?thesis by (auto simp: touch_slate_def)
  qed simp
  then have i: "i = slate_id variant key" and v: "valid_variant variant"
    using session_of_id [OF I' assms(4)] assms(5) by blast+
  from own obtain m1 d where p: "personal_of C E m variant key = Some (m1, d)" by blast
  from i v assms(5) have "key \<noteq> []" by (simp add: slate_id_generic)
  moreover from this personal_of_frame(4) [OF p] personal_typed [OF I]
  have "\<exists>d. map_of (sl_personal m) key = Some d \<and> de_variant d = variant \<and> key = slate_signature C d"
    by (auto simp: typed_descriptor_def)
  ultimately show ?thesis using i by blast
qed

theorem personal_slate_needs_key_witness:
  "\<not> generic (slate_id unavailable ex_key) \<and>
   (\<exists>d. map_of (sl_personal ex_prepared) ex_key = Some d \<and> de_variant d = unavailable \<and> ex_key = slate_signature ex_slates d)"
proof -
  have g: "get_locked ex_slates ex_slate_env ex_prepared unavailable ex_key ''index.m3u8'' = (Inr 0, ex_running)"
    by (rule prod_eqI) (simp_all add: ex_get ex_running_def)
  have n: "\<not> generic (slate_id unavailable ex_key)" by (simp add: generic_def slate_id_def ex_key_def)
  have "(slate_id unavailable ex_key, 0) \<in> set (sl_sessions ex_running)" by (simp add: ex_running_table)
  from personal_slate_needs_key [OF ex_prepared_reachable ex_fair g this n] n show ?thesis by simp
qed

end
