(* ===== verification/SlateWait.thy ===== *)
theory SlateWait imports SlateSafety begin

text \<open>
  The wait for the first playlist of an error-screen video: a radio that fails is replaced by silence, the
  wait ends, and a dead radio that is chosen as a fallback is waited for without end; and what the
  command line of an encoder can depend on.
\<close>

section \<open>A radio that failed\<close>

lemma delete_shorter: "k \<in> fst ` set xs \<Longrightarrow> length (AList.delete k xs) < length xs"
  by (auto simp: AList.delete_eq intro!: length_filter_less)

lemma drop_radio:
  assumes I: "slate_inv C m" and e: "(i, r) \<in> set (sl_sessions m)" and dead: "ss_done (slate_at m r)" "ss_radio (slate_at m r)"
    and drop: "drop_dead now i (find_slate m i) = (found, m')"
  shows "found = None" and "sl_muted m' i = Some (now + 5 * minute)" and "sl_failed_at m' i = None"
    and "length (sl_sessions m') < max_processes" and "sl_heap m' = sl_heap m"
proof -
  have mo: "map_of (sl_sessions m) i = Some r" using I e by (simp add: slate_inv_defs)
  have len: "length (sl_sessions m) \<le> max_processes" using I by (simp add: slate_inv_defs)
  have "i \<in> fst ` set (sl_sessions m)" using e by force
  from delete_shorter [OF this] len drop
  show "found = None" and "sl_muted m' i = Some (now + 5 * minute)" and "sl_failed_at m' i = None"
    and "length (sl_sessions m') < max_processes" and "sl_heap m' = sl_heap m"
    unfolding find_slate_own [OF I] drop_dead_def remove_slate_def by (auto simp: mo dead Let_def)
qed

lemma silent_start: "start_slate C E taken variant d True = Some s \<Longrightarrow> \<not> ss_radio s"
  by (auto simp: start_slate_def chosen_audio_def audio_args_def no_audio_def Let_def
      split: option.splits prod.splits if_splits)

lemma muted_session:
  assumes "new_session C E m variant i d = (res, m')" and "sl_muted m i = Some (sw_now E + 5 * minute)"
    and "sl_failed_at m i = None" and "length (sl_sessions m) < max_processes"
  shows "res = Inl (SlateFailed ''slate start failed'') \<or>
    (\<exists>s. res = Inr (length (sl_heap m)) \<and> sl_heap m' = sl_heap m @ [s] \<and> \<not> ss_radio s \<and> \<not> ss_done s)"
proof -
  have "muted (sw_now E) m i" "\<not> backing_off (sw_now E) m i"
    using assms(2,3) by (simp_all add: muted_def backing_off_def)
  with assms(1,4) show ?thesis
    by (auto simp: new_session_def dest: silent_start started_session split: option.splits)
qed

lemma radio_replaced:
  assumes I: "slate_inv C m" and e: "(slate_id variant key, r) \<in> set (sl_sessions m)"
    and dead: "ss_done (slate_at m r)" "ss_radio (slate_at m r)" and g: "get_locked C E m variant key name = (res, m')"
  shows "res \<in> Inl ` {NotExist, SlateFailed ''slate manager closed'', SlateFailed ''slate start failed''} \<or>
    (\<exists>q. res = Inr q \<and> length (sl_heap m) \<le> q \<and> q < length (sl_heap m') \<and>
      \<not> ss_radio (slate_at m' q) \<and> \<not> ss_done (slate_at m' q))"
  using g
proof (cases rule: get_locked_cases)
  case (refused e)
  then show ?thesis by auto
next
  case (found q m1 d m2)
  note f = personal_of_frame [OF found(3)]
  have "(slate_id variant key, r) \<in> set (sl_sessions m1)" "ss_done (slate_at m1 r)" "ss_radio (slate_at m1 r)"
    using e dead f by simp_all
  from drop_radio(1) [OF personal_of_inv [OF I found(3)] this found(4)] show ?thesis by simp
next
  case (anew m1 d m2 m3)
  note f = personal_of_frame [OF anew(4)]
  have "(slate_id variant key, r) \<in> set (sl_sessions m1)" "ss_done (slate_at m1 r)" "ss_radio (slate_at m1 r)"
    using e dead f by simp_all
  note d = drop_radio [OF personal_of_inv [OF I anew(4)] this anew(5)]
  from muted_session [OF anew(6) d(2,3,4)] d(5) f anew(7) show ?thesis
    by (auto simp: touch_slate_def upd_slate_at nth_append)
qed

section \<open>The wait ends\<close>

text \<open>The others start and end sessions, but none takes the waited one out of the table.\<close>

definition considerate :: "slate_config \<Rightarrow> string \<Rightarrow> slate_turn \<Rightarrow> bool" where
  "considerate C i t \<longleftrightarrow>
     (\<forall>m r. r < length (sl_heap m) \<longrightarrow>
        r < length (sl_heap (wt_meanwhile t m)) \<and> ss_radio (slate_at (wt_meanwhile t m) r) = ss_radio (slate_at m r)) \<and>
     (\<forall>m. slate_reachable C m \<longrightarrow> slate_reachable C (wt_meanwhile t m) \<and>
        (\<forall>r. (i, r) \<in> set (sl_sessions m) \<longrightarrow> (i, r) \<in> set (sl_sessions (wt_meanwhile t m))))"

definition deadlines :: "slate_turn list \<Rightarrow> nat" where
  "deadlines turns = length (filter (\<lambda>t. wt_event t = DeadlinePassed) turns)"

lemma deadlines_simps [simp]:
  "deadlines [] = 0" "deadlines (t # ts) = (if wt_event t = DeadlinePassed then Suc (deadlines ts) else deadlines ts)"
  by (simp_all add: deadlines_def)

lemma silent_wait_ends:
  "\<not> ss_radio (slate_at m r) \<Longrightarrow> r < length (sl_heap m) \<Longrightarrow> list_all (considerate C i) turns \<Longrightarrow> 1 \<le> deadlines turns \<Longrightarrow>
   slate_wait C turns variant key r m \<noteq> None"
proof (induction turns arbitrary: m)
  case (Cons t ts)
  let ?m1 = "wt_meanwhile t m"
  have m1: "\<not> ss_radio (slate_at ?m1 r)" "r < length (sl_heap ?m1)" using Cons.prems by (simp_all add: considerate_def)
  show ?case
  proof (cases "wt_event t = DeadlinePassed")
    case True
    with m1 show ?thesis by (subst slate_wait.simps) (simp add: Let_def)
  next
    case False
    then have "slate_wait C ts variant key r ?m1 \<noteq> None" using Cons.IH [OF m1] Cons.prems by simp
    with False m1 show ?thesis by (subst slate_wait.simps) (cases "wt_event t"; simp add: Let_def)
  qed
qed simp

lemma after_radio_ends:
  assumes I: "slate_inv C m" and e: "(slate_id variant key, r) \<in> set (sl_sessions m)"
    and dead: "ss_done (slate_at m r)" "ss_radio (slate_at m r)"
    and ts: "list_all (considerate C i) ts" "1 \<le> deadlines ts"
  shows "(case get_locked C E m variant key ''index.m3u8'' of
      (Inl e, m3) \<Rightarrow> Some (Inl e, m3) | (Inr r', m3) \<Rightarrow> slate_wait C ts variant key r' m3) \<noteq> None"
proof -
  obtain res m' where g: "get_locked C E m variant key ''index.m3u8'' = (res, m')" by (rule prod.exhaust)
  show ?thesis
  proof (cases res)
    case (Inr q)
    with radio_replaced [OF I e dead g] have "\<not> ss_radio (slate_at m' q)" "q < length (sl_heap m')" by auto
    from silent_wait_ends [OF this ts] Inr show ?thesis unfolding g prod.case sum.case by simp
  qed (simp add: g)
qed

text \<open>C23: the wait for the playlist ends: once its deadline has passed twice (the first time it gives a radio up and
  starts with silence), the request has been answered, if the others left its session in the table.\<close>

theorem playlist_wait_ends:
  assumes "slate_reachable C m" and "(slate_id variant key, r) \<in> set (sl_sessions m)"
    and "list_all (considerate C (slate_id variant key)) turns" and "2 \<le> deadlines turns"
  shows "slate_wait C turns variant key r m \<noteq> None"
  using assms
proof (induction turns arbitrary: m)
  case (Cons t ts)
  let ?m1 = "wt_meanwhile t m" and ?i = "slate_id variant key"
  have c: "considerate C ?i t" and ts: "list_all (considerate C ?i) ts" using Cons.prems(3) by simp_all
  have m1: "slate_reachable C ?m1" "(?i, r) \<in> set (sl_sessions ?m1)" using c Cons.prems(1,2) unfolding considerate_def by blast+
  note I = slate_reachable_inv [OF m1(1)]
  have r: "r < length (sl_heap ?m1)" using I m1(2) by (simp add: slate_inv_defs)
  have tick: "slate_wait C ts variant key r ?m1 \<noteq> None" if "wt_event t \<noteq> DeadlinePassed"
    using Cons.IH [OF m1 ts] Cons.prems(4) that by simp
  show ?case
  proof (cases "wt_event t")
    case Tick
    with tick show ?thesis by (subst slate_wait.simps) (simp add: Let_def)
  next
    case EncoderDone
    then have "1 \<le> deadlines ts" using Cons.prems(4) by simp
    from after_radio_ends [OF I m1(2) _ _ ts this] EncoderDone tick show ?thesis
      by (subst slate_wait.simps) (simp add: Let_def del: not_None_eq)
  next
    case DeadlinePassed
    let ?m2 = "end_process r ?m1"
    have I2: "slate_inv C ?m2" and e2: "(?i, r) \<in> set (sl_sessions ?m2)" and d2: "ss_done (slate_at ?m2 r)"
      and radio: "ss_radio (slate_at ?m2 r) = ss_radio (slate_at ?m1 r)"
      using end_process_inv [OF I] m1(2) r by (simp_all add: end_process_def upd_slate_at)
    have "1 \<le> deadlines ts" using Cons.prems(4) DeadlinePassed by simp
    from after_radio_ends [OF I2 e2 d2 _ ts this] DeadlinePassed radio show ?thesis
      by (subst slate_wait.simps) (simp add: Let_def del: not_None_eq)
  qed
qed simp

section \<open>A dead fallback\<close>

text \<open>
  The cap is reached, and the fallback that is chosen for \<open>variant\<close> is a radio session whose encoder ended
  before its first playlist, and which nobody has asked for since.
\<close>

definition dead_fallback :: "slate_env \<Rightarrow> string \<Rightarrow> string \<times> nat \<Rightarrow> slate_manager \<Rightarrow> bool" where
  "dead_fallback E variant = (\<lambda>(t, q) m.
     valid_variant variant \<and> map_of (sl_sessions m) variant = None \<and> length (sl_sessions m) = max_processes \<and>
     \<not> sl_stopped m \<and> \<not> backing_off (sw_now E) m variant \<and> choose_fallback E m variant = Some (t, q) \<and>
     q < length (sl_heap m) \<and> ss_done (slate_at m q) \<and> ss_radio (slate_at m q) \<and>
     ss_dir (slate_at m q) \<notin> set (sl_playlists m))"

lemma choose_fallback_cong: "sl_sessions m' = sl_sessions m \<Longrightarrow> choose_fallback E m' variant = choose_fallback E m variant"
  unfolding choose_fallback_def by (simp only:)

lemma find_slate_unknown:
  "map_of (sl_sessions m) i = None \<Longrightarrow> length (sl_sessions m) < 6 \<Longrightarrow> \<exists>fb. find_slate m i = (None, i, m\<lparr>sl_fallbacks := fb\<rparr>)"
  by (auto simp: find_slate_def split: option.splits intro: exI [where x = "sl_fallbacks m"])

lemma dead_fallback_again:
  assumes "dead_fallback E variant (t, q) m" and "slate_valid_name name"
  shows "\<exists>m'. get_locked C E m variant [] name = (Inr q, m') \<and> dead_fallback E variant (t, q) m'"
proof -
  note d = assms(1) [unfolded dead_fallback_def prod.case]
  obtain fb where f: "find_slate m variant = (None, variant, m\<lparr>sl_fallbacks := fb\<rparr>)"
    using d find_slate_unknown [of m variant] by (auto simp: max_processes_def)
  let ?m2 = "m\<lparr>sl_fallbacks := fb(variant \<mapsto> t)\<rparr>"
  have c: "choose_fallback E (m\<lparr>sl_fallbacks := x\<rparr>) variant = Some (t, q)"
      "choose_fallback E (touch_slate now q (m\<lparr>sl_fallbacks := x\<rparr>)) variant = Some (t, q)" for x now
    by (subst choose_fallback_cong [of _ m]; simp add: touch_slate_def d)+
  have n: "new_session C E (m\<lparr>sl_fallbacks := fb\<rparr>) variant variant None = (Inr q, ?m2)"
    using d by (simp add: new_session_def c backing_off_def)
  have "get_locked C E m variant [] name = (Inr q, touch_slate (sw_now E) q ?m2)"
    using d assms(2) by (simp add: get_locked_def personal_of_def slate_id_def f drop_dead_def n)
  moreover have "dead_fallback E variant (t, q) (touch_slate (sw_now E) q ?m2)"
    using d by (simp add: dead_fallback_def c) (simp add: touch_slate_def upd_slate_at backing_off_def)
  ultimately show ?thesis by blast
qed

text \<open>C33: a dead radio session that is the fallback is chosen again and again: the request never ends, each turn uses the
  session anew (so it is never idle), and only a request for the dead session's own identifier would clear it.\<close>

theorem dead_fallback_never_ends:
  assumes "dead_fallback E variant (t, q) m"
  shows "slate_wait C (replicate n \<lparr>wt_env = E, wt_meanwhile = (\<lambda>m. m), wt_event = EncoderDone\<rparr>) variant [] q m = None"
  using assms
proof (induction n arbitrary: m)
  case 0
  then show ?case by (subst slate_wait.simps) (simp add: dead_fallback_def)
next
  case (Suc n)
  from dead_fallback_again [OF Suc.prems, of "''index.m3u8''" C]
  obtain m' where g: "get_locked C E m variant [] ''index.m3u8'' = (Inr q, m')" "dead_fallback E variant (t, q) m'"
    by (auto simp: slate_valid_name_def)
  from Suc.IH [OF g(2)] Suc.prems show ?case
    by (subst slate_wait.simps) (simp add: Let_def dead_fallback_def g(1))
qed

section \<open>Properties\<close>

text \<open>C32: a radio that failed does not leave the viewer without a video: the next request for it is never told to back
  off or that there is no room; it starts a session with silence, unless that cannot be started, the manager is closed
  or the personal key is gone.\<close>

theorem failed_radio_becomes_silence:
  assumes "slate_reachable C m" and "(slate_id variant key, r) \<in> set (sl_sessions m)"
    and "ss_done (slate_at m r)" and "ss_radio (slate_at m r)" and "get_locked C E m variant key name = (res, m')"
  shows "res \<in> Inl ` {NotExist, SlateFailed ''slate manager closed'', SlateFailed ''slate start failed''} \<or>
    (\<exists>q. res = Inr q \<and> length (sl_heap m) \<le> q \<and> q < length (sl_heap m') \<and>
      \<not> ss_radio (slate_at m' q) \<and> \<not> ss_done (slate_at m' q))"
  by (rule radio_replaced [OF slate_reachable_inv [OF assms(1)] assms(2-5)])

definition ex_radio_env :: "string \<Rightarrow> slate_env" where
  "ex_radio_env dir = ex_slate_env\<lparr>sw_dir := (\<lambda>ds. if dir \<in> set ds then None else Some dir),
     sw_audio := Some (Some \<lparr>au_file = [], au_url = ''http://radio/'', au_volume = 50\<rparr>),
     sw_lookup := (\<lambda>h. Some [[8, 8, 8, 8]]),
     sw_parse := (\<lambda>u. Some \<lparr>u_scheme = ''http'', u_user = None, u_host = ''radio'', u_path = ''/'', u_raw_query = [], u_fragment = []\<rparr>)\<rparr>"

definition ex_request :: "slate_manager \<Rightarrow> string \<Rightarrow> string \<Rightarrow> slate_manager" where
  "ex_request m variant dir = snd (get_locked ex_slates (ex_radio_env dir) m variant [] ''seg000001.ts'')"

lemma ex_radio_fair: "fair_env (ex_radio_env dir)"
  by (simp add: fair_env_def ex_radio_env_def ex_slate_env_def)

lemma ex_request_reachable: "slate_reachable ex_slates m \<Longrightarrow> slate_reachable ex_slates (ex_request m variant dir)"
  unfolding ex_request_def by (erule reach_step) (intro step_get ex_radio_fair)

definition ex_radio :: slate_manager where
  "ex_radio = ex_request new_slates unavailable ''a''"

definition ex_full :: slate_manager where
  "ex_full = end_process 0 (ex_request (ex_request (ex_request ex_radio temporary ''b'')
     ''unavailable:limited_bandwidth'' ''c'') ''unavailable:not_intended_for_public'' ''d'')"

lemma ex_radio_session:
  "sl_sessions ex_radio = [(unavailable, 0)]" "map ss_radio (sl_heap ex_radio) = [True]" 
  by code_simp+

lemma ex_radio_reachable: "slate_reachable ex_slates ex_radio"
  unfolding ex_radio_def by (rule ex_request_reachable [OF reach_new])

lemma ex_full_reachable: "slate_reachable ex_slates ex_full"
  unfolding ex_full_def
  by (intro reach_step [OF _ step_exit] ex_request_reachable ex_radio_reachable)

lemma ex_full_dead: "dead_fallback (ex_radio_env ''e'') ''unavailable:access_revoked_by_owner'' (unavailable, 0) ex_full"
  by code_simp

theorem dead_fallback_never_ends_witness:
  "slate_reachable ex_slates ex_full \<and>
   slate_wait ex_slates (replicate 1000 \<lparr>wt_env = ex_radio_env ''e'', wt_meanwhile = (\<lambda>m. m), wt_event = EncoderDone\<rparr>)
     ''unavailable:access_revoked_by_owner'' [] 0 ex_full = None"
  using ex_full_reachable dead_fallback_never_ends [OF ex_full_dead] by blast

definition ex_deadline :: slate_turn where
  "ex_deadline = \<lparr>wt_env = ex_radio_env ''e'', wt_meanwhile = (\<lambda>m. m), wt_event = DeadlinePassed\<rparr>"

theorem playlist_wait_ends_witness:
  "slate_wait ex_slates [ex_deadline, ex_deadline] unavailable [] 0 ex_radio \<noteq> None"
  by (rule playlist_wait_ends [OF ex_radio_reachable])
    (simp_all add: ex_radio_session slate_id_def considerate_def ex_deadline_def)

theorem failed_radio_becomes_silence_witness:
  "\<not> fst (get_locked ex_slates (ex_radio_env ''e'') ex_full unavailable [] ''index.m3u8'') \<in>
     Inl ` {SlateFailed ''slate encoder backing off'', SlateFailed ''slate session cap reached''}"
proof -
  have e: "(slate_id unavailable [], 0) \<in> set (sl_sessions ex_full)" "ss_done (slate_at ex_full 0)" "ss_radio (slate_at ex_full 0)"
    by code_simp+
  obtain res m' where g: "get_locked ex_slates (ex_radio_env ''e'') ex_full unavailable [] ''index.m3u8'' = (res, m')"
    by (rule prod.exhaust)
  from failed_radio_becomes_silence [OF ex_full_reachable e g] g show ?thesis by auto
qed

section \<open>What an encoder is given\<close>

lemma chosen_audio_radio:
  assumes "chosen_audio C E silent = ((args, True), volume)"
  shows "\<not> silent \<and> (\<exists>l. sw_audio E = Some (Some l) \<and> validate_audio_url E (au_url l) \<and>
    audio_args C E l = Some (args, True) \<and> volume = au_volume l)"
  using assms
  by (cases "sw_audio E"; cases "the (sw_audio E)")
    (auto simp: chosen_audio_def loaded_audio_def audio_args_def no_audio_def Let_def split: if_splits option.splits)

lemma radio_start:
  assumes "start_slate C E taken variant d silent = Some s" and "ss_radio s"
  obtains args volume where "chosen_audio C E silent = ((args, True), volume)"
  using assms by (auto simp: start_slate_def Let_def split: option.splits prod.splits if_splits)

text \<open>C34: what viewers read is only in files, so the command line of an encoder is the same for every text (of the same
  font sizes); and it plays a radio only when it need not be silent and every address found for the radio's host is routable.\<close>

theorem slate_encoder_arguments:
  assumes "start_slate C E taken variant d silent = Some s" and "start_slate C (E\<lparr>sw_text := T\<rparr>) taken variant d silent = Some s'"
    and "fit_font_size (tx_title (ss_text s')) 117 = fit_font_size (tx_title (ss_text s)) 117"
    and "fit_font_size (wrap_subtitle (tx_subtitle (ss_text s'))) 47 = fit_font_size (wrap_subtitle (tx_subtitle (ss_text s))) 47"
  shows "ss_args s' = ss_args s \<and>
    (ss_radio s \<longrightarrow> \<not> silent \<and> (\<exists>l u ips. sw_audio E = Some (Some l) \<and> sw_parse E (au_url l) = Some u \<and> u_user u = None \<and>
       sw_lookup E (hostname u) = Some ips \<and> ips \<noteq> [] \<and> list_all (\<lambda>a. \<not> is_private_or_reserved a) ips))"
proof
  have "validate_audio_url (E\<lparr>sw_text := T\<rparr>) raw = validate_audio_url E raw" for raw
    by (simp add: validate_audio_url_def split: option.split)
  then have "audio_args C (E\<lparr>sw_text := T\<rparr>) a = audio_args C E a" for a by (simp add: audio_args_def)
  then have [simp]: "chosen_audio C (E\<lparr>sw_text := T\<rparr>) silent = chosen_audio C E silent"
    by (simp add: chosen_audio_def loaded_audio_def)
  show "ss_args s' = ss_args s"
    using assms by (auto simp: start_slate_def Let_def split: option.splits prod.splits if_splits)
  show "ss_radio s \<longrightarrow> \<not> silent \<and> (\<exists>l u ips. sw_audio E = Some (Some l) \<and> sw_parse E (au_url l) = Some u \<and> u_user u = None \<and>
       sw_lookup E (hostname u) = Some ips \<and> ips \<noteq> [] \<and> list_all (\<lambda>a. \<not> is_private_or_reserved a) ips)"
  proof
    assume "ss_radio s"
    from radio_start [OF assms(1) this] obtain args v where "chosen_audio C E silent = ((args, True), v)" .
    from chosen_audio_radio [OF this] obtain l where l: "\<not> silent" "sw_audio E = Some (Some l)" "validate_audio_url E (au_url l)"
      by blast
    from l(3) obtain u ips where "sw_parse E (au_url l) = Some u" "u_user u = None" "sw_lookup E (hostname u) = Some ips"
        "ips \<noteq> []" "list_all public_ip ips"
      by (auto simp: validate_audio_url_def simp del: not_None_eq split: option.splits if_splits)
    with l show "\<not> silent \<and> (\<exists>l u ips. sw_audio E = Some (Some l) \<and> sw_parse E (au_url l) = Some u \<and> u_user u = None \<and>
       sw_lookup E (hostname u) = Some ips \<and> ips \<noteq> [] \<and> list_all (\<lambda>a. \<not> is_private_or_reserved a) ips)"
      by (auto simp: list_all_iff public_ip_iff)
  qed
qed

theorem slate_encoder_arguments_witness:
  "map_option ss_radio (start_slate ex_slates (ex_radio_env ''a'') [] unavailable None False) = Some True \<and>
   map_option ss_args (start_slate ex_slates ((ex_radio_env ''a'')\<lparr>sw_text := Some (\<lambda>r. Some (mk_text ''C'' ''D''))\<rparr>) [] unavailable None False) =
   map_option ss_args (start_slate ex_slates (ex_radio_env ''a'') [] unavailable None False)"
proof -
  let ?E = "ex_radio_env ''a''" and ?T = "Some (\<lambda>r. Some (mk_text ''C'' ''D''))"
  have "map_option ss_radio (start_slate ex_slates ?E [] unavailable None False) = Some True"
    "map_option ss_text (start_slate ex_slates ?E [] unavailable None False) = Some (mk_text ''A'' ''B'')"
    "map_option ss_text (start_slate ex_slates (?E\<lparr>sw_text := ?T\<rparr>) [] unavailable None False) = Some (mk_text ''C'' ''D'')"
    by code_simp+
  then obtain s s' where s: "start_slate ex_slates ?E [] unavailable None False = Some s" "ss_radio s"
      "start_slate ex_slates (?E\<lparr>sw_text := ?T\<rparr>) [] unavailable None False = Some s'"
      "ss_text s = mk_text ''A'' ''B''" "ss_text s' = mk_text ''C'' ''D''" by auto
  have "fit_font_size (tx_title (mk_text ''C'' ''D'')) 117 = fit_font_size (tx_title (mk_text ''A'' ''B'')) 117"
    "fit_font_size (wrap_subtitle (tx_subtitle (mk_text ''C'' ''D''))) 47 =
       fit_font_size (wrap_subtitle (tx_subtitle (mk_text ''A'' ''B''))) 47" by code_simp+
  from slate_encoder_arguments [OF s(1,3)] this s show ?thesis by simp
qed

text \<open>The radio is named to FFmpeg by its host: the addresses that were checked are not in the command line, and FFmpeg
  looks the host up again.\<close>

lemma radio_address_not_pinned:
  assumes "start_slate C E taken variant d silent = Some s" and "start_slate C (E\<lparr>sw_lookup := L\<rparr>) taken variant d silent = Some s'"
    and "ss_radio s" and "ss_radio s'"
  shows "ss_args s' = ss_args s"
proof -
  obtain a v where c: "chosen_audio C E silent = ((a, True), v)" using radio_start [OF assms(1,3)] .
  obtain a' v' where c': "chosen_audio C (E\<lparr>sw_lookup := L\<rparr>) silent = ((a', True), v')" using radio_start [OF assms(2,4)] .
  have "a' = a" "v' = v"
    using chosen_audio_radio [OF c] chosen_audio_radio [OF c'] by (auto simp: audio_args_def split: if_splits)
  with assms(1,2) c c' show ?thesis
    by (auto simp: start_slate_def shown_text_def Let_def split: option.splits if_splits)
qed

end
