(* ===== verification/SlateCard.thy ===== *)
theory SlateCard imports SlateWait Complex_Main begin

text \<open>
  The texts of an error screen fit on it: the computation of \<open>SlateFont\<close> is compared with the real numbers it
  approximates, and the sizes it gives keep every line of an encoder's text inside the card.
\<close>

section \<open>Values\<close>

definition f64_val :: "float64 \<Rightarrow> real" where
  "f64_val x = (let (m, e) = x in of_int m * 2 powi e)"

abbreviation eps :: real where "eps \<equiv> 1 / 4503599627370496"

definition rounds_to :: "real \<Rightarrow> float64 \<Rightarrow> bool" where
  "rounds_to x y \<longleftrightarrow> (1 - eps) * x \<le> f64_val y \<and> f64_val y \<le> (1 + eps) * x \<and> 0 \<le> fst y"

lemma power_int_shift: "g \<le> e \<Longrightarrow> (2 :: real) ^ nat (e - g) * 2 powi g = 2 powi e"
  by (simp add: power_int_add [symmetric] flip: power_int_of_nat)

lemma power_int_shift': "g \<le> e \<Longrightarrow> 2 powi g * (2 :: real) ^ nat (e - g) = 2 powi e"
  using power_int_shift [of g e] by (simp add: mult.commute)

lemma f64_round_val:
  assumes "0 \<le> m"
  shows "0 \<le> fst (f64_round m e)"
    and "\<bar>f64_val (f64_round m e) - of_int m * 2 powi e\<bar> \<le> of_int m * 2 powi e / 9007199254740992"
proof -
  let ?k = "excess m" let ?h = "half_even m ?k"
  show "0 \<le> fst (f64_round m e)"
  proof -
    have "0 \<le> m div 2 ^ ?k" using assms by (simp add: pos_imp_zdiv_nonneg_iff)
    then show ?thesis by (simp add: f64_round_def half_even_def Let_def)
  qed
  have "9007199254740992 * \<bar>real_of_int (?h * 2 ^ ?k - m)\<bar> \<le> of_int m"
    using of_int_le_iff [where 'a = real, THEN iffD2, OF round_error [OF assms]] by simp
  then have "\<bar>real_of_int ?h * 2 ^ ?k - of_int m\<bar> * 2 powi e \<le> of_int m / 9007199254740992 * 2 powi e"
    by (intro mult_right_mono) simp_all
  moreover have "f64_val (f64_round m e) - of_int m * 2 powi e = (real_of_int ?h * 2 ^ ?k - of_int m) * 2 powi e"
    by (simp add: f64_val_def f64_round_def Let_def power_int_add algebra_simps)
  ultimately show "\<bar>f64_val (f64_round m e) - of_int m * 2 powi e\<bar> \<le> of_int m * 2 powi e / 9007199254740992"
    by (simp add: abs_mult)
qed

lemma within_eps:
  fixes a v :: real
  assumes "0 \<le> a" and "\<bar>v - a\<bar> \<le> a / 9007199254740992"
  shows "(1 - eps) * a \<le> v \<and> v \<le> (1 + eps) * a"
proof -
  have "v - a \<le> a / 9007199254740992" "a - v \<le> a / 9007199254740992"
    using assms(2) abs_le_D1 [OF assms(2)] abs_le_D2 [OF assms(2)] by simp_all
  moreover have "(1 - eps) * a = a - a / 4503599627370496" "(1 + eps) * a = a + a / 4503599627370496"
    by (simp_all add: algebra_simps)
  ultimately show ?thesis using assms(1) by simp
qed

lemma f64_round_rounds: "0 \<le> m \<Longrightarrow> rounds_to (of_int m * 2 powi e) (f64_round m e)"
proof -
  assume m: "0 \<le> m"
  then have "0 \<le> of_int m * (2 :: real) powi e" by simp
  from within_eps [OF this f64_round_val(2) [OF m]] f64_round_val(1) [OF m] show ?thesis by (simp only: rounds_to_def simp_thms)
qed

lemma f64_add_rounds:
  assumes "0 \<le> fst x" and "0 \<le> fst y"
  shows "rounds_to (f64_val x + f64_val y) (f64_add x y)"
proof -
  obtain m e n f where xy: "x = (m, e)" "y = (n, f)" by (metis prod.exhaust)
  let ?g = "min e f" let ?M = "m * 2 ^ nat (e - ?g) + n * 2 ^ nat (f - ?g)"
  have "0 \<le> ?M" using assms by (simp add: xy)
  moreover have "of_int ?M * 2 powi ?g = f64_val x + f64_val y"
    by (simp add: xy f64_val_def algebra_simps power_int_shift')
  ultimately show ?thesis using f64_round_rounds [of ?M ?g] by (simp add: f64_add_def xy Let_def)
qed

lemma f64_less_val: "f64_less x y \<longleftrightarrow> f64_val x < f64_val y"
proof -
  obtain m e n f where xy: "x = (m, e)" "y = (n, f)" by (metis prod.exhaust)
  let ?g = "min e f"
  have "f64_val x = of_int (m * 2 ^ nat (e - ?g)) * 2 powi ?g" "f64_val y = of_int (n * 2 ^ nat (f - ?g)) * 2 powi ?g"
    by (simp_all add: xy f64_val_def mult.assoc power_int_shift)
  then show ?thesis by (simp add: f64_less_def xy Let_def of_int_less_iff [where 'a = real, symmetric] del: of_int_less_iff)
qed

section \<open>The widths\<close>

text \<open>What an operation returns has a mantissa of 53 bits, or \<open>2 ^ 53\<close> itself.\<close>

abbreviation is_f64 :: "float64 \<Rightarrow> bool" where "is_f64 x \<equiv> 0 \<le> fst x \<and> fst x \<le> 9007199254740992"

lemma f64_val_nonneg: "0 \<le> fst x \<Longrightarrow> 0 \<le> f64_val x"
  by (simp add: f64_val_def split_beta)

lemma f64_add_mantissa: "0 \<le> fst x \<Longrightarrow> 0 \<le> fst y \<Longrightarrow> is_f64 (f64_add x y)"
  by (cases x; cases y) (simp add: f64_add_def Let_def round_mantissa)

lemma width_const_rounds: "rounds_to (of_int (rune_width r) / 100) (width_const r)"
  by (simp add: rounds_to_def width_const_def rune_width_def ascii_sets narrow_runes_def f64_val_def power_int_minus)

lemma line_width_from:
  assumes "is_f64 w"
  shows "is_f64 (foldl (\<lambda>w r. f64_add w (width_const r)) w l) \<and>
    (1 - eps) ^ length l * (f64_val w + (1 - eps) * (of_int (text_width l) / 100))
      \<le> f64_val (foldl (\<lambda>w r. f64_add w (width_const r)) w l)"
  using assms
proof (induction l arbitrary: w)
  case (Cons r l)
  let ?w = "f64_add w (width_const r)" and ?d = "1 - eps"
  have c: "0 \<le> fst (width_const r)" "?d * (of_int (rune_width r) / 100) \<le> f64_val (width_const r)"
    using width_const_rounds [of r] by (simp_all add: rounds_to_def)
  have a: "is_f64 ?w" "?d * (f64_val w + f64_val (width_const r)) \<le> f64_val ?w"
    using f64_add_mantissa [OF _ c(1), of w] f64_add_rounds [OF _ c(1), of w] Cons.prems by (simp_all add: rounds_to_def)
  let ?t = "of_int (text_width l) / 100 :: real" and ?c = "of_int (rune_width r) / 100 :: real"
  have t: "0 \<le> ?t" using text_width_bounds [of l] by simp
  have "?d * (f64_val w + ?d * (?c + ?t)) = ?d * (f64_val w + ?d * ?c) + ?d * (?d * ?t)" by (simp only: distrib_left mult.assoc add.assoc)
  also have "\<dots> \<le> ?d * (f64_val w + f64_val (width_const r)) + ?d * ?t"
    using c(2) t by (intro add_mono mult_left_mono) (simp_all add: mult_le_cancel_right1)
  also have "\<dots> \<le> f64_val ?w + ?d * ?t" using a(2) by simp
  finally have "?d ^ length l * (?d * (f64_val w + ?d * (?c + ?t))) \<le> ?d ^ length l * (f64_val ?w + ?d * ?t)"
    by (rule mult_left_mono) simp
  also have "\<dots> \<le> f64_val (foldl (\<lambda>w r. f64_add w (width_const r)) ?w l)" using Cons.IH [OF a(1)] by blast
  finally have "?d ^ length (r # l) * (f64_val w + ?d * (?c + ?t)) \<le> f64_val (foldl (\<lambda>w r. f64_add w (width_const r)) ?w l)"
    by (simp only: length_Cons power_Suc2 mult.assoc)
  moreover have "of_int (text_width (r # l)) / 100 = ?c + ?t" by (simp add: text_width_def add_divide_distrib)
  ultimately show ?case using Cons.IH [OF a(1)] by (simp only: foldl_Cons simp_thms)
qed (use text_width_def in \<open>simp add: text_width_def\<close>)

text \<open>The longest line is as wide as every line, less the rounding of its additions.\<close>

lemma line_width_low:
  assumes "length l \<le> 60"
  shows "of_int (text_width l) / 100 \<le> (1 + 1 / 4503599627370) * f64_val (f64_line_width l)"
    and "is_f64 (f64_line_width l)"
proof -
  let ?w = "of_int (text_width l) / 100 :: real" and ?d = "1 - eps"
  have w: "0 \<le> ?w" using text_width_bounds [of l] by simp
  have z: "is_f64 f64_zero" "f64_val f64_zero = 0" by (simp_all add: f64_zero_def f64_val_def)
  note L = line_width_from [OF z(1), of l]
  then show "is_f64 (f64_line_width l)" by (simp add: f64_line_width_def)
  have "1 - 61 * eps \<le> (1 + - eps) ^ 61" using Bernoulli_inequality [of "- eps" 61] by simp
  also have "\<dots> \<le> ?d ^ Suc (length l)" unfolding diff_conv_add_uminus [symmetric] using assms by (intro power_decreasing) simp_all
  finally have "(1 - 61 * eps) * ?w \<le> ?d ^ Suc (length l) * ?w" using w by (rule mult_right_mono)
  also have "\<dots> \<le> f64_val (f64_line_width l)"
    using L by (simp only: f64_line_width_def power_Suc2 mult.assoc z(2) add_0_left)
  finally show "?w \<le> (1 + 1 / 4503599627370) * f64_val (f64_line_width l)" using w by simp
qed

lemma longest_from:
  assumes "is_f64 b" and "list_all (\<lambda>l. is_f64 (f64_line_width l)) ls"
  defines "f \<equiv> \<lambda>b line. let w = f64_line_width line in if f64_less b w then w else b"
  shows "is_f64 (foldl f b ls) \<and> f64_val b \<le> f64_val (foldl f b ls) \<and>
    (\<forall>l \<in> set ls. f64_val (f64_line_width l) \<le> f64_val (foldl f b ls))"
  using assms(1,2)
proof (induction ls arbitrary: b)
  case (Cons l ls)
  have "is_f64 (f b l)" "f64_val b \<le> f64_val (f b l)" "f64_val (f64_line_width l) \<le> f64_val (f b l)"
    using Cons.prems by (simp_all add: f_def Let_def f64_less_val)
  moreover have "list_all (\<lambda>l. is_f64 (f64_line_width l)) ls" using Cons.prems(2) by simp
  ultimately show ?case using Cons.IH [of "f b l"] by (auto intro: order_trans)
qed simp

lemma longest_is_longest:
  assumes "list_all (\<lambda>l. length l \<le> 60) (split_runes rune_nl s)"
  shows "is_f64 (f64_longest s)"
    and "l \<in> set (split_runes rune_nl s) \<Longrightarrow> of_int (text_width l) / 100 \<le> (1 + 1 / 4503599627370) * f64_val (f64_longest s)"
proof -
  have "is_f64 f64_zero" "list_all (\<lambda>l. is_f64 (f64_line_width l)) (split_runes rune_nl s)"
    using assms line_width_low(2) by (auto simp: f64_zero_def list_all_iff)
  note L = longest_from [OF this, folded f64_longest_def]
  then show "is_f64 (f64_longest s)" by blast
  show "of_int (text_width l) / 100 \<le> (1 + 1 / 4503599627370) * f64_val (f64_longest s)" if "l \<in> set (split_runes rune_nl s)"
  proof -
    from that assms have "of_int (text_width l) / 100 \<le> (1 + 1 / 4503599627370) * f64_val (f64_line_width l)"
      using line_width_low(1) by (auto simp: list_all_iff)
    also have "\<dots> \<le> (1 + 1 / 4503599627370) * f64_val (f64_longest s)" using L that by (intro mult_left_mono) auto
    finally show ?thesis .
  qed
qed

section \<open>The quotient\<close>

lemma trunc_below: "0 \<le> fst x \<Longrightarrow> of_int (f64_trunc x) \<le> f64_val x"
proof -
  obtain m e where x: "x = (m, e)" by (rule prod.exhaust)
  show ?thesis
  proof (cases "0 \<le> e")
    case True
    then show ?thesis by (simp add: x f64_trunc_def f64_val_def power_int_def)
  next
    case False
    have "of_int (m div 2 ^ nat (- e)) \<le> of_int m / (2 :: real) ^ nat (- e)"
      using floor_divide_of_int_eq [of m "2 ^ nat (- e)", where 'a = real] of_int_floor_le [of "of_int m / (2 :: real) ^ nat (- e)"] by simp
    with False show ?thesis by (simp add: x f64_trunc_def f64_val_def power_int_def field_simps)
  qed
qed

lemma quotient_above:
  assumes "0 < fst y" and "fst y \<le> 9007199254740992"
  shows "0 \<le> fst (f64_div (1280, 0) y)" and "f64_val (f64_div (1280, 0) y) * f64_val y \<le> 1281 - 1 / 1000"
proof -
  obtain n f where y: "y = (n, f)" by (rule prod.exhaust)
  then have n: "0 < n" "n \<le> 9007199254740992" using assms by simp_all
  let ?a = "1280 * 1298074214633706907132624082305024 :: int"
  let ?M = "2 * (?a div n) + (if ?a mod n = 0 then 0 else 1)"
  have M: "0 \<le> ?M" using n by (simp add: pos_imp_zdiv_nonneg_iff)
  have d: "f64_div (1280, 0) y = f64_round ?M (- f - 111)" by (simp add: y f64_div_def Let_def)
  have R: "rounds_to (of_int ?M * 2 powi (- f - 111)) (f64_div (1280, 0) y)" unfolding d by (rule f64_round_rounds [OF M])
  then show "0 \<le> fst (f64_div (1280, 0) y)" by (simp only: rounds_to_def)
  have "(?a div n) * n \<le> ?a"
  proof -
    have "0 \<le> ?a mod n" using n by simp
    then show ?thesis using div_mult_mod_eq [of ?a n] by linarith
  qed
  moreover have "?M * n \<le> 2 * ((?a div n) * n) + n" using n by (simp add: algebra_simps)
  ultimately have "?M * n \<le> 2 * ?a + n" by linarith
  with n have "?M * n \<le> 2 * ?a + 9007199254740992" by linarith
  from of_int_le_iff [where 'a = real, THEN iffD2, OF this]
  have m: "real_of_int ?M * of_int n \<le> 2 * of_int ?a + 9007199254740992" by (simp only: of_int_add of_int_mult of_int_numeral)
  have p: "2 powi (- f - 111) * 2 powi f = (2 :: real) powi (- 111)"
    using power_int_add [of "2 :: real" "- f - 111" f] by simp
  have "a * 2 powi (- f - 111) * f64_val y = a * of_int n * (2 powi (- f - 111) * 2 powi f)" for a
    by (simp add: y f64_val_def)
  then have v: "a * 2 powi (- f - 111) * f64_val y = a * of_int n * 2 powi (- 111)" for a by (simp only: p)
  have "f64_val (f64_div (1280, 0) y) * f64_val y \<le> (1 + eps) * (of_int ?M * 2 powi (- f - 111)) * f64_val y"
    using R f64_val_nonneg [of y] assms(1) by (intro mult_right_mono) (simp_all only: rounds_to_def less_imp_le)
  also have "\<dots> = (1 + eps) * (real_of_int ?M * of_int n * 2 powi (- 111))" by (simp only: mult.assoc v [unfolded mult.assoc])
  also have "\<dots> \<le> (1 + eps) * ((2 * of_int ?a + 9007199254740992) * 2 powi (- 111))"
    using m by (intro mult_left_mono mult_right_mono) simp_all
  also have "\<dots> \<le> 1281 - 1 / 1000" by (simp add: power_int_minus)
  finally show "f64_val (f64_div (1280, 0) y) * f64_val y \<le> 1281 - 1 / 1000" .
qed

section \<open>The size\<close>

lemma fit_font_size_fits:
  assumes "list_all (\<lambda>l. length l \<le> 60) (split_runes rune_nl s)" and "28 \<le> maximum" and "l \<in> set (split_runes rune_nl s)"
  shows "28 \<le> fit_font_size s maximum \<and> fit_font_size s maximum \<le> maximum \<and>
    fit_font_size s maximum * text_width l \<le> max 128100 (28 * text_width l)"
proof (cases "fst (f64_longest s) = 0")
  case True
  have "of_int (text_width l) / 100 \<le> (0 :: real)"
    using longest_is_longest(2) [OF assms(1,3)] True by (simp add: f64_val_def split_beta)
  then have "text_width l = 0" using text_width_bounds [of l] by simp
  with True assms(2) show ?thesis by (simp add: fit_font_size_def)
next
  case False
  let ?L = "f64_longest s" let ?n = "f64_trunc (f64_div (1280, 0) ?L)"
  have L: "0 < fst ?L" "fst ?L \<le> 9007199254740992" using longest_is_longest(1) [OF assms(1)] False by auto
  note Q = quotient_above [OF L]
  have w: "0 \<le> text_width l" using text_width_bounds [of l] by simp
  have fit: "?n * text_width l \<le> 128100" if "0 \<le> ?n"
  proof -
    have "of_int ?n * (of_int (text_width l) / 100) \<le> of_int ?n * ((1 + 1 / 4503599627370) * f64_val ?L)"
      using longest_is_longest(2) [OF assms(1,3)] that by (intro mult_left_mono) simp_all
    also have "\<dots> \<le> f64_val (f64_div (1280, 0) ?L) * ((1 + 1 / 4503599627370) * f64_val ?L)"
      using trunc_below [OF Q(1)] f64_val_nonneg [of ?L] L(1) by (intro mult_right_mono) simp_all
    also have "\<dots> = (1 + 1 / 4503599627370) * (f64_val (f64_div (1280, 0) ?L) * f64_val ?L)" by (simp only: mult_ac)
    also have "\<dots> \<le> (1 + 1 / 4503599627370) * (1281 - 1 / 1000)" using Q(2) by (rule mult_left_mono) simp
    also have "\<dots> \<le> 1281" by simp
    finally have "real_of_int (?n * text_width l) \<le> of_int 128100" by simp
    then show ?thesis by (simp only: of_int_le_iff)
  qed
  have size: "fit_font_size s maximum = min (max 28 ?n) maximum"
    using False by (simp add: fit_font_size_def Let_def min_def max_def)
  have "min (max 28 ?n) maximum * text_width l \<le> max 28 ?n * text_width l" using w by (intro mult_right_mono) simp_all
  also have "\<dots> \<le> max 128100 (28 * text_width l)"
    using fit by (cases "?n \<le> 28") (simp_all add: max.absorb1 max.absorb2 max.coboundedI1)
  finally show ?thesis using assms(2) by (simp add: size)
qed

section \<open>The texts of an encoder\<close>

lemma reasons_normalized: "list_all (\<lambda>(r, t). normalize_text t = Some t) reasons"
  by code_simp

lemma default_text_normalized: "normalize_text (default_text r) = Some (default_text r)"
proof -
  have "(unauthorized_redistribution, the (map_of reasons unauthorized_redistribution)) \<in> set reasons" by code_simp
  then have "\<exists>q. (q, default_text r) \<in> set reasons"
    by (cases "map_of reasons r") (auto simp: default_text_def dest: map_of_SomeD)
  with reasons_normalized show ?thesis by (auto simp: list_all_iff)
qed

lemma shown_text_normalized: "\<exists>t. normalize_text t = Some (shown_text E r)"
  using default_text_normalized by (auto simp: shown_text_def split: option.splits)

lemma normalized_title:
  assumes "normalize_text t = Some t'"
  shows "split_runes rune_nl (tx_title t') = [tx_title t'] \<and> length (tx_title t') \<le> 32"
proof -
  have t: "tx_title t' = clean_text (tx_title t) False" "length (tx_title t') \<le> 32"
    using assms by (auto simp: normalize_text_def Let_def split: if_splits)
  then have "rune_nl \<notin> set (tx_title t')"
    using cleaned_clean_text [of False "tx_title t"] clean_rune_not_nl by (auto simp: cleaned_def list_all_iff)
  with t(2) show ?thesis by (simp add: split_runes_none)
qed

lemma graph_in_args: "graph \<in> set (ffmpeg_args asset audio graph volume dir)"
  by (simp add: ffmpeg_args_def)

lemma started_text:
  assumes "start_slate C E taken variant d silent = Some s"
  shows "\<exists>reason font cutoff. ss_text s = shown_text E reason \<and>
    slate_filter font (ss_dir s) cutoff (fit_font_size (tx_title (ss_text s)) 117)
      (fit_font_size (wrap_subtitle (tx_subtitle (ss_text s))) 47) \<in> set (ss_args s)"
  using assms unfolding start_slate_def Let_def
  by (auto split: option.splits prod.splits if_splits) (rule exI, rule exI, rule graph_in_args)+

section \<open>The property\<close>

text \<open>C17: whatever text an encoder is started with, the size it is drawn in keeps it within the card by the widths the
  source estimates for its runes: the title in one line of at most 1281 pixels, the subtitle in at most two lines of at
  most 1450 pixels each, in sizes between 28 and 117 or 47. The rounding of the floating-point computation is accounted
  for. That the font keeps to the estimates is not claimed: see \<open>at_signs_underestimated\<close>.\<close>

theorem slate_text_in_card:
  assumes "start_slate C E taken variant d silent = Some s"
  shows "let title = tx_title (ss_text s); wrapped = wrap_subtitle (tx_subtitle (ss_text s)); lines = split_runes rune_nl wrapped;
             a = fit_font_size title 117; b = fit_font_size wrapped 47
    in (\<exists>font cutoff. slate_filter font (ss_dir s) cutoff a b \<in> set (ss_args s)) \<and>
       28 \<le> a \<and> a \<le> 117 \<and> a * text_width title \<le> 1281 * 100 \<and>
       28 \<le> b \<and> b \<le> 47 \<and> length lines \<le> 2 \<and> list_all (\<lambda>l. b * text_width l \<le> 1450 * 100) lines"
proof -
  obtain reason font cutoff where r: "ss_text s = shown_text E reason"
    and g: "slate_filter font (ss_dir s) cutoff (fit_font_size (tx_title (ss_text s)) 117)
      (fit_font_size (wrap_subtitle (tx_subtitle (ss_text s))) 47) \<in> set (ss_args s)"
    using started_text [OF assms] by blast
  obtain t where n: "normalize_text t = Some (ss_text s)" using shown_text_normalized [of E reason] r by auto
  let ?title = "tx_title (ss_text s)" let ?w = "wrap_subtitle (tx_subtitle (ss_text s))"
  have title: "split_runes rune_nl ?title = [?title]" "length ?title \<le> 32" using normalized_title [OF n] by simp_all
  then have a: "28 \<le> fit_font_size ?title 117 \<and> fit_font_size ?title 117 \<le> 117 \<and>
      fit_font_size ?title 117 * text_width ?title \<le> max 128100 (28 * text_width ?title)"
    by (intro fit_font_size_fits) simp_all
  have f: "length (split_runes rune_nl ?w) \<le> 2" "list_all (\<lambda>l. length l \<le> 45) (split_runes rune_nl ?w)"
    using wrap_subtitle_fits [OF n] by (simp_all add: fits_def)
  then have short: "list_all (\<lambda>l. length l \<le> 60) (split_runes rune_nl ?w)" by (auto simp: list_all_iff)
  have b: "28 \<le> fit_font_size ?w 47 \<and> fit_font_size ?w 47 \<le> 47 \<and> fit_font_size ?w 47 * text_width l \<le> 145000"
    if l: "l \<in> set (split_runes rune_nl ?w)" for l
  proof -
    have "length l \<le> 45" using f(2) l by (simp add: list_all_iff)
    then have "max 128100 (28 * text_width l) \<le> 145000" using text_width_bounds [of l] by simp
    with fit_font_size_fits [OF short _ l, of 47] show ?thesis by linarith
  qed
  obtain l where "l \<in> set (split_runes rune_nl ?w)" using split_runes_count [of rune_nl ?w] by (cases "split_runes rune_nl ?w") auto
  with a b f(1) g text_width_bounds [of ?title] title(2) show ?thesis by (auto simp: Let_def list_all_iff)
qed

theorem slate_text_in_card_witness:
  "fit_font_size (ascii_runes ''A'') 117 = 117 \<and> 117 * text_width (ascii_runes ''A'') \<le> 128100 \<and>
   map_option ss_text (start_slate ex_slates ex_slate_env [] unavailable None False) = Some (mk_text ''A'' ''B'')"
proof -
  have "map_option ss_text (start_slate ex_slates ex_slate_env [] unavailable None False) = Some (mk_text ''A'' ''B'')"
    and f: "fit_font_size (ascii_runes ''A'') 117 = 117" by code_simp+
  then obtain s where s: "start_slate ex_slates ex_slate_env [] unavailable None False = Some s" "ss_text s = mk_text ''A'' ''B''" by auto
  from slate_text_in_card [OF s(1)] s f show ?thesis by (simp add: Let_def mk_text_def)
qed

text \<open>
  The estimates, called generous in the source, are not for every rune. A title of 32 at-signs is estimated at
  0.7 em a rune and drawn in size 57; in the DejaVuSans-Bold of this repository the at-sign is 1.0 em wide,
  which makes 1824 pixels where the card has about 1450.
\<close>

lemma at_signs_underestimated:
  "fit_font_size (replicate 32 64) 117 = 57 \<and> 57 * text_width (replicate 32 64) \<le> 128100 \<and> 57 * (32 * 100) > (1450 * 100 :: int)"
  by code_simp

end
