(* ===== verification/GatewayMoves.thy ===== *)
theory GatewayMoves imports Gateway begin

text \<open>
  How the request handler and the supervisor drive the two managers of processes: whatever they do to the
  remux sessions (\<open>internal/remux\<close>) and to the provider of the error-screen videos is a sequence of the
  steps those components take, if the same is true of what others do while they wait.
\<close>

section \<open>Remux sessions\<close>

text \<open>What others do meanwhile is a sequence of steps, and a new session gets an unused identifier and directory.\<close>

definition steady :: "relay_env \<Rightarrow> bool" where
  "steady env \<longleftrightarrow>
     (\<forall>m. rm_step\<^sup>*\<^sup>* m (re_meanwhile env m) \<and> fresh_open m (re_opened env m)) \<and>
     (\<forall>p \<in> set (re_turns env). \<forall>m. rm_step\<^sup>*\<^sup>* m (snd p m))"

lemma wait_turn_moves: "rm_step\<^sup>*\<^sup>* m (snd (wait_turn m now r late))"
proof -
  define look where "look M = (\<lambda>m. case get_path m now (rs_stream (session_at M r)) (rs_id (session_at M r)) index_name of
      (Some (d, n), m') \<Rightarrow> (if d \<in> set (rm_playlists m') then Some (d, n) else None, m') | (None, m') \<Rightarrow> (None, m'))" for M
  have moves: "rm_step\<^sup>*\<^sup>* m (snd (look M m))" for M m
    using step_get_path [of m now "rs_stream (session_at M r)" "rs_id (session_at M r)" index_name]
    by (auto simp: look_def split: prod.splits option.splits)
  obtain a m1 b m2 where l: "look m m = (a, m1)" "look m m1 = (b, m2)" by (metis prod.exhaust)
  have "rm_step\<^sup>*\<^sup>* m m1" "rm_step\<^sup>*\<^sup>* m1 m2" using moves [of m m] moves [of m1 m] l by simp_all
  moreover have "snd (wait_turn m now r late) = m1 \<or> snd (wait_turn m now r late) = m2"
  proof -
    have "wait_turn m now r late = (case look m m of
        (Some p, m1) \<Rightarrow> (Some (Inr p), m1)
      | (None, m1) \<Rightarrow>
          if rs_done (session_at m1 r)
          then (case look m m1 of
                  (Some p, m2) \<Rightarrow> (Some (Inr p), m2)
                | (None, m2) \<Rightarrow> (Some (Inl (err_text ''ffmpeg exited before creating a playlist'')), m2))
          else if late then (Some (Inl (err_text ''timed out waiting for first HLS segment'')), m1)
          else (None, m1))"
      by (simp only: wait_turn_def look_def Let_def)
    then show ?thesis using l by (auto split: option.splits)
  qed
  ultimately show ?thesis using rtranclp_trans [of rm_step m m1 m2] by auto
qed

lemma wait_playlist_moves:
  "\<forall>p \<in> set turns. \<forall>m. rm_step\<^sup>*\<^sup>* m (snd p m) \<Longrightarrow> rm_step\<^sup>*\<^sup>* m (snd (wait_playlist turns deadline r m))"
proof (induction turns deadline r m rule: wait_playlist.induct)
  case (1 deadline r m)
  from wait_turn_moves [of m deadline r True] show ?case by (auto split: prod.splits option.splits)
next
  case (2 now others turns deadline r m)
  obtain a m1 where t: "wait_turn m now r False = (a, m1)" by (rule prod.exhaust)
  have m1: "rm_step\<^sup>*\<^sup>* m m1" using wait_turn_moves [of m now r False] t by simp
  show ?case
  proof (cases a)
    case None
    have "rm_step\<^sup>*\<^sup>* m1 (others m1)" using "2.prems" by simp
    moreover have "rm_step\<^sup>*\<^sup>* (others m1) (snd (wait_playlist turns deadline r (others m1)))"
      using "2.IH" [OF t [symmetric] None] "2.prems" by simp
    ultimately show ?thesis using m1 t None by (auto intro: rtranclp_trans)
  qed (simp add: t m1)
qed

lemma find_open: "List.find (\<lambda>q. po_ref q = p) ps = Some q \<Longrightarrow> q \<in> set ps"
  by (auto simp: find_Some_iff)

lemma remux_start_moves:
  assumes "steady env"
  shows "rm_step\<^sup>*\<^sup>* m (snd (remux_start env m i sig))"
proof -
  obtain res m1 where b: "start_begin m (re_now env) i sig = (res, m1)" by (rule prod.exhaust)
  have m1: "rm_step m m1" using step_begin [of m "re_now env" i sig] b by simp
  show ?thesis
  proof (cases res)
    case (Opening p)
    let ?m2 = "re_meanwhile env m1"
    have m2: "rm_step\<^sup>*\<^sup>* m ?m2" using m1 assms by (auto simp: steady_def intro: converse_rtranclp_into_rtranclp)
    show ?thesis
    proof (cases "List.find (\<lambda>q. po_ref q = p) (rm_pending ?m2)")
      case (Some q)
      have "rm_step ?m2 (snd (start_finish ?m2 (re_after env) q sig (re_opened env ?m2)))"
        using assms find_open [OF Some] by (intro step_finish) (simp_all add: steady_def)
      with m2 have "rm_step\<^sup>*\<^sup>* m (snd (start_finish ?m2 (re_after env) q sig (re_opened env ?m2)))"
        by (rule rtranclp.rtrancl_into_rtrancl)
      with Some b Opening show ?thesis by (auto simp: remux_start_def Let_def split: prod.splits start_result.splits)
    qed (simp add: remux_start_def b Opening Let_def m2)
  qed (use m1 in \<open>simp_all add: remux_start_def b r_into_rtranclp\<close>)
qed

lemma start_relay_moves:
  assumes "steady env"
  shows "rm_step\<^sup>*\<^sup>* m (snd (start_relay env m i sig))"
proof -
  define wait where "wait = (\<lambda>r m. case wait_playlist (re_turns env) (re_deadline env) r m of
      (Inl e, m') \<Rightarrow> (Inl e, stop_stream m' i) | (Inr p, m') \<Rightarrow> (Inr (), snd (set_pinned m' (re_after env) i True)))"
  have wait: "rm_step\<^sup>*\<^sup>* m (snd (wait r m))" for r m
  proof -
    obtain a m' where w: "wait_playlist (re_turns env) (re_deadline env) r m = (a, m')" by (rule prod.exhaust)
    then have "rm_step\<^sup>*\<^sup>* m m'" using wait_playlist_moves [of "re_turns env" m "re_deadline env" r] assms by (simp add: steady_def)
    moreover have "rm_step m' (stop_stream m' i)" "rm_step m' (snd (set_pinned m' (re_after env) i True))"
      by (rule step_stop step_set_pinned)+
    ultimately show ?thesis using w by (cases a) (auto simp: wait_def)
  qed
  have eq: "start_relay env m i sig = (case remux_start env m i sig of (Inl e, m') \<Rightarrow> (Inl e, m') | (Inr r, m') \<Rightarrow> wait r m')"
    unfolding start_relay_def remux_start_def wait_def [symmetric] Let_def
    by (auto split: prod.splits start_result.splits option.splits)
  obtain a m' where s: "remux_start env m i sig = (a, m')" by (rule prod.exhaust)
  have "rm_step\<^sup>*\<^sup>* m m'" using remux_start_moves [OF assms, of m i sig] s by simp
  with s wait show ?thesis unfolding eq by (cases a) (auto intro: rtranclp_trans)
qed

section \<open>Requests\<close>

text \<open>\<open>S\<close> are the steps of the provider.\<close>

definition gw_moves :: "('p \<Rightarrow> 'p \<Rightarrow> bool) \<Rightarrow> 'p gateway \<Rightarrow> 'p gateway \<Rightarrow> bool" where
  "gw_moves S g g' \<longleftrightarrow> rm_step\<^sup>*\<^sup>* (gw_remux g) (gw_remux g') \<and> S\<^sup>*\<^sup>* (gw_slate g) (gw_slate g')"

definition steady_gateway :: "('p \<Rightarrow> 'p \<Rightarrow> bool) \<Rightarrow> 'p gw_env \<Rightarrow> bool" where
  "steady_gateway S E \<longleftrightarrow>
     steady (ge_relay E) \<and> (\<forall>p v k n. S\<^sup>*\<^sup>* p (snd (sp_get_path (ge_provider E) p v k n))) \<and>
     (\<forall>p v a t c. S\<^sup>*\<^sup>* p (snd (sp_prepare (ge_provider E) p v a t c)))"

lemma gw_moves_trans: "gw_moves S g h \<Longrightarrow> gw_moves S h k \<Longrightarrow> gw_moves S g k"
  by (auto simp: gw_moves_def intro: rtranclp_trans)

lemma gw_moves_same: "gw_remux g' = gw_remux g \<Longrightarrow> gw_slate g' = gw_slate g \<Longrightarrow> gw_moves S g g'"
  by (simp add: gw_moves_def)

lemma gw_moves_remux: "rm_step\<^sup>*\<^sup>* (gw_remux g) m \<Longrightarrow> gw_moves S g (g\<lparr>gw_remux := m\<rparr>)"
  by (simp add: gw_moves_def)

lemma gw_moves_slate: "S\<^sup>*\<^sup>* (gw_slate g) p \<Longrightarrow> gw_moves S g (g\<lparr>gw_slate := p\<rparr>)"
  by (simp add: gw_moves_def)

lemma untouched [simp]:
  "gw_remux (snd (source_private E st e g)) = gw_remux g" "gw_slate (snd (source_private E st e g)) = gw_slate g"
  "gw_remux (snd (gw_fetch C net target st b d g)) = gw_remux g" "gw_slate (snd (gw_fetch C net target st b d g)) = gw_slate g"
  "gw_remux (snd (gw_node_fetch C E target q g)) = gw_remux g" "gw_slate (snd (gw_node_fetch C E target q g)) = gw_slate g"
  "gw_remux (touch_token_throttled E i g) = gw_remux g" "gw_slate (touch_token_throttled E i g) = gw_slate g"
  by (simp_all add: source_private_def gw_fetch_def gw_node_fetch_def touch_token_throttled_def Let_def split: prod.split)

lemma fetch_keeps: "gw_fetch C net target st b d g = (a, g') \<Longrightarrow> gw_remux g' = gw_remux g \<and> gw_slate g' = gw_slate g"
  using untouched(3,4) [of C net target st b d g] by simp

lemma finite_slate_moves:
  assumes "steady_gateway S E"
  shows "S\<^sup>*\<^sup>* p (snd (finite_temporary_slate E late p))"
proof -
  have read: "S\<^sup>*\<^sup>* p (snd (read_finite_slate E base reason p))" for base reason p
    using assms by (auto simp: steady_gateway_def read_finite_slate_def split: prod.splits sum.splits option.splits)
      (metis snd_conv)+
  show ?thesis
  proof (induction late arbitrary: p)
    case Nil
    show ?case
      using read [of p "fst (slate_route_parts temporary)" "snd (slate_route_parts temporary)"]
      by (subst finite_temporary_slate.simps) (auto simp: Let_def split: prod.splits sum.splits if_splits)
  next
    case (Cons b late)
    obtain a p' where r: "read_finite_slate E (fst (slate_route_parts temporary)) (snd (slate_route_parts temporary)) p = (a, p')"
      by (rule prod.exhaust)
    have "S\<^sup>*\<^sup>* p p'" using read [of p "fst (slate_route_parts temporary)" "snd (slate_route_parts temporary)"] r by simp
    with Cons [of p'] r show ?case
      by (subst finite_temporary_slate.simps)
        (auto simp: Let_def split: prod.splits sum.splits if_splits bool.splits intro: rtranclp_trans)
  qed
qed

lemma temporary_failure_moves: "steady_gateway S E \<Longrightarrow> gw_moves S g (snd (write_temporary_failure E q g))"
  using finite_slate_moves [of S E "gw_slate g" "ge_late E"]
  by (auto simp: write_temporary_failure_def gw_moves_def split: prod.splits sum.splits)

lemma replacement_moves: "steady_gateway S E \<Longrightarrow> gw_moves S g (snd (write_replacement E q ap token entry g))"
  by (auto simp: write_replacement_def steady_gateway_def gw_moves_def Let_def split: prod.splits option.splits)
    (metis snd_conv)+

lemma serve_slate_moves: "steady_gateway S E \<Longrightarrow> gw_moves S g (snd (serve_slate E q g))"
  by (auto simp: serve_slate_def steady_gateway_def gw_moves_def split: prod.splits option.splits sum.splits slate_error.splits)
    (metis snd_conv)+

lemma remux_playlist_moves:
  assumes "steady_gateway S E"
  shows "gw_moves S g (snd (write_remux_playlist C E ap r prefix g))"
proof -
  obtain a m where w: "wait_playlist (re_turns (ge_relay E)) (re_deadline (ge_relay E)) r (gw_remux g) = (a, m)" by (rule prod.exhaust)
  have "rm_step\<^sup>*\<^sup>* (gw_remux g) m"
    using wait_playlist_moves [of "re_turns (ge_relay E)" "gw_remux g" "re_deadline (ge_relay E)" r] assms w
    by (simp add: steady_gateway_def steady_def)
  with w show ?thesis
    by (cases a) (auto simp: write_remux_playlist_def gw_moves_def Let_def split: option.splits)
qed

lemma remux_entry_moves:
  assumes "steady_gateway S E"
  shows "gw_moves S g (snd (serve_remux_entry C E ap prefix g))"
proof -
  let ?start = "remux_start (ge_relay E) (gw_remux g) (s_id (a_stream ap)) (gw_signature C (a_stream ap))"
  obtain a m where s: "?start = (a, m)" by (rule prod.exhaust)
  have "rm_step\<^sup>*\<^sup>* (gw_remux g) m"
    using remux_start_moves [of "ge_relay E" "gw_remux g"] assms s by (metis snd_conv steady_gateway_def)
  note m = gw_moves_remux [OF this]
  from m gw_moves_trans [OF m remux_playlist_moves [OF assms]] s show ?thesis
    by (cases a) (simp_all add: serve_remux_entry_def)
qed

lemma remux_resource_moves: "gw_moves S g (snd (serve_remux_resource E ap target g))"
  using step_get_path by (auto simp: serve_remux_resource_def gw_moves_def Let_def split: prod.splits option.splits)
    (metis r_into_rtranclp snd_conv)+

lemma sniff_moves: "steady_gateway S E \<Longrightarrow> gw_moves S g (snd (sniff_and_serve C E q resp u prefix ap entry g))"
  by (auto simp: sniff_and_serve_def Let_def gw_moves_same temporary_failure_moves remux_entry_moves split: option.splits)

lemma entry_moves:
  assumes "steady_gateway S E"
  shows "gw_moves S g (snd (serve_entry C E q ap source_entry prefix g))"
proof -
  let ?st = "a_stream ap" and ?now = "ck_now (ge_clock E)"
  obtain ref m1 where r: "(if \<not> s_allow_remux ?st then existing (gw_remux g) ?now (s_id ?st) (gw_signature C ?st)
      else (None, gw_remux g)) = (ref, m1)" by (rule prod.exhaust)
  obtain ex m2 where e: "existing m1 ?now (s_id ?st) (gw_signature C ?st) = (ex, m2)" by (rule prod.exhaust)
  have m1: "rm_step\<^sup>*\<^sup>* (gw_remux g) m1"
    using r step_existing [of "gw_remux g" ?now "s_id ?st" "gw_signature C ?st"] by (auto split: if_splits)
  have m2: "rm_step\<^sup>*\<^sup>* (gw_remux g) m2"
    using m1 e step_existing [of m1 ?now "s_id ?st" "gw_signature C ?st"] by (auto intro: rtranclp.rtrancl_into_rtrancl)
  note t = gw_moves_trans [OF gw_moves_remux [OF m1] temporary_failure_moves [OF assms]]
  note j = gw_moves_trans [OF gw_moves_remux [OF m2] remux_playlist_moves [OF assms]]
  obtain pr g1 where p: "source_private E ?st source_entry (g\<lparr>gw_remux := m2\<rparr>) = (pr, g1)" by (rule prod.exhaust)
  obtain a g2 where f: "gw_fetch C (ge_network E) source_entry ?st pr entry_header_timeout g1 = (a, g2)" by (rule prod.exhaust)
  obtain b g3 where f2: "(case a of
        Inl e \<Rightarrow> if fetch_failure_kind e = ''timeout''
          then gw_fetch C (ge_retry_network E) source_entry ?st pr entry_retry_header_timeout g2 else (a, g2)
      | Inr _ \<Rightarrow> (a, g2)) = (b, g3)" by (rule prod.exhaust)
  have "gw_remux g1 = m2" "gw_slate g1 = gw_slate g"
    using untouched(1,2) [of E ?st source_entry "g\<lparr>gw_remux := m2\<rparr>"] p by simp_all
  moreover have "gw_remux g2 = gw_remux g1" "gw_slate g2 = gw_slate g1"
    using untouched(3,4) [of C "ge_network E" source_entry ?st pr entry_header_timeout g1] f by simp_all
  moreover have "gw_remux g3 = gw_remux g2" "gw_slate g3 = gw_slate g2"
    using f2 by (auto dest: fetch_keeps split: sum.splits if_splits)
  ultimately have g3: "gw_moves S g g3" using m2 by (simp add: gw_moves_def)
  note rest = gw_moves_trans [OF g3 temporary_failure_moves [OF assms]] gw_moves_trans [OF g3 sniff_moves [OF assms]]
  show ?thesis
  proof (cases "ref \<noteq> None")
    case True
    with r t show ?thesis by (simp add: serve_entry_def Let_def)
  next
    case False
    show ?thesis
    proof (cases ex)
      case (Some s)
      with False r e j show ?thesis by (simp add: serve_entry_def Let_def)
    next
      case None
      with False r e p f f2 rest show ?thesis
        by (cases b) (simp_all add: serve_entry_def Let_def split: prod.splits)
    qed
  qed
qed

lemma resource_moves:
  assumes "steady_gateway S E"
  shows "gw_moves S g (snd (serve_resource C E q ap source_entry target prefix g))"
proof -
  obtain pr g1 where p: "source_private E (a_stream ap) source_entry g = (pr, g1)" by (rule prod.exhaust)
  obtain a g2 where f: "gw_fetch C (ge_network E) target (a_stream ap) pr 0 g1 = (a, g2)" by (rule prod.exhaust)
  have "gw_moves S g g2"
    using untouched(1,2) [of E "a_stream ap" source_entry g] p untouched(3,4) [of C "ge_network E" target "a_stream ap" pr 0 g1] f
    by (intro gw_moves_same) simp_all
  from this gw_moves_trans [OF this sniff_moves [OF assms]] p f show ?thesis
    by (cases a) (auto simp: serve_resource_def Let_def)
qed

lemma node_fetch_moves: "gw_node_fetch C E target q g = (a, g1) \<Longrightarrow> gw_moves S g g1"
  using untouched(5,6) [of C E target q g] by (intro gw_moves_same) simp_all

lemma from_node_moves:
  assumes "steady_gateway S E"
  shows "gw_moves S g (snd (serve_from_node C E q ap prefix g))"
  using gw_moves_trans [OF node_fetch_moves sniff_moves [OF assms]] node_fetch_moves [where S = S]
  by (auto simp: serve_from_node_def gw_moves_same Let_def split: option.splits sum.splits prod.splits)
    (metis snd_conv)

lemma node_resource_moves:
  assumes "steady_gateway S E"
  shows "gw_moves S g (snd (serve_node_resource C E q ap target prefix g))"
  using gw_moves_trans [OF node_fetch_moves sniff_moves [OF assms]] node_fetch_moves [where S = S]
  by (auto simp: serve_node_resource_def split: sum.splits prod.splits)

lemma admitted_moves:
  assumes "steady_gateway S E"
  shows "gw_moves S g (snd (serve_admitted C E q ap prefix remainder g))"
proof (cases "source_entry_url (gc_lib C) (gc_aead C) (gc_key C) (a_stream ap)")
  case (Inr source_entry)
  show ?thesis
  proof (cases "remainder = []")
    case True
    obtain a g1 where n: "serve_from_node C E q ap prefix g = (a, g1)" by (rule prod.exhaust)
    then have "gw_moves S g g1" using from_node_moves [OF assms, of g C q ap prefix] by simp
    from this gw_moves_trans [OF this entry_moves [OF assms]] True n Inr show ?thesis
      by (cases a) (simp_all add: serve_admitted_def)
  next
    case False
    have p: "gw_moves S g (snd (source_private E (a_stream ap) source_entry g))" by (rule gw_moves_same) simp_all
    note p [THEN gw_moves_trans, OF resource_moves [OF assms]]
    with p False Inr show ?thesis
      by (cases "source_private E (a_stream ap) source_entry g")
        (auto simp: serve_admitted_def Let_def gw_moves_same temporary_failure_moves [OF assms] remux_resource_moves
          node_resource_moves [OF assms] split: sum.splits option.splits)
  qed
qed (simp add: serve_admitted_def gw_moves_same)

lemma request_moves:
  assumes "steady_gateway S E"
  shows "gw_moves S g (snd (serve_http C E q g))"
proof -
  have stream: "gw_moves S g (snd (serve_stream C E q path g))" for path
  proof -
    obtain prefix remainder where s: "split_request path = (prefix, remainder)" by (rule prod.exhaust)
    have t: "gw_moves S g (touch_token_throttled E i g)" for i by (rule gw_moves_same) simp_all
    note gw_moves_trans [OF t replacement_moves [OF assms]] gw_moves_trans [OF t admitted_moves [OF assms]]
    then show ?thesis
      by (auto simp: serve_stream_def s Let_def gw_moves_same replacement_moves [OF assms] admitted_moves [OF assms]
          split: sum.splits store_error.splits admission.splits)
  qed
  show ?thesis
    by (auto simp: serve_http_def Let_def gw_moves_same serve_slate_moves [OF assms] stream split: prod.splits)
qed

section \<open>The supervisor\<close>

lemma reconcile_stream_moves:
  assumes "steady env"
  shows "rm_step\<^sup>*\<^sup>* (aw_remux w) (aw_remux (reconcile_stream L fmt sig R pinned env st w))"
proof -
  let ?i = "s_id st" and ?now = "re_now env"
  define m where "m = (if map_of pinned ?i = Some False then stop_stream (aw_remux w) ?i else aw_remux w)"
  have m: "rm_step\<^sup>*\<^sup>* (aw_remux w) m" using step_stop [of "aw_remux w" ?i] by (auto simp: m_def)
  obtain a m1 where e: "existing m ?now ?i (sig st) = (a, m1)" by (rule prod.exhaust)
  have m1: "rm_step\<^sup>*\<^sup>* (aw_remux w) m1"
    using m step_existing [of m ?now ?i "sig st"] e by (auto intro: rtranclp.rtrancl_into_rtrancl)
  have pin: "rm_step\<^sup>*\<^sup>* (aw_remux w) (snd (set_pinned m1 ?now ?i True))"
    using m1 step_set_pinned by (rule rtranclp.rtrancl_into_rtrancl)
  obtain b m2 where r: "start_relay env m1 ?i (sig st) = (b, m2)" by (rule prod.exhaust)
  have m2: "rm_step\<^sup>*\<^sup>* (aw_remux w) m2"
    using m1 start_relay_moves [OF assms, of m1 ?i "sig st"] r by (auto intro: rtranclp_trans)
  show ?thesis
  proof (cases "map_of pinned ?i = Some False")
    case True
    then have d: "stop_stream (aw_remux w) ?i = m" by (simp add: m_def)
    show ?thesis using m m1 pin m2 by (simp add: reconcile_stream_def Let_def put_state_def True d e r split: option.splits sum.splits prod.splits)
  next
    case False
    then have d: "existing (aw_remux w) ?now ?i (sig st) = (a, m1)" using e by (simp add: m_def)
    show ?thesis using m1 pin m2 by (simp add: reconcile_stream_def Let_def put_state_def False d r split: option.splits sum.splits prod.splits)
  qed
qed

lemma unpin_moves: "rm_step\<^sup>*\<^sup>* (aw_remux w) (aw_remux (unpin_unwanted now pinned want w))"
  unfolding unpin_unwanted_def
proof (induction pinned arbitrary: w)
  case (Cons p ps)
  obtain i alive where p: "p = (i, alive)" by (rule prod.exhaust)
  have "rm_step (aw_remux w) (snd (set_pinned (aw_remux w) now i False))" by (rule step_set_pinned)
  with Cons [of "w\<lparr>aw_remux := snd (set_pinned (aw_remux w) now i False), aw_states := AList.delete i (aw_states w)\<rparr>"] Cons [of w] p
  show ?case by (auto intro: converse_rtranclp_into_rtranclp)
qed simp

lemma reconcile_streams_moves:
  assumes "\<And>i. steady (env i)"
  shows "rm_step\<^sup>*\<^sup>* (aw_remux w) (aw_remux (fst (reconcile_streams L fmt sig R pinned env sts w)))"
proof (induction sts arbitrary: w)
  case (Cons st sts)
  from rtranclp_trans [OF reconcile_stream_moves [OF assms] Cons.IH] show ?case by simp
qed simp

lemma supervisor_moves:
  assumes "\<And>i. steady (env i)"
  shows "rm_step\<^sup>*\<^sup>* (aw_remux w) (aw_remux (reconcile_always_on L fmt sig R ro now order env w))"
proof (cases "ry_always_on R (aw_store w)")
  case (Inr streams)
  obtain want s where c: "choose_wanted R (max_relays ro (remux_slots (aw_remux w))) (remux_slots (aw_remux w)) streams [] (aw_store w) = (want, s)"
    by (rule prod.exhaust)
  let ?w1 = "unpin_unwanted now (pinned_streams (aw_remux w)) want (w\<lparr>aw_store := s\<rparr>)"
  obtain w2 b where r: "reconcile_streams L fmt sig R (pinned_streams (aw_remux w)) env (order want) ?w1 = (w2, b)" by (rule prod.exhaust)
  have "rm_step\<^sup>*\<^sup>* (aw_remux (w\<lparr>aw_store := s\<rparr>)) (aw_remux ?w1)" by (rule unpin_moves)
  then have "rm_step\<^sup>*\<^sup>* (aw_remux w) (aw_remux ?w1)" by simp
  moreover have "rm_step\<^sup>*\<^sup>* (aw_remux ?w1) (aw_remux (fst (w2, b)))"
    unfolding r [symmetric] by (rule reconcile_streams_moves [OF assms])
  then have "rm_step\<^sup>*\<^sup>* (aw_remux ?w1) (aw_remux w2)" by simp
  ultimately have "rm_step\<^sup>*\<^sup>* (aw_remux w) (aw_remux w2)" by (rule rtranclp_trans)
  with Inr c r show ?thesis by (simp add: reconcile_always_on_def Let_def)
qed (simp add: reconcile_always_on_def)

end
