(* ===== verification/SlateLink.thy ===== *)
theory SlateLink imports GatewaySafety SlateWait begin

text \<open>
  The gateway and its provider of error-screen videos: what the handler relies on (\<open>slate.Provider\<close>) as a
  contract, the manager as its implementation, and a viewer who follows the playlist he is given.
\<close>

section \<open>The contract\<close>

text \<open>
  \<open>Prepare\<close> gives no key, or one that \<open>GetPath\<close> then knows for this variant (unless it was already
  known for another, which is a collision of the signature); \<open>GetPath\<close> says that a video does not
  exist only of a key it does not know, and gives the file asked for.
\<close>

locale slate_contract =
  fixes prep :: "'p \<Rightarrow> string \<Rightarrow> int \<Rightarrow> int \<Rightarrow> time \<Rightarrow> string \<times> 'p"
    and get :: "'p \<Rightarrow> string \<Rightarrow> string \<Rightarrow> string \<Rightarrow> (slate_error, string \<times> string) result \<times> 'p"
    and ok :: "'p \<Rightarrow> bool" and known :: "'p \<Rightarrow> string \<Rightarrow> string \<Rightarrow> bool"
  assumes prep_known: "ok p \<Longrightarrow> prep p v a t c = (k, p') \<Longrightarrow> k \<noteq> [] \<Longrightarrow> valid_key k \<and> (\<exists>w. known p' w k \<and> (known p w k \<or> w = v))"
    and prep_ok: "ok p \<Longrightarrow> prep p v a t c = (k, p') \<Longrightarrow> ok p'"
    and get_known: "ok p \<Longrightarrow> valid_variant v \<Longrightarrow> slate_valid_name n \<Longrightarrow> k = [] \<or> valid_key k \<and> known p v k \<Longrightarrow>
      get p v k n = (res, p') \<Longrightarrow> res \<noteq> Inl NotExist \<and> (\<forall>d f. res = Inr (d, f) \<longrightarrow> f = n)"

section \<open>The handler's side\<close>

text \<open>The address a replacement playlist names, and what a request for it asks the provider.\<close>

definition slate_address :: "string \<Rightarrow> string \<Rightarrow> string \<Rightarrow> string" where
  "slate_address base reason key =
     ''/_sv/slate/'' @ base @ ''/'' @ reason @ ''/'' @ (if key \<noteq> [] then key @ ''/'' else []) @ ''index.m3u8''"

lemma valid_reason_newline: "valid_reason r \<Longrightarrow> newline \<notin> set r"
  by (auto simp: valid_reason_def reasons_def temporary_reason_def unauthorized_redistribution_def split: if_splits)

lemma hex_chars: "valid_key k \<Longrightarrow> newline \<notin> set k \<and> CHR ''/'' \<notin> set k"
proof -
  have "\<not> is_hex_char newline" "\<not> is_hex_char CHR ''/''" by code_simp+
  then show "valid_key k \<Longrightarrow> ?thesis" by (auto simp: valid_key_def list_all_iff)
qed

lemma shown_reason_valid: "valid_reason (shown_reason r) \<and> shown_reason r \<noteq> temporary_reason"
  by (auto simp: shown_reason_def) (auto simp: valid_reason_def reasons_def temporary_reason_def unauthorized_redistribution_def)

lemma unavailable_variant: "valid_reason r \<Longrightarrow> r \<noteq> temporary_reason \<Longrightarrow> valid_variant (unavailable @ '':'' @ r)"
  by (simp add: valid_variant_def split_variant_def unavailable_def cut_at_def temporary_def)

lemma key_no_reason:
  assumes "valid_key k"
  shows "\<not> valid_reason k"
proof
  assume "valid_reason k"
  then have "k \<in> set (map fst reasons)" by (auto simp: valid_reason_def dest: map_of_SomeD intro: rev_image_eqI)
  moreover have "list_all (\<lambda>r. length r \<noteq> 40) (map fst reasons)" by code_simp
  ultimately show False using assms by (auto simp: valid_key_def list_all_iff)
qed

lemma slate_request_address:
  assumes "valid_reason reason" and "reason \<noteq> temporary_reason" and "key = [] \<or> valid_key key"
  shows "slate_request (slate_address unavailable reason key) = Some (unavailable @ '':'' @ reason, key, ''index.m3u8'')"
proof -
  have n: "CHR ''/'' \<notin> set unavailable" "CHR ''/'' \<notin> set reason" "key \<noteq> [] \<Longrightarrow> CHR ''/'' \<notin> set key"
    using valid_reason_chars [OF assms(1)] hex_chars assms(3) by (auto simp: unavailable_def)
  let ?parts = "[''_sv'', ''slate'', unavailable, reason] @ (if key \<noteq> [] then [key] else []) @ [''index.m3u8'']"
  have "slate_address unavailable reason key = ''/'' @ join_with CHR ''/'' ?parts" by (simp add: slate_address_def)
  moreover have "split_on CHR ''/'' (join_with CHR ''/'' ?parts) = ?parts" using n by (intro split_join) auto
  ultimately have parts: "split_on CHR ''/'' (trim_prefix (slate_address unavailable reason key) ''/'') = ?parts"
    by (simp only: trim_prefix_append)
  have v: "valid_variant unavailable" by code_simp
  show ?thesis
    unfolding slate_request_def parts using assms v unavailable_variant [OF assms(1,2)] key_no_reason
    by (auto simp: Let_def slate_valid_name_def numeral_eq_Suc)
qed

lemma replacement_address:
  assumes "write_slate_playlist_key q (unavailable @ '':'' @ reason) key = SlatePlaylist body" and "hq_method q \<noteq> ''HEAD''"
    and "valid_reason reason" and "key = [] \<or> valid_key key"
  shows "split_on newline body ! 3 = slate_address unavailable reason key"
proof -
  have "slate_route_parts (unavailable @ '':'' @ reason) = (unavailable, reason)"
    by (simp add: slate_route_parts_def unavailable_def cut_at_def)
  with assms(1,2) have body: "body = join_with newline [''#EXTM3U'', ''#EXT-X-VERSION:3'',
      ''#EXT-X-STREAM-INF:BANDWIDTH=600000,RESOLUTION=1920x1080'', slate_address unavailable reason key, []]"
    by (auto simp: write_slate_playlist_key_def slate_address_def)
  have "newline \<notin> set (slate_address unavailable reason key)"
    using valid_reason_newline [OF assms(3)] assms(4) hex_chars by (auto simp: slate_address_def unavailable_def)
  then have "split_on newline body = [''#EXTM3U'', ''#EXT-X-VERSION:3'',
      ''#EXT-X-STREAM-INF:BANDWIDTH=600000,RESOLUTION=1920x1080'', slate_address unavailable reason key, []]"
    unfolding body by (intro split_join) auto
  then show ?thesis by simp
qed

context slate_contract begin

lemma replacement_found:
  assumes w: "write_replacement E q ap token True g = (SlatePlaylist body, g1)" and head: "hq_method q \<noteq> ''HEAD''"
    and p: "sp_prepare (ge_provider E) = prep" "sp_get_path (ge_provider E') = get" "ok (gw_slate g)"
    and new: "\<And>v k. known (gw_slate g) v k \<Longrightarrow>
      split_on newline body ! 3 = slate_address unavailable (shown_reason (s_replacement_reason (a_stream ap))) k \<Longrightarrow>
      v = unavailable @ '':'' @ shown_reason (s_replacement_reason (a_stream ap))"
    and files: "\<And>d. ge_files E' (d, ''index.m3u8'') \<noteq> None"
    and q': "hq_path q' = split_on newline body ! 3"
    and later: "ok (gw_slate g1) \<Longrightarrow> ok (gw_slate g2)" "\<And>v k. ok (gw_slate g1) \<Longrightarrow> known (gw_slate g1) v k \<Longrightarrow> known (gw_slate g2) v k"
  shows "fst (serve_slate E' q' g2) \<noteq> NotFound"
proof -
  let ?r = "shown_reason (s_replacement_reason (a_stream ap))"
  let ?v = "unavailable @ '':'' @ ?r"
  have r: "valid_reason ?r" "?r \<noteq> temporary_reason" using shown_reason_valid by auto
  note v = unavailable_variant [OF r]
  obtain key where key: "write_slate_playlist_key q ?v key = SlatePlaylist body"
    and known: "key = [] \<or> valid_key key \<and> known (gw_slate g1) ?v key" and ok: "ok (gw_slate g1)"
  proof (cases "ck_parse_rfc3339 (ge_clock E) (cutoff_stamp ap token)")
    case None
    with w that [of "[]"] p show ?thesis by (auto simp: write_replacement_def write_error_html_def Let_def split: if_splits)
  next
    case (Some t)
    obtain k s where k: "prep (gw_slate g) ?v (a_id ap) (ti_id token) t = (k, s)" by (rule prod.exhaust)
    from w k Some p have wk: "write_slate_playlist_key q ?v k = SlatePlaylist body" "gw_slate g1 = s"
      by (auto simp: write_replacement_def write_error_html_def Let_def split: if_splits)
    have "k = [] \<or> valid_key k \<and> known s ?v k"
    proof (cases "k = []")
      case False
      from prep_known [OF p(3) k False] obtain w' where "valid_key k" "known s w' k" "known (gw_slate g) w' k \<or> w' = ?v" by blast
      with new [of w' k] replacement_address [OF wk(1) head r(1)] show ?thesis by auto
    qed simp
    with wk that [of k] prep_ok [OF p(3) k] show ?thesis by simp
  qed
  from known have "key = [] \<or> valid_key key" by blast
  from slate_request_address [OF r this] replacement_address [OF key head r(1) this] q'
  have sr: "slate_request (hq_path q') = Some (?v, key, ''index.m3u8'')" by simp
  obtain res s where get: "get (gw_slate g2) ?v key ''index.m3u8'' = (res, s)" by (rule prod.exhaust)
  from known later(2) [OF ok] have "key = [] \<or> valid_key key \<and> known (gw_slate g2) ?v key" by blast
  note g = get_known [OF later(1) [OF ok] v _ this get]
  show ?thesis
  proof (cases res)
    case (Inl e)
    with g have "e \<noteq> NotExist" by (simp add: slate_valid_name_def)
    with sr get p(2) Inl show ?thesis by (cases e) (simp_all add: serve_slate_def)
  next
    case (Inr df)
    then obtain d where d: "res = Inr (d, ''index.m3u8'')" using g by (cases df) (auto simp: slate_valid_name_def)
    obtain data where "ge_files E' (d, ''index.m3u8'') = Some data" using files by blast
    with sr get p(2) d show ?thesis by (simp add: serve_slate_def)
  qed
qed

end

section \<open>The manager\<close>

definition key_known :: "slate_config \<Rightarrow> slate_manager \<Rightarrow> string \<Rightarrow> string \<Rightarrow> bool" where
  "key_known C m v k \<longleftrightarrow> (\<exists>d. map_of (sl_personal m) k = Some d \<and> de_variant d = v \<and> k = slate_signature C d)"

text \<open>The manager's \<open>GetPath\<close> as the handler calls it. A request that still waits after its turns has not
  answered; the value given then is of no concern.\<close>

definition manager_get ::
  "slate_config \<Rightarrow> slate_env \<Rightarrow> slate_turn list \<Rightarrow> slate_manager \<Rightarrow> string \<Rightarrow> string \<Rightarrow> string \<Rightarrow> slate_answer" where
  "manager_get C E turns m v k n =
     (case slate_get_path C E turns m v k n of Some a \<Rightarrow> a | None \<Rightarrow> (Inl (SlateFailed ''waiting''), m))"

text \<open>A MAC has at least twenty bytes, and what others do during a wait does not drop a prepared key.\<close>

definition manager_ok :: "slate_config \<Rightarrow> slate_turn list \<Rightarrow> slate_manager \<Rightarrow> bool" where
  "manager_ok C turns m \<longleftrightarrow> slate_inv C m \<and> (\<forall>k x. 20 \<le> length (hmac256 (sf_hashes C) k x)) \<and>
     (\<forall>t \<in> set turns. \<forall>m v k. key_known C m v k \<longrightarrow> key_known C (wt_meanwhile t m) v k)"

lemma signature_valid: "(\<forall>k x. 20 \<le> length (hmac256 (sf_hashes C) k x)) \<Longrightarrow> valid_key (slate_signature C d)"
  by (auto simp: valid_key_def slate_signature_def list_all_iff hex_encode_chars)

lemma prepare_known:
  assumes "manager_ok C turns m" and "prepare C now m v a t c = (k, m')" and "k \<noteq> []"
  shows "valid_key k \<and> (\<exists>w. key_known C m' w k \<and> (key_known C m w k \<or> w = v))"
proof -
  define d where "d = \<lparr>de_variant = v, de_ap = a, de_token = t, de_cutoff = c, de_last_used = now\<rparr>"
  have k: "k = slate_signature C d" using assms(2,3) by (auto simp: prepare_def Let_def d_def split: if_splits option.splits)
  show ?thesis
  proof (cases "map_of (sl_personal m) k")
    case None
    with assms(2,3) k have "m' = m\<lparr>sl_personal := AList.update k d (sl_personal m)\<rparr>"
      by (auto simp: prepare_def Let_def d_def split: if_splits option.splits)
    then have "key_known C m' v k" using k by (simp add: key_known_def update_conv' d_def)
    then show ?thesis using assms(1) signature_valid k by (auto simp: manager_ok_def)
  next
    case (Some old)
    with assms(2,3) k have m': "m' = m\<lparr>sl_personal := AList.update k (old\<lparr>de_last_used := now\<rparr>) (sl_personal m)\<rparr>"
      by (auto simp: prepare_def Let_def d_def split: if_splits option.splits)
    have sig: "k = slate_signature C old"
      using personal_typed [OF _ Some, of C] assms(1) by (auto simp: manager_ok_def typed_descriptor_def)
    have "slate_signature C (old\<lparr>de_last_used := now\<rparr>) = slate_signature C old"
      by (simp add: slate_signature_def descriptor_text_def)
    with Some sig m' have "key_known C m (de_variant old) k" "key_known C m' (de_variant old) k"
      by (auto simp: key_known_def update_conv')
    then show ?thesis using assms(1) signature_valid k by (auto simp: manager_ok_def)
  qed
qed

lemma locked_personal:
  "sl_personal (snd (snd (find_slate m i))) = sl_personal m"
  "sl_personal (snd (drop_dead now i fam)) = sl_personal (snd (snd fam))"
  "sl_personal (snd (new_session C E m variant i d)) = sl_personal m"
  "sl_personal (touch_slate now r m) = sl_personal m"
  "fst (new_session C E m variant i d) \<noteq> Inl NotExist"
  by (auto simp: find_slate_def drop_dead_def remove_slate_def new_session_def touch_slate_def Let_def
      split: option.splits prod.splits)

lemma get_locked_known:
  assumes "valid_variant v" and "slate_valid_name n" and "k = [] \<or> valid_key k \<and> key_known C m v k"
    and "get_locked C E m v k n = (res, m')"
  shows "res \<noteq> Inl NotExist" and "k = [] \<or> valid_key k \<and> key_known C m' v k"
proof -
  have p: "\<exists>m1 d. personal_of C E m v k = Some (m1, d) \<and> (k = [] \<or> key_known C m1 v k)"
    using assms(3) by (auto simp: personal_of_def key_known_def Let_def update_conv' slate_signature_def descriptor_text_def)
  then obtain m1 d where m1: "personal_of C E m v k = Some (m1, d)" "k = [] \<or> key_known C m1 v k" by blast
  obtain f m2 where drop: "drop_dead (sw_now E) (slate_id v k) (find_slate m1 (slate_id v k)) = (f, m2)" by (rule prod.exhaust)
  have p2: "sl_personal m2 = sl_personal m1"
    using locked_personal(1) [of m1 "slate_id v k"] locked_personal(2) [of "sw_now E" "slate_id v k" "find_slate m1 (slate_id v k)"] drop
    by simp
  obtain r m3 where new: "new_session C E m2 v (slate_id v k) d = (r, m3)" by (rule prod.exhaust)
  have p3: "sl_personal m3 = sl_personal m2" "r \<noteq> Inl NotExist"
    using locked_personal(3,5) [of C E m2 v "slate_id v k" d] new by auto
  have "res \<noteq> Inl NotExist \<and> (m' = m \<or> sl_personal m' = sl_personal m1)"
    using assms m1(1) drop new p2 p3
    by (auto simp: get_locked_def Let_def locked_personal(4) split: if_splits option.splits sum.splits)
  then show "res \<noteq> Inl NotExist" and "k = [] \<or> valid_key k \<and> key_known C m' v k"
    using assms(3) m1(2) by (auto simp: key_known_def)
qed

lemma slate_wait_known:
  "valid_variant v \<Longrightarrow> k = [] \<or> valid_key k \<and> key_known C m v k \<Longrightarrow>
   (\<forall>t \<in> set turns. \<forall>m v k. key_known C m v k \<longrightarrow> key_known C (wt_meanwhile t m) v k) \<Longrightarrow>
   slate_wait C turns v k r m = Some (res, m') \<Longrightarrow>
   res \<noteq> Inl NotExist \<and> (\<forall>d f. res = Inr (d, f) \<longrightarrow> f = ''index.m3u8'')"
proof (induction turns arbitrary: m r)
  case Nil
  then show ?case by (subst (asm) slate_wait.simps) (auto split: if_splits)
next
  case (Cons t ts)
  let ?m1 = "wt_meanwhile t m"
  have k1: "k = [] \<or> valid_key k \<and> key_known C ?m1 v k" using Cons.prems(2,3) by auto
  have n: "slate_valid_name ''index.m3u8''" by (simp add: slate_valid_name_def)
  note IH = Cons.IH [OF Cons.prems(1)]
  have kt: "\<forall>t \<in> set ts. \<forall>m v k. key_known C m v k \<longrightarrow> key_known C (wt_meanwhile t m) v k" using Cons.prems(3) by simp
  have again: "res \<noteq> Inl NotExist \<and> (\<forall>d f. res = Inr (d, f) \<longrightarrow> f = ''index.m3u8'')"
    if "k = [] \<or> valid_key k \<and> key_known C m2 v k"
      "(case get_locked C (wt_env t) m2 v k ''index.m3u8'' of (Inl e, m3) \<Rightarrow> Some (Inl e, m3)
         | (Inr r', m3) \<Rightarrow> slate_wait C ts v k r' m3) = Some (res, m')" for m2
  proof -
    obtain a m3 where g: "get_locked C (wt_env t) m2 v k ''index.m3u8'' = (a, m3)" by (rule prod.exhaust)
    note known = get_locked_known [OF Cons.prems(1) n that(1) g]
    show ?thesis
    proof (cases a)
      case (Inr q)
      with that(2) g have "slate_wait C ts v k q m3 = Some (res, m')" by simp
      from IH [OF known(2) kt this] show ?thesis .
    qed (use that(2) g known(1) in auto)
  qed
  have k2: "k = [] \<or> valid_key k \<and> key_known C (end_process r ?m1) v k"
    using k1 by (simp add: key_known_def end_process_def)
  have tick: "slate_wait C ts v k r ?m1 = Some (res, m') \<Longrightarrow> ?case"
    by (rule IH [OF k1 kt])
  show ?case
  proof (cases "ss_dir (slate_at m r) \<in> set (sl_playlists m)")
    case True
    with Cons.prems(4) show ?thesis by (subst (asm) slate_wait.simps) auto
  next
    case False
    note w = Cons.prems(4) [unfolded slate_wait.simps [of C "t # ts"] if_not_P [OF False] Let_def list.case]
    show ?thesis
    proof (cases "wt_event t")
      case EncoderDone
      with w tick again [OF k1] show ?thesis by (simp split: if_splits) blast+
    next
      case DeadlinePassed
      with w again [OF k2] show ?thesis by (simp split: if_splits) blast+
    next
      case Tick
      with w tick show ?thesis by simp
    qed
  qed
qed

lemma manager_get_known:
  assumes "manager_ok C turns m" and "valid_variant v" and "slate_valid_name n" and "k = [] \<or> valid_key k \<and> key_known C m v k"
    and "manager_get C E turns m v k n = (res, m')"
  shows "res \<noteq> Inl NotExist \<and> (\<forall>d f. res = Inr (d, f) \<longrightarrow> f = n)"
proof -
  obtain a m1 where g: "get_locked C E m v k n = (a, m1)" by (rule prod.exhaust)
  note known = get_locked_known [OF assms(2-4) g]
  show ?thesis
  proof (cases a)
    case (Inl e)
    with assms(5) g known(1) show ?thesis by (auto simp: manager_get_def slate_get_path_def)
  next
    case (Inr r)
    have "slate_wait C turns v k r m1 = Some (res, m') \<Longrightarrow> res \<noteq> Inl NotExist \<and> (\<forall>d f. res = Inr (d, f) \<longrightarrow> f = ''index.m3u8'')"
      using slate_wait_known [OF assms(2) known(2), of turns r res m'] assms(1) unfolding manager_ok_def by blast
    with assms(5) g Inr show ?thesis
      by (auto simp: manager_get_def slate_get_path_def split: if_splits option.splits)
  qed
qed

interpretation slates: slate_contract "prepare C now" "manager_get C E turns" "manager_ok C turns" "key_known C"
  for C now E turns
proof (unfold_locales, goal_cases)
  case (1 p v a t c k p')
  then show ?case by (rule prepare_known)
next
  case (2 p v a t c k p')
  then show ?case using prepare_inv [of C p now v a t c] by (simp add: manager_ok_def)
next
  case (3 p v n k res p')
  then show ?case by (rule manager_get_known)
qed

section \<open>Keys over time\<close>

text \<open>Any step of the manager after which every prepared key is still there: anything but reaping a key.\<close>

definition unreaped_step :: "slate_config \<Rightarrow> slate_manager \<Rightarrow> slate_manager \<Rightarrow> bool" where
  "unreaped_step C m m' \<longleftrightarrow> slate_step C m m' \<and> fst ` set (sl_personal m) \<subseteq> fst ` set (sl_personal m')"

lemma end_sessions_personal: "sl_personal (fold end_session xs m) = sl_personal m"
  by (induction xs arbitrary: m) (auto simp: end_session_def remove_slate_def end_process_def upd_slate_def Let_def split: prod.split)

lemma used_signature: "slate_signature C (d\<lparr>de_last_used := t\<rparr>) = slate_signature C d"
  by (simp add: slate_signature_def descriptor_text_def)

lemma used_known:
  assumes "map_of (sl_personal m) i = Some d" and "key_known C m w j"
  shows "key_known C (m\<lparr>sl_personal := AList.update i (d\<lparr>de_last_used := t\<rparr>) (sl_personal m)\<rparr>) w j"
  using assms by (auto simp: key_known_def update_conv' used_signature)

lemma added_known:
  assumes "map_of (sl_personal m) i = None" and "key_known C m w j"
  shows "key_known C (m\<lparr>sl_personal := AList.update i d (sl_personal m)\<rparr>) w j"
  using assms by (auto simp: key_known_def update_conv')

lemma prepare_keeps: "key_known C m w j \<Longrightarrow> key_known C (snd (prepare C now m v a t c)) w j"
  by (simp add: prepare_def Let_def used_known added_known split: option.split)

lemma personal_of_keeps:
  assumes "personal_of C E m v k = Some (m1, d)" and "key_known C m w j"
  shows "key_known C m1 w j"
  using assms by (auto simp: personal_of_def Let_def intro: used_known split: if_splits option.splits)

lemma get_locked_personal:
  "sl_personal (snd (get_locked C E m v k n)) = sl_personal m \<or>
   (\<exists>m1 d. personal_of C E m v k = Some (m1, d) \<and> sl_personal (snd (get_locked C E m v k n)) = sl_personal m1)"
proof (cases "personal_of C E m v k")
  case None
  then show ?thesis by (simp add: get_locked_def)
next
  case (Some md)
  obtain m1 d where md: "md = (m1, d)" by fastforce
  obtain f m2 where drop: "drop_dead (sw_now E) (slate_id v k) (find_slate m1 (slate_id v k)) = (f, m2)" by (rule prod.exhaust)
  obtain r m3 where new: "new_session C E m2 v (slate_id v k) d = (r, m3)" by (rule prod.exhaust)
  have "sl_personal m2 = sl_personal m1" "sl_personal m3 = sl_personal m2"
    using locked_personal(1) [of m1 "slate_id v k"] locked_personal(2) [of "sw_now E" "slate_id v k" "find_slate m1 (slate_id v k)"]
      locked_personal(3) [of C E m2 v "slate_id v k" d] drop new by simp_all
  then show ?thesis using Some md drop new
    by (auto simp: get_locked_def Let_def locked_personal(4) split: option.splits sum.splits)
qed

lemma key_known_personal: "sl_personal m' = sl_personal m \<Longrightarrow> key_known C m' v k = key_known C m v k"
  by (simp add: key_known_def)

lemma map_of_filter_distinct:
  "distinct (map fst xs) \<Longrightarrow> map_of xs k = Some d \<Longrightarrow> k \<in> fst ` set (filter P xs) \<Longrightarrow> map_of (filter P xs) k = Some d"
  by (induction xs) (auto split: if_splits intro: rev_image_eqI)

lemma unreaped_step_keys:
  assumes "unreaped_step C m m'" and I: "slate_inv C m" and k: "key_known C m v k"
  shows "key_known C m' v k"
proof -
  from assms(1) have step: "slate_step C m m'" and there: "fst ` set (sl_personal m) \<subseteq> fst ` set (sl_personal m')"
    by (simp_all add: unreaped_step_def)
  from step show ?thesis
  proof cases
    case (step_get E w j n)
    from get_locked_personal [of C E m w j n] show ?thesis
    proof (elim disjE exE conjE)
      assume "sl_personal (snd (get_locked C E m w j n)) = sl_personal m"
      with k show ?thesis by (simp add: step_get key_known_def)
    next
      fix m1 d
      assume "personal_of C E m w j = Some (m1, d)" "sl_personal (snd (get_locked C E m w j n)) = sl_personal m1"
      with personal_of_keeps [OF this(1) k] show ?thesis by (simp add: step_get key_known_def)
    qed
  next
    case (step_reap now)
    let ?m1 = "fold end_session (filter (\<lambda>(i, r). slate_idle now (slate_at m r)) (sl_sessions m)) m"
    have f: "sl_personal m' = filter (\<lambda>(k, d). \<not> time_sub now (de_last_used d) > slate_idle_time) (sl_personal m)"
      unfolding step_reap slate_reap_def Let_def by (simp add: end_sessions_personal)
    from k obtain d where d: "map_of (sl_personal m) k = Some d" "de_variant d = v" "k = slate_signature C d"
      by (auto simp: key_known_def)
    have "k \<in> fst ` set (sl_personal m)" using map_of_SomeD [OF d(1)] by force
    with there have "k \<in> fst ` set (sl_personal m')" by blast
    moreover have "distinct (map fst (sl_personal m))" using I by (simp add: slate_inv_def slate_typed_def)
    ultimately have "map_of (sl_personal m') k = Some d" unfolding f using d(1) by (intro map_of_filter_distinct)
    with d show ?thesis by (auto simp: key_known_def)
  next
    case (step_prepare now w ap token cutoff)
    show ?thesis unfolding step_prepare using k by (rule prepare_keeps)
  next
    case (step_exit r)
    have "sl_personal m' = sl_personal m" unfolding step_exit by (simp add: end_process_def upd_slate_def)
    with k show ?thesis by (simp add: key_known_def)
  next
    case (step_playlist r)
    have "sl_personal m' = sl_personal m" unfolding step_playlist by simp
    with k show ?thesis by (simp add: key_known_def)
  next
    case (step_restart E)
    have "sl_personal m' = sl_personal m"
      unfolding step_restart restart_on_audio_change_def by (simp add: end_sessions_personal)
    with k show ?thesis by (simp add: key_known_def)
  next
    case step_close
    have "sl_personal m' = sl_personal m" unfolding step_close close_slates_def by (simp add: end_sessions_personal)
    with k show ?thesis by (simp add: key_known_def)
  qed
qed

lemma unreaped_later:
  assumes "(unreaped_step C)\<^sup>*\<^sup>* m m'" and "slate_inv C m"
  shows "slate_inv C m' \<and> (\<forall>v k. key_known C m v k \<longrightarrow> key_known C m' v k)"
  using assms
proof (induction rule: rtranclp_induct)
  case (step m' m'')
  then have "slate_step C m' m''" "slate_inv C m'" by (auto simp: unreaped_step_def)
  with slate_step_inv step.IH [OF step.prems] unreaped_step_keys [OF step.hyps(2)] show ?case by blast
qed simp

section \<open>Property\<close>

text \<open>C24: a player that was shown a replacement playlist and requests the address in it, at whatever later moment, is not told
  that the video does not exist, as long as no personal key was reaped in between (a personal key is kept for 90 seconds
  after its last use; a playlist without one has no such limit) nor is while the request waits, the key's signature is not
  that of another variant's descriptor, and the file is readable.\<close>

theorem replacement_slate_exists:
  fixes g g1 g2 :: "slate_manager gateway"
  assumes "write_replacement E q ap token True g = (SlatePlaylist body, g1)" and "hq_method q \<noteq> ''HEAD''"
    and "sp_prepare (ge_provider E) = prepare C now" and "sp_get_path (ge_provider E') = manager_get C W turns"
    and "manager_ok C turns (gw_slate g)"
    and "\<And>v k. key_known C (gw_slate g) v k \<Longrightarrow>
      split_on newline body ! 3 = slate_address unavailable (shown_reason (s_replacement_reason (a_stream ap))) k \<Longrightarrow>
      v = unavailable @ '':'' @ shown_reason (s_replacement_reason (a_stream ap))"
    and "\<And>d. ge_files E' (d, ''index.m3u8'') \<noteq> None"
    and "hq_path q' = split_on newline body ! 3"
    and later: "(unreaped_step C)\<^sup>*\<^sup>* (gw_slate g1) (gw_slate g2)"
  shows "fst (serve_slate E' q' g2) \<noteq> NotFound"
proof (rule slates.replacement_found [OF assms(1-8)])
  show "manager_ok C turns (gw_slate g2)" if "manager_ok C turns (gw_slate g1)"
    using unreaped_later [OF later] that by (simp add: manager_ok_def)
  show "key_known C (gw_slate g2) v k" if "manager_ok C turns (gw_slate g1)" "key_known C (gw_slate g1) v k" for v k
    using unreaped_later [OF later] that by (simp add: manager_ok_def)
qed

definition link_slates :: slate_config where
  "link_slates = ex_slates\<lparr>sf_print_time := (\<lambda>t. ''t'')\<rparr>"

definition link_env :: "slate_manager gw_env" where
  "link_env =
     \<lparr>ge_clock = tv_clock\<lparr>ck_parse_rfc3339 := (\<lambda>s. Some (3 * second))\<rparr>, ge_up = (\<lambda>x. True), ge_network = tv_network,
      ge_retry_network = tv_network, ge_node_network = tv_network, ge_relay = idle_env, ge_files = (\<lambda>p. Some ''#EXTM3U''),
      ge_provider = \<lparr>sp_get_path = manager_get link_slates ex_slate_env [ex_deadline], sp_prepare = prepare link_slates (5 * second)\<rparr>,
      ge_late = [], ge_api = ge_api tv_env\<rparr>"

definition link_gateway :: "slate_manager gateway" where
  "link_gateway =
     \<lparr>gw_db = tv_db, gw_transport = new_source_transport, gw_trust = Map.empty, gw_remux = new_manager 2,
      gw_last_touch = Map.empty, gw_slate = new_slates, gw_random = [], gw_sent = []\<rparr>"

theorem replacement_slate_exists_witness:
  "slate_address unavailable unauthorized_redistribution ex_key =
     split_on newline (case fst (write_replacement link_env (tv_request ''/tv/secret'') tv_ap no_token True link_gateway) of
       SlatePlaylist body \<Rightarrow> body | _ \<Rightarrow> []) ! 3 \<and>
   fst (serve_slate link_env (tv_request (slate_address unavailable unauthorized_redistribution ex_key))
     (snd (write_replacement link_env (tv_request ''/tv/secret'') tv_ap no_token True link_gateway))) \<noteq> NotFound"
proof -
  let ?w = "write_replacement link_env (tv_request ''/tv/secret'') tv_ap no_token True link_gateway"
  have e: "(case fst ?w of SlatePlaylist body \<Rightarrow>
      split_on newline body ! 3 = slate_address unavailable unauthorized_redistribution ex_key | _ \<Rightarrow> False)"
    by code_simp
  then obtain body where b: "fst ?w = SlatePlaylist body"
      "split_on newline body ! 3 = slate_address unavailable unauthorized_redistribution ex_key"
    by (auto split: reply.splits)
  then have w: "?w = (SlatePlaylist body, snd ?w)" by (metis prod.collapse)
  have ok: "manager_ok link_slates [ex_deadline] (gw_slate link_gateway)"
    by (simp add: manager_ok_def link_gateway_def new_slates_inv link_slates_def ex_slates_def ex_deadline_def)
  have "fst (serve_slate link_env (tv_request (slate_address unavailable unauthorized_redistribution ex_key)) (snd ?w)) \<noteq> NotFound"
    by (rule replacement_slate_exists [OF w _ _ _ ok _ _ _ rtranclp.rtrancl_refl])
      (simp_all add: link_env_def b(2) tv_request_def link_gateway_def key_known_def new_slates_def)
  with b show ?thesis by simp
qed

end
