(* ===== verification/GatewayStart.thy ===== *)
theory GatewayStart imports SlateLink NodeLink begin

text \<open>
  \<open>cmd/gateway/main.go\<close> and \<open>New\<close>, \<open>NewRelayOnly\<close> of \<open>internal/gatewayhttp/handler.go\<close>: what the process
  starts with, as a control gateway or as a relay node. The listener, the signals and the log are I/O; the
  supervisor, the reapers and the requests that follow are the operations of the other theories.
\<close>

section \<open>What is found at start\<close>

record start_env =
  st_getenv :: "string \<Rightarrow> string"
  st_open :: "string \<Rightarrow> db option"  \<comment> \<open>the database at a path, if it opens\<close>
  st_read_key :: "string \<Rightarrow> bytes option"
  st_codec_random :: "bytes option"
  st_slate_random :: "bytes option"
  st_executable :: "bytes option"
  st_write_up :: bool
  st_lib :: url_lib
  st_aead :: aead
  st_hashes :: hashes
  st_valid_utf8 :: "bytes \<Rightarrow> bool"
  st_print_time :: "time \<Rightarrow> string"
  st_local_time :: "time \<Rightarrow> string"

definition getenv_or :: "start_env \<Rightarrow> string \<Rightarrow> string \<Rightarrow> string" where
  "getenv_or S key def = (if st_getenv S key \<noteq> [] then st_getenv S key else def)"

text \<open>\<open>filepath.Dir\<close>, for the path of the database.\<close>

definition data_dir :: "string \<Rightarrow> string" where
  "data_dir path = (case last_index_byte path CHR ''/'' of None \<Rightarrow> ''.'' | Some i \<Rightarrow> if i = 0 then ''/'' else take i path)"

section \<open>The handler\<close>

datatype start_error = CodecFailed | SlatePanic

definition slate_config_of :: "start_env \<Rightarrow> string \<Rightarrow> bytes \<Rightarrow> slate_config" where
  "slate_config_of S db_path secret =
     \<lparr>sf_hashes = st_hashes S, sf_secret = secret, sf_print_time = st_print_time S, sf_local_time = st_local_time S,
      sf_assets = getenv_or S ''STREAMVAULT_SLATE_ASSETS'' ''../../assets/slate'', sf_data_dir = data_dir db_path\<rparr>"

text \<open>The loaders that \<open>New\<close> gives to the manager read the store.\<close>

definition audio_loader :: "bool \<Rightarrow> db \<Rightarrow> audio_settings option option" where
  "audio_loader up D = Some (slate_audio_settings up D)"

definition text_loader :: "bool \<Rightarrow> db \<Rightarrow> (string \<Rightarrow> slate_text option) option" where
  "text_loader up D =
     Some (\<lambda>reason. case slate_text_row up D reason of
                      Inl e \<Rightarrow> None
                    | Inr (title, subtitle) \<Rightarrow> Some \<lparr>tx_title = utf8_runes title, tx_subtitle = utf8_runes subtitle\<rparr>)"

definition new_remux :: "start_env \<Rightarrow> int \<Rightarrow> manager" where
  "new_remux S def = new_manager (nat (slots_from_env (st_getenv S ''STREAMVAULT_REMUX_SLOTS'') def))"

definition new_handler ::
  "start_env \<Rightarrow> string \<Rightarrow> db \<Rightarrow> bytes option \<Rightarrow> (start_error, gw_config \<times> slate_config \<times> slate_manager gateway) result" where
  "new_handler S db_path D key =
     (case bc_new (st_aead S) (st_codec_random S) of
        Inl e \<Rightarrow> Inl CodecFailed
      | Inr codec \<Rightarrow>
          (case st_slate_random S of
             None \<Rightarrow> Inl SlatePanic
           | Some secret \<Rightarrow>
               Inr (\<lparr>gc_lib = st_lib S, gc_aead = st_aead S, gc_hashes = st_hashes S, gc_key = key, gc_codec = codec,
                     gc_valid_utf8 = st_valid_utf8 S\<rparr>,
                    slate_config_of S db_path secret,
                    \<lparr>gw_db = D, gw_transport = new_source_transport, gw_trust = Map.empty,
                     gw_remux = new_remux S default_slots, gw_last_touch = Map.empty, gw_slate = new_slates,
                     gw_random = [], gw_sent = []\<rparr>)))"

section \<open>The process\<close>

datatype startup =
    Fatal string
  | Panicked
  | Serving string gw_config slate_config "slate_manager gateway"
  | NodeServing string node

definition run_node :: "start_env \<Rightarrow> startup" where
  "run_node S =
     (case new_node (st_lib S) (nat (slots_from_env (st_getenv S ''STREAMVAULT_REMUX_SLOTS'') default_relay_node_slots))
             (st_getenv S ''STREAMVAULT_NODE_TOKEN'') (st_getenv S ''STREAMVAULT_CONTROL_URL'') of
        Inl e \<Rightarrow> Fatal (''node: '' @ e)
      | Inr n \<Rightarrow> NodeServing (getenv_or S ''STREAMVAULT_LISTEN'' ''0.0.0.0:8090'') n)"

text \<open>The hash of the running binary; this is its first use.\<close>

definition binary_hash :: "start_env \<Rightarrow> string option" where
  "binary_hash S =
     (let ((h, failed), once) = executable_sha256 (st_hashes S) (st_executable S) no_exe_hash in if failed then None else Some h)"

text \<open>The hash of the running binary is recorded if it can be; a failing write is only logged.\<close>

definition publish_hash :: "start_env \<Rightarrow> db \<Rightarrow> db" where
  "publish_hash S D =
     (case binary_hash S of
        None \<Rightarrow> D
      | Some h \<Rightarrow> (case set_setting (st_write_up S) D ''gateway_binary_sha256'' h of Inl e \<Rightarrow> D | Inr D' \<Rightarrow> D'))"

definition gateway_main :: "start_env \<Rightarrow> startup" where
  "gateway_main S =
     (if st_getenv S ''STREAMVAULT_MODE'' = ''node'' then run_node S
      else (let db_path = getenv_or S ''STREAMVAULT_DB'' ''../data/streamvault.sqlite'';
                key_path = getenv_or S ''STREAMVAULT_KEY_FILE'' ''../data/secret.key'';
                listen = getenv_or S ''STREAMVAULT_LISTEN'' ''127.0.0.1:8090''
            in case st_open S db_path of
                 None \<Rightarrow> Fatal ''opening database''
               | Some D \<Rightarrow>
                   (let key = (case load_key (st_read_key S key_path) of Inl e \<Rightarrow> None | Inr k \<Rightarrow> Some k)
                    in case new_handler S db_path D key of
                         Inl CodecFailed \<Rightarrow> Fatal ''creating gateway handler''
                       | Inl SlatePanic \<Rightarrow> Panicked
                       | Inr (C, F, g) \<Rightarrow> Serving listen C F (g\<lparr>gw_db := publish_hash S (gw_db g)\<rparr>))))"

section \<open>Body of a sniffed response\<close>

text \<open>
  \<open>prefixedReadCloser\<close>: the bytes taken for sniffing, how many of them have been given back, and
  the reader of the rest, here the pieces its \<open>Read\<close> will give. \<open>n\<close> is the room of the caller's buffer.
\<close>

record prefixed_reader =
  pr_prefix :: bytes
  pr_off :: nat
  pr_rest :: "bytes list"

fun rest_read :: "nat \<Rightarrow> bytes list \<Rightarrow> bytes option \<times> bytes list" where
  "rest_read n [] = (None, [])"
| "rest_read n (p # ps) = (Some (take n p), if length p \<le> n then ps else drop n p # ps)"

definition prefixed_read :: "nat \<Rightarrow> prefixed_reader \<Rightarrow> bytes option \<times> prefixed_reader" where
  "prefixed_read n p =
     (if pr_off p < length (pr_prefix p)
      then (let out = take n (drop (pr_off p) (pr_prefix p)) in (Some out, p\<lparr>pr_off := pr_off p + length out\<rparr>))
      else (let (out, rest) = rest_read n (pr_rest p) in (out, p\<lparr>pr_rest := rest\<rparr>)))"

definition prefixed_unread :: "prefixed_reader \<Rightarrow> bytes" where
  "prefixed_unread p = drop (pr_off p) (pr_prefix p) @ concat (pr_rest p)"

section \<open>Lemmas\<close>

text \<open>Every read takes its bytes from the front of what has not been read: nothing is lost, repeated or reordered.\<close>

lemma prefixed_read_front:
  "prefixed_unread p = (case fst (prefixed_read n p) of None \<Rightarrow> [] | Some out \<Rightarrow> out) @ prefixed_unread (snd (prefixed_read n p))"
proof (cases "pr_off p < length (pr_prefix p)")
  case True
  have "take n xs @ drop (length (take n xs)) xs = xs" for xs :: bytes by (simp add: min_def)
  from this [of "drop (pr_off p) (pr_prefix p)"] True show ?thesis
    by (simp add: prefixed_read_def prefixed_unread_def Let_def add.commute [of "pr_off p"])
next
  case False
  then show ?thesis
    by (cases "pr_rest p") (auto simp: prefixed_read_def prefixed_unread_def)
qed

lemma prefixed_read_ends: "fst (prefixed_read n p) = None \<Longrightarrow> prefixed_unread p = []"
  using prefixed_read_front [of p n]
  by (cases "pr_rest p") (auto simp: prefixed_read_def prefixed_unread_def Let_def split: if_splits)

text \<open>What the process starts with satisfies the invariants of its parts.\<close>

lemma started_gateway:
  assumes "gateway_main S = Serving listen C F g"
  shows "slate_inv F (gw_slate g)" and "rm_slots_used (gw_remux g) = 0" and "rm_slots_cap (gw_remux g) \<ge> 1"
    and "st_write_up S \<Longrightarrow> binary_hash S = Some h \<Longrightarrow> map_of (db_settings (gw_db g)) ''gateway_binary_sha256'' = Some h"
proof -
  obtain D where g: "gw_slate g = new_slates" "gw_remux g = new_remux S default_slots" "gw_db g = publish_hash S D"
    using assms by (auto simp: gateway_main_def run_node_def new_handler_def Let_def
        split: if_splits option.splits sum.splits start_error.splits)
  have n: "slots_from_env e default_slots \<ge> 1" for e
    by (auto simp: slots_from_env_def default_slots_def split: prod.splits parse_status.splits)
  show "slate_inv F (gw_slate g)" by (simp add: g new_slates_inv)
  show "rm_slots_used (gw_remux g) = 0" by (simp add: g new_remux_def new_manager_def)
  show "rm_slots_cap (gw_remux g) \<ge> 1"
    using n [of "st_getenv S ''STREAMVAULT_REMUX_SLOTS''"] by (simp add: g new_remux_def new_manager_def)
  show "st_write_up S \<Longrightarrow> binary_hash S = Some h \<Longrightarrow> map_of (db_settings (gw_db g)) ''gateway_binary_sha256'' = Some h"
    by (simp add: g publish_hash_def set_setting_def update_conv')
qed

text \<open>Without a secret key the gateway starts all the same; without its database it does not.\<close>

lemma start_without_key:
  assumes "st_getenv S ''STREAMVAULT_MODE'' \<noteq> ''node''" and "st_codec_random S = Some k" and "st_slate_random S = Some s"
  shows "(\<exists>listen C F g. gateway_main S = Serving listen C F g) \<longleftrightarrow>
    st_open S (getenv_or S ''STREAMVAULT_DB'' ''../data/streamvault.sqlite'') \<noteq> None"
  using assms by (auto simp: gateway_main_def new_handler_def bc_new_def Let_def split: option.splits)

text \<open>The page a browser gets and the video a player gets show the same text, since both read it from the store
  and clean it alike.\<close>

lemma page_and_video_same_text:
  "sw_text E = text_loader up D \<Longrightarrow> shown_text E reason = loaded_text up D reason"
  by (auto simp: shown_text_def text_loader_def loaded_text_def split: sum.splits option.splits)

end
