(* ===== verification/GatewaySystem.thy ===== *)
theory GatewaySystem imports GatewayMoves GatewayStart begin

text \<open>
  The gateway process as a whole: requests, the supervisor of the always-on relays, the housekeeping and the
  processes of both managers, and writes to the database by the administration and the leak checker, in any order.
\<close>

section \<open>The provider's steps\<close>

definition steady_turn :: "slate_config \<Rightarrow> slate_turn \<Rightarrow> bool" where
  "steady_turn F t \<longleftrightarrow> fair_env (wt_env t) \<and> (\<forall>m. (slate_step F)\<^sup>*\<^sup>* m (wt_meanwhile t m))"

lemma slate_wait_moves:
  "slate_wait F turns v k r m = Some (res, m') \<Longrightarrow> list_all (steady_turn F) turns \<Longrightarrow> (slate_step F)\<^sup>*\<^sup>* m m'"
proof (induction turns arbitrary: m r)
  case Nil
  then show ?case by (subst (asm) slate_wait.simps) (auto split: if_splits)
next
  case (Cons t ts)
  let ?m1 = "wt_meanwhile t m"
  have t: "steady_turn F t" and ts: "list_all (steady_turn F) ts" using Cons.prems(2) by simp_all
  then have m1: "(slate_step F)\<^sup>*\<^sup>* m ?m1" and fair: "fair_env (wt_env t)" by (simp_all add: steady_turn_def)
  have again: "(slate_step F)\<^sup>*\<^sup>* m2 m'"
    if "(case get_locked F (wt_env t) m2 v k ''index.m3u8'' of (Inl e, m3) \<Rightarrow> Some (Inl e, m3)
         | (Inr r', m3) \<Rightarrow> slate_wait F ts v k r' m3) = Some (res, m')" for m2
  proof -
    obtain a m3 where g: "get_locked F (wt_env t) m2 v k ''index.m3u8'' = (a, m3)" by (rule prod.exhaust)
    then have "slate_step F m2 m3" using step_get [OF fair, of F m2 v k "''index.m3u8''"] by simp
    with that g Cons.IH [OF _ ts] show ?thesis by (cases a) (auto intro: converse_rtranclp_into_rtranclp)
  qed
  have e: "(slate_step F)\<^sup>*\<^sup>* m (end_process r ?m1)" using m1 step_exit by (rule rtranclp.rtrancl_into_rtrancl)
  show ?case
  proof (cases "ss_dir (slate_at m r) \<in> set (sl_playlists m)")
    case True
    with Cons.prems(1) show ?thesis by (subst (asm) slate_wait.simps) auto
  next
    case False
    note w = Cons.prems(1) [unfolded slate_wait.simps [of F "t # ts"] if_not_P [OF False] Let_def list.case]
    note go = rtranclp_trans [OF m1 Cons.IH [OF _ ts]] rtranclp_trans [OF m1 again] rtranclp_trans [OF e again]
    show ?thesis
    proof (cases "wt_event t")
      case EncoderDone
      with w go(1,2) m1 show ?thesis by (simp split: if_splits)
    next
      case DeadlinePassed
      with w go(3) m1 show ?thesis by (simp split: if_splits)
    next
      case Tick
      with w go(1) show ?thesis by simp
    qed
  qed
qed

lemma manager_get_moves:
  assumes "fair_env W" and "list_all (steady_turn F) turns"
  shows "(slate_step F)\<^sup>*\<^sup>* m (snd (manager_get F W turns m v k n))"
proof -
  obtain a m1 where g: "get_locked F W m v k n = (a, m1)" by (rule prod.exhaust)
  then have m1: "slate_step F m m1" using step_get [OF assms(1), of F m v k n] by simp
  then have "slate_wait F turns v k r m1 = Some (res, m') \<Longrightarrow> (slate_step F)\<^sup>*\<^sup>* m m'" for r res m'
    using slate_wait_moves [OF _ assms(2)] by (metis converse_rtranclp_into_rtranclp)
  with m1 g show ?thesis
    by (cases a) (auto simp: manager_get_def slate_get_path_def split: option.splits if_splits)
qed

section \<open>The process\<close>

record system =
  sy_gateway :: "slate_manager gateway"
  sy_relays :: "(int \<times> always_on_state) list"

text \<open>The provider of the requests is the manager.\<close>

definition served_by_manager :: "slate_config \<Rightarrow> slate_manager gw_env \<Rightarrow> bool" where
  "served_by_manager F E \<longleftrightarrow> steady (ge_relay E) \<and>
     (\<exists>W turns now. fair_env W \<and> list_all (steady_turn F) turns \<and>
        ge_provider E = \<lparr>sp_get_path = manager_get F W turns, sp_prepare = prepare F now\<rparr>)"

definition supervised ::
  "gw_config \<Rightarrow> clock \<Rightarrow> bool \<Rightarrow> (duration \<Rightarrow> string) \<Rightarrow> ((int \<times> stream) list \<Rightarrow> stream list) \<Rightarrow> (int \<Rightarrow> relay_env) \<Rightarrow>
   system \<Rightarrow> system" where
  "supervised C ck up fmt order env s =
     (let g = sy_gateway s;
          w = reconcile_always_on (gc_lib C) fmt (gw_signature C) (db_relay_store ck up) False (ck_now ck) order env
                \<lparr>aw_states = sy_relays s, aw_remux = gw_remux g, aw_store = gw_db g\<rparr>
      in \<lparr>sy_gateway = g\<lparr>gw_remux := aw_remux w, gw_db := aw_store w\<rparr>, sy_relays = aw_states w\<rparr>)"

text \<open>Every request finds fresh randomness: \<open>crypto/rand\<close> does not run out, though a single read may fail.\<close>

inductive system_step :: "gw_config \<Rightarrow> slate_config \<Rightarrow> system \<Rightarrow> system \<Rightarrow> bool" for C F where
  sys_request: "served_by_manager F E \<Longrightarrow>
    system_step C F s (s\<lparr>sy_gateway := snd (serve_http C E q ((sy_gateway s)\<lparr>gw_random := rnd\<rparr>))\<rparr>)"
| sys_supervise: "(\<And>i. steady (env i)) \<Longrightarrow> system_step C F s (supervised C ck up fmt order env s)"
| sys_remux: "rm_step (gw_remux (sy_gateway s)) m \<Longrightarrow>
    system_step C F s (s\<lparr>sy_gateway := (sy_gateway s)\<lparr>gw_remux := m\<rparr>\<rparr>)"
| sys_slate: "slate_step F (gw_slate (sy_gateway s)) m \<Longrightarrow>
    system_step C F s (s\<lparr>sy_gateway := (sy_gateway s)\<lparr>gw_slate := m\<rparr>\<rparr>)"
| sys_database: "system_step C F s (s\<lparr>sy_gateway := (sy_gateway s)\<lparr>gw_db := D\<rparr>\<rparr>)"

inductive system_reachable :: "start_env \<Rightarrow> gw_config \<Rightarrow> slate_config \<Rightarrow> system \<Rightarrow> bool" for S C F where
  sys_start: "gateway_main S = Serving listen C F g \<Longrightarrow> system_reachable S C F \<lparr>sy_gateway = g, sy_relays = []\<rparr>"
| sys_step: "system_reachable S C F s \<Longrightarrow> system_step C F s s' \<Longrightarrow> system_reachable S C F s'"

lemma served_by_manager_steady: "served_by_manager F E \<Longrightarrow> steady_gateway (slate_step F) E"
  using manager_get_moves step_prepare
  by (auto simp: served_by_manager_def steady_gateway_def)

lemma system_step_moves: "system_step C F s s' \<Longrightarrow> gw_moves (slate_step F) (sy_gateway s) (sy_gateway s')"
proof (induction rule: system_step.induct)
  case (sys_request E s q rnd)
  from request_moves [OF served_by_manager_steady [OF sys_request], of "(sy_gateway s)\<lparr>gw_random := rnd\<rparr>" C q]
  show ?case by (simp add: gw_moves_def)
next
  case (sys_supervise env s ck up fmt order)
  from supervisor_moves [OF sys_supervise, where w = "\<lparr>aw_states = sy_relays s, aw_remux = gw_remux (sy_gateway s), aw_store = gw_db (sy_gateway s)\<rparr>"]
  show ?case by (simp add: supervised_def Let_def gw_moves_def)
qed (simp_all add: gw_moves_def)

lemma rm_reachable_moves: "rm_step\<^sup>*\<^sup>* m m' \<Longrightarrow> rm_reachable cap m \<Longrightarrow> rm_reachable cap m'"
  by (induction rule: rtranclp.induct) (auto intro: rm_reachable.reach_step)

lemma slate_reachable_moves: "(slate_step F)\<^sup>*\<^sup>* m m' \<Longrightarrow> slate_reachable F m \<Longrightarrow> slate_reachable F m'"
  by (induction rule: rtranclp.induct) (auto intro: slate_reachable.reach_step)

text \<open>The slots of the process: the environment's setting, or the default.\<close>

definition process_slots :: "start_env \<Rightarrow> nat" where
  "process_slots S = nat (slots_from_env (st_getenv S ''STREAMVAULT_REMUX_SLOTS'') default_slots)"

lemma system_managers:
  "system_reachable S C F s \<Longrightarrow> rm_reachable (process_slots S) (gw_remux (sy_gateway s)) \<and> slate_reachable F (gw_slate (sy_gateway s))"
proof (induction rule: system_reachable.induct)
  case (sys_start listen g)
  then have "gw_slate g = new_slates" "gw_remux g = new_remux S default_slots"
    by (auto simp: gateway_main_def run_node_def new_handler_def Let_def split: if_splits option.splits sum.splits start_error.splits)
  then show ?case by (simp add: new_remux_def process_slots_def rm_reachable.reach_new slate_reachable.reach_new)
next
  case (sys_step s s')
  from system_step_moves [OF sys_step.hyps(2)] sys_step.IH rm_reachable_moves slate_reachable_moves show ?case
    unfolding gw_moves_def by blast
qed

lemma process_slots_bounds: "1 \<le> process_slots S \<and> process_slots S \<le> 32"
  by (auto simp: process_slots_def slots_from_env_def default_slots_def max_slots_def split: prod.split parse_status.split)

text \<open>A state a manager can reach by itself is reached by the process.\<close>

lemma system_reaches_remux:
  assumes "system_reachable S C F s" and "gw_remux (sy_gateway s) = new_manager (process_slots S)"
    and "rm_reachable (process_slots S) m"
  shows "system_reachable S C F (s\<lparr>sy_gateway := (sy_gateway s)\<lparr>gw_remux := m\<rparr>\<rparr>)"
  using assms(3)
proof (induction rule: rm_reachable.induct)
  case reach_new
  from assms(1,2) show ?case by (simp flip: assms(2))
next
  case (reach_step m m')
  from sys_step [OF reach_step.IH sys_remux [of _ m']] reach_step.hyps(2) show ?case by simp
qed

lemma system_reaches_slates:
  assumes "system_reachable S C F s" and "gw_slate (sy_gateway s) = new_slates" and "slate_reachable F m"
  shows "system_reachable S C F (s\<lparr>sy_gateway := (sy_gateway s)\<lparr>gw_slate := m\<rparr>\<rparr>)"
  using assms(3)
proof (induction rule: slate_reachable.induct)
  case reach_new
  from assms(1) show ?case by (simp flip: assms(2))
next
  case (reach_step m m')
  from sys_step [OF reach_step.IH sys_slate [of _ _ m']] reach_step.hyps(2) show ?case by simp
qed

section \<open>Properties\<close>

text \<open>A process that was started without settings for its slots, and relays one stream while it shows one personal video.\<close>

definition ex_start :: start_env where
  "ex_start =
     \<lparr>st_getenv = (\<lambda>k. if k = ''STREAMVAULT_SLATE_ASSETS'' then ''assets'' else if k = ''STREAMVAULT_DB'' then ''data/tv.sqlite'' else []),
      st_open = (\<lambda>p. Some tv_db), st_read_key = (\<lambda>p. None), st_codec_random = Some (replicate 32 CHR 0x00), st_slate_random = Some [],
      st_executable = None, st_write_up = True, st_lib = plain_lib, st_aead = clear_aead, st_hashes = sf_hashes ex_slates,
      st_valid_utf8 = (\<lambda>s. True), st_print_time = (\<lambda>t. []), st_local_time = (\<lambda>t. [])\<rparr>"

lemma ex_started:
  obtains C g where "gateway_main ex_start = Serving ''127.0.0.1:8090'' C ex_slates g"
    and "gw_remux g = new_manager 2" and "gw_slate g = new_slates"
proof -
  have "data_dir ''data/tv.sqlite'' = ''data''" by code_simp
  moreover have "slots_from_env [] default_slots = 2" by code_simp
  ultimately show ?thesis
    by (auto intro!: that simp: gateway_main_def ex_start_def getenv_or_def new_handler_def bc_new_def slate_config_of_def
        new_remux_def publish_hash_def binary_hash_def executable_sha256_def no_exe_hash_def ex_slates_def load_key_def Let_def)
qed

lemma ex_system:
  obtains C s where "system_reachable ex_start C ex_slates s" and "gw_remux (sy_gateway s) = one_session"
    and "gw_slate (sy_gateway s) = ex_running"
proof -
  have n: "process_slots ex_start = 2" by code_simp
  obtain C g where g: "gateway_main ex_start = Serving ''127.0.0.1:8090'' C ex_slates g"
      "gw_remux g = new_manager 2" "gw_slate g = new_slates" using ex_started .
  from system_reaches_remux [OF sys_start [OF g(1)], of one_session] g(2) one_session_reachable n
  have "system_reachable ex_start C ex_slates \<lparr>sy_gateway = g\<lparr>gw_remux := one_session\<rparr>, sy_relays = []\<rparr>" by simp
  from that [OF system_reaches_slates [OF this _ ex_running_reachable]] g(3) show ?thesis by simp
qed

text \<open>C10: a running gateway never has more than its slots' worth of remux processes and opens in flight and four encoders:
  at most 36 whatever is configured.\<close>

theorem gateway_processes_bounded:
  assumes "system_reachable S C F s"
  shows "length (running (gw_remux (sy_gateway s))) + length (rm_pending (gw_remux (sy_gateway s))) +
      card {r. r < length (sl_heap (gw_slate (sy_gateway s))) \<and> \<not> ss_done (slate_at (gw_slate (sy_gateway s)) r)}
      \<le> process_slots S + 4 \<and> process_slots S \<le> 32"
proof -
  have R: "rm_reachable (process_slots S) (gw_remux (sy_gateway s))" and I: "slate_inv F (gw_slate (sy_gateway s))"
    using system_managers [OF assms] slate_reachable_inv by blast+
  then have "length (running (gw_remux (sy_gateway s))) + length (rm_pending (gw_remux (sy_gateway s))) \<le> process_slots S"
    using rm_reachable_inv [OF R] reachable_cap [OF R] by (simp add: rm_inv_def slots_ok_def)
  with live_encoders_bounded [OF I] process_slots_bounds [of S] show ?thesis by linarith
qed

theorem gateway_processes_bounded_witness:
  "length (running one_session) + length (rm_pending one_session) +
     card {r. r < length (sl_heap ex_running) \<and> \<not> ss_done (slate_at ex_running r)} \<le> 6"
proof -
  have n: "process_slots ex_start = 2" by code_simp
  obtain C s where s: "system_reachable ex_start C ex_slates s" "gw_remux (sy_gateway s) = one_session"
      "gw_slate (sy_gateway s) = ex_running" using ex_system .
  from gateway_processes_bounded [OF s(1)] s(2,3) n show ?thesis by simp
qed

end
