(* ===== verification/GatewayAccess.thy ===== *)
theory GatewayAccess imports GatewaySystem begin

text \<open>
  What the gateway writes to the database it shares with the administration and the leak checker: when a token was last
  used, what a node reports, and the state of the relays. Who may see what is never its to change.
\<close>

section \<open>What decides access\<close>

text \<open>The database without these columns. A node that is not disabled counts as active.\<close>

definition unused_token :: "token_row \<Rightarrow> token_row" where
  "unused_token t = t\<lparr>tk_last_used_at := None\<rparr>"

definition unseen_node :: "node_row \<Rightarrow> node_row" where
  "unseen_node n = n\<lparr>nr_last_seen_at := None, nr_last_status_json := None,
     nr_status := (if nr_status n = ''pending'' then ''active'' else nr_status n)\<rparr>"

definition access_part :: "db \<Rightarrow> db" where
  "access_part D = D\<lparr>db_tokens := map unused_token (db_tokens D), db_nodes := map unseen_node (db_nodes D), db_runtime := []\<rparr>"

lemma touch_keeps_access [simp]: "access_part (touch_token ck up D i) = access_part D"
  by (simp add: touch_token_def access_part_def unused_token_def)

lemma status_keeps_access: "record_node_status ck up D i json = Inr D' \<Longrightarrow> access_part D' = access_part D"
proof -
  assume "record_node_status ck up D i json = Inr D'"
  then obtain f where D': "D' = D\<lparr>db_nodes := map f (db_nodes D)\<rparr>" and "\<And>n. unseen_node (f n) = unseen_node n"
    by (auto simp: record_node_status_def unseen_node_def split: if_splits)
  then show ?thesis by (simp add: access_part_def)
qed

interpretation db_access: relay_observer "db_relay_store ck up" access_part
proof
  show "ry_set_runtime (db_relay_store ck up) D i state detail = Inr D' \<Longrightarrow> access_part D' = access_part D" for D i state detail D'
    by (auto simp: db_relay_store_def set_runtime_def access_part_def split: if_splits)
  show "ry_clear_runtime (db_relay_store ck up) D keep = Inr D' \<Longrightarrow> access_part D' = access_part D" for D keep D'
    by (auto simp: db_relay_store_def clear_runtime_def access_part_def split: if_splits)
qed

section \<open>Handlers that do not write\<close>

lemma writes_nothing [simp]:
  "gw_db (snd (source_private E st e g)) = gw_db g" "gw_db (snd (gw_fetch C net target st b d g)) = gw_db g"
  "gw_db (snd (gw_node_fetch C E target q g)) = gw_db g" "gw_db (snd (write_temporary_failure E q g)) = gw_db g"
  "gw_db (snd (write_replacement E q ap token entry g)) = gw_db g" "gw_db (snd (serve_slate E q g)) = gw_db g"
  "gw_db (snd (write_remux_playlist C E ap r prefix g)) = gw_db g"
  "gw_db (snd (serve_remux_resource E ap target g)) = gw_db g"
  by (simp_all add: source_private_def gw_fetch_def gw_node_fetch_def write_temporary_failure_def write_replacement_def
      serve_slate_def write_remux_playlist_def serve_remux_resource_def Let_def split_beta
      split: option.split sum.split slate_error.split)

lemma remux_entry_writes_nothing [simp]: "gw_db (snd (serve_remux_entry C E ap prefix g)) = gw_db g"
  by (simp add: serve_remux_entry_def split_beta split: sum.split)

lemma sniff_writes_nothing [simp]: "gw_db (snd (sniff_and_serve C E q resp u prefix ap entry g)) = gw_db g"
  by (simp add: sniff_and_serve_def Let_def split: option.split)

lemma entry_writes_nothing [simp]: "gw_db (snd (serve_entry C E q ap source_entry prefix g)) = gw_db g"
  by (simp add: serve_entry_def Let_def split_beta split: option.split sum.split)

lemma resource_writes_nothing [simp]: "gw_db (snd (serve_resource C E q ap source_entry target prefix g)) = gw_db g"
  by (simp add: serve_resource_def Let_def split_beta split: sum.split)

lemma node_writes_nothing [simp]:
  "gw_db (snd (serve_from_node C E q ap prefix g)) = gw_db g" "gw_db (snd (serve_node_resource C E q ap target prefix g)) = gw_db g"
  by (simp_all add: serve_from_node_def serve_node_resource_def Let_def split_beta split: option.split sum.split)

lemma admitted_writes_nothing [simp]: "gw_db (snd (serve_admitted C E q ap prefix remainder g)) = gw_db g"
  by (simp add: serve_admitted_def Let_def split_beta split: option.split sum.split)

section \<open>Handlers that write\<close>

lemma api_keeps_access:
  assumes "serve_node_api H A key E q D rnd = (reply, D', rnd')"
  shows "access_part D' = access_part D"
  using assms
  by (auto simp: serve_node_api_def accept_node_status_def Let_def dest: status_keeps_access
      split: if_splits option.splits prod.splits sum.splits)

lemma throttled_keeps_access [simp]: "access_part (gw_db (touch_token_throttled E i g)) = access_part (gw_db g)"
  by (simp add: touch_token_throttled_def Let_def)

lemma stream_keeps_access [simp]: "access_part (gw_db (snd (serve_stream C E q path g))) = access_part (gw_db g)"
  by (simp add: serve_stream_def Let_def split_beta split: sum.split store_error.split admission.split)

lemma request_keeps_access: "access_part (gw_db (snd (serve_http C E q g))) = access_part (gw_db g)"
  by (auto simp: serve_http_def Let_def dest: api_keeps_access split: prod.split)

text \<open>What a token is worth does not depend on when it was used.\<close>

lemma validate_access_part: "validate_token H ck up (access_part D) i raw = validate_token H ck up D i raw"
proof -
  have f: "List.find P (map unused_token ts) = map_option unused_token (List.find (\<lambda>t. P (unused_token t)) ts)" for P ts
    by (induction ts) auto
  show ?thesis
    by (cases "List.find (\<lambda>t. tk_ap_id t = i \<and> tk_hash t = hex_encode (sha256 H raw)) (db_tokens D)")
      (simp_all add: validate_token_def access_part_def f unused_token_def Let_def split: option.split)
qed

section \<open>The property\<close>

text \<open>C5: no request and no turn of the supervisor changes an account, a stream, an access point, a token, a setting, a text
  or an incident, except that a token gets the time of its last use and a node that is not disabled what it reported. What is
  revoked or disabled stays so until the administration changes it, and every token keeps its status.\<close>

theorem gateway_grants_nothing:
  "access_part (gw_db (snd (serve_http C E q g))) = access_part (gw_db g) \<and>
   access_part (gw_db (sy_gateway (supervised C ck up fmt order env s))) = access_part (gw_db (sy_gateway s)) \<and>
   validate_token H ck' up' (gw_db (snd (serve_http C E q g))) i raw = validate_token H ck' up' (gw_db g) i raw"
  using validate_access_part [of H ck' up' "gw_db g" i raw] validate_access_part [of H ck' up' "gw_db (snd (serve_http C E q g))" i raw]
  by (simp add: request_keeps_access supervised_def Let_def db_access.reconcile_keeps)

end
