(* ===== verification/Spec2Isabelle.thy ===== *)
theory Spec2Isabelle imports SealedBox NodeProto Hls SourceFetch HlsPull Remux GatewaySafety NodeExchange LeakMain SlateCard GatewayAccess begin

text \<open>
  StreamVault gateway: a verification development for the Go code under \<open>src/gateway/\<close>.

  The program. Owners register video sources and hand out links to them (access points, with tokens
  where they are private). One gateway process answers every such link: it resolves the path in a SQLite
  database shared with a PHP administration, checks the token, fetches the source under an SSRF policy and
  either rewrites an HLS playlist, so that its references come back to the gateway as sealed blobs, or
  remuxes an MPEG-TS source with FFmpeg in a session shared by all viewers. A stream may be served by a relay
  node instead, a second mode of the same binary that polls its configuration from the gateway. What cannot
  be shown is replaced by an error-screen video. A second program looks for links that leaked to GitHub
  and revokes them.

  Conventions. Go's strings and byte slices are lists of characters (one per byte), text is a list of runes,
  \<open>int64\<close> is \<^typ>\<open>int\<close> with \<open>wrap64\<close> written out where a value can leave its range, an octet of an address is
  an 8-bit word. Errors are values of a sum type (\<open>result\<close>) or an option, so each early return is a
  branch. A pointer to a session is an index into the list of all sessions ever made, because the code keeps
  using sessions it has removed from its maps. A map that the code walks is an association list, and the
  order of a walk is an argument. A critical section is one operation; what others do between two
  sections is an argument (a function on the state, or a list of turns). The clock, DNS, the network, the
  file system, FFmpeg, JSON, SHA-256, HMAC, AES-GCM, \<open>net/url\<close> and the random source are parameters.
\<close>

text \<open>
  Theories and code (paths under \<open>src/gateway/\<close>).

  Vocabulary: \<open>Prelude\<close> (basic types, results, lemmas on lists and maps), \<open>GoStrings\<close> (package
  \<open>strings\<close>), \<open>Encoding\<close> (decimal, hexadecimal, base64; locale \<open>byte_codec\<close>, interpreted on both alphabets), \<open>Int64\<close>,
  \<open>Urls\<close> (\<open>net/url\<close> accessors over a parser parameter), \<open>IpAddr\<close> (\<open>net.IP\<close>, \<open>netip.Addr\<close>, and the two classifications
  of addresses).

  Secrets and protocol: \<open>SealedBox\<close> (\<open>internal/secretbox\<close>, \<open>internal/blobcodec\<close>; locale \<open>sealed_box\<close>, interpreted on
  both envelopes), \<open>NodeProto\<close> (\<open>internal/nodeproto\<close>: node tokens, derived keys, viewer grants).

  Data: \<open>Schema\<close> (the tables), \<open>Store\<close> (\<open>internal/store/store.go\<close>).

  Media: \<open>Hls\<close> (\<open>internal/hls/rewrite.go\<close>; locale \<open>encode_func\<close> for the callback, interpreted in \<open>GatewaySafety\<close> on the
  gateway's sealed references), \<open>HlsPull\<close> (\<open>internal/hlspull\<close>), \<open>Remux\<close> (\<open>internal/remux\<close>: the session manager,
  with the exit of a process as a step), \<open>AlwaysOn\<close> (\<open>gatewayhttp/alwayson.go\<close>; locale \<open>relay_contract\<close> for
  \<open>RelayStore\<close>, interpreted on the database here and on the node in \<open>NodeRelay\<close>).

  Gateway: \<open>Ssrf\<close> (\<open>gatewayhttp/ssrf.go\<close> and the fetch with redirects), \<open>SourceFetch\<close> (\<open>sourceurl.go\<close>, \<open>fetchdiag.go\<close>, the fetch of
  \<open>handler.go\<close>), \<open>Gateway\<close> (the request handler \<open>handler.go\<close> from \<open>ServeHTTP\<close> to the reply), \<open>GatewaySafety\<close> (what a
  request can reach), \<open>NodeControl\<close> (\<open>nodecontrol.go\<close>), \<open>NodeRelay\<close> (\<open>internal/node\<close>), \<open>NodeLink\<close> (both ends of the
  node protocol), \<open>NodeExchange\<close> (a poll and a status report from the node's request to what each side keeps),
  \<open>GatewayStart\<close> (\<open>cmd/gateway/main.go\<close>, \<open>New\<close>).

  The process: \<open>GatewayMoves\<close> (a handler moves each manager only along that manager's own steps), \<open>GatewaySystem\<close> (the
  whole gateway as a step relation: requests, the supervisor of the relays, the housekeeping of both managers and foreign
  writes to the database in any order; its reachable states start in what \<open>gateway_main\<close> returns), \<open>GatewayAccess\<close> (what
  requests and the supervisor write to the shared database; locale \<open>relay_observer\<close> of \<open>AlwaysOn\<close>, interpreted on the part
  of the database that decides access and, as a sublocale, on the wanted streams of every relay store).

  Error screens: \<open>SlateText\<close> (\<open>internal/slate/text.go\<close>, names, variants and keys), \<open>SlateFont\<close> (\<open>fitFontSize\<close> of the same file,
  with \<open>float64\<close> as mantissa and exponent, every operation rounded to even), \<open>Slate\<close> (\<open>internal/slate/slate.go\<close>: \<open>Manager\<close>
  with \<open>Prepare\<close>, \<open>GetPath\<close>, \<open>ReapIdle\<close>, \<open>RestartOnAudioChange\<close>, \<open>Close\<close>, and the command line of its FFmpeg),
  \<open>SlateSafety\<close> (its steps and invariant), \<open>SlateWait\<close> (the wait for a playlist), \<open>SlateCard\<close> (the
  texts fit on the card: the rounding of the float computation against the reals), \<open>SlateLink\<close> (locale \<open>slate_contract\<close> for
  \<open>slate.Provider\<close>: the handler's lemma is proved in it, the manager interprets it).

  Leak checker: \<open>LeakMatch\<close> (\<open>matcher.go\<close>), \<open>LeakStore\<close> (\<open>store.go\<close>), \<open>LeakActions\<close> (\<open>actions.go\<close>), \<open>LeakLock\<close> (the scan lock),
  \<open>GitHub\<close> (\<open>github.go\<close>), \<open>GitHubLog\<close> (what the client's log of requests tells of a search or a comment), \<open>LeakScan\<close>
  (\<open>scanner.go\<close>; locale \<open>scan_invariant\<close> lifts an invariant of the single writes to a run, interpreted in \<open>LeakSafety\<close> on the
  growth of the findings and of the log and on the comments, and in \<open>LeakMain\<close> on the lock), \<open>LeakSafety\<close>, \<open>LeakMain\<close>
  (\<open>cmd/leakchecker\<close>).
\<close>

text \<open>
  What is shown.

  Secrets: a sealed reference opens only under its own access point; encryption is undone by
  decryption; a viewer grant is bound to its stream, access point, token and expiry.

  Addresses and fetches: the SSRF classification is the one of a table of blocks; a fetch for an untrusted
  stream contacts public addresses only, and no more than five hops, unless the transport holds an idle private connection (which is
  shown to be reused).

  Requests: nothing is fetched or answered with media without admission; a resource needs a blob of its own
  access point, and what it names is checked against private addresses unless the stream is trusted and its source is
  private; the references of a rewritten playlist come back as their targets, for prefixes the administration accepts and
  extensions without special characters; the playlist of a failing source is finite; a replacement playlist names a video
  the gateway knows, until its key is reaped; no request and no turn of the supervisor changes
  what decides access, so a revoked token stays revoked.

  Nodes: a node serves only what an unexpired grant names under a fresh configuration, stops after a
  rejection or five minutes without one, whatever the polls were answered with, refuses what was revoked when it last
  polled, and sees the sources as the gateway does; a node that was disabled stops at its next poll; a status report is kept and makes the node online for 45 seconds.

  Sessions: the remux manager keeps its slot count and one process per stream; the manager of the error
  screens runs at most four encoders, shows a personal video only to its key, replaces a failed radio by
  silence, ends its waits, and gives its encoders nothing of the operator's text, which is drawn inside the card by
  the source's own estimate of the widths (the font has wider runes: \<open>at_signs_underestimated\<close>). In the whole process each
  manager stays in a state of its own step relation, so these bounds hold for a running gateway.

  Leaks: a live token that is found first is revoked; the request log of a clean run holds every search for every access
  point, completely answered, and what matched is on file; the comments in the log go to the repository of their leak, allowlisted
  and once; what is stored holds no token; one process at a time holds the lock, for every interleaving of the
  statements, until a scan outlives the fifteen minutes of the lock. Runs are judged by the log of what was sent and by what is in the
  database.

  Flaws are stated as theorems where the code has them (an idle private connection, the greatest sequence number,
  a dead session kept by polling, a token hidden by an earlier one, a dead fallback that is chosen for ever, a late
  release that frees another scan's lock).
\<close>

text \<open>
  Bounds and fuel. Recursions end by a measure: the hops left for a fetch (\<open>max_hops\<close>, five), the
  length of the input for the scanners, the distance to the end of the window for the copy loop. Loops
  whose length the environment decides take a list of its events: the looks at the temporary slate (\<open>ge_late\<close>; after the
  last the deadline has passed, as it must in the code), and the turns of a wait for a playlist (\<open>wait_playlist\<close> with a
  deadline, the turns of a relay in \<open>re_turns\<close>; \<open>slate_wait\<close>, which is \<open>None\<close> while it still waits; \<open>playlist_wait_ends\<close> shows that two deadlines are enough, \<open>dead_fallback_never_ends\<close> where no
  number is). Limits of the code (four encoders, three personal videos, 45 runes, the slots) are its own constants.

  Not modelled. Response headers for caching, the log and the body of \<open>http.Server\<close> (the handler's result is the
  status and the body); FFmpeg itself, whose command line is modelled for the error screens only; the
  reading of the load average, a float that is only passed on; the text of the node's install script (a shell program in
  \<open>nodecontrol.go\<close>) and its updater; JSON encodings, whose laws are hypotheses; opening the databases; tickers
  and signals, whose effects are the steps of the state machines. The PHP administration, the SQL migrations and the
  rendering tools are not Go and only share the database or its files with the gateway.
\<close>

end
